(* ===== verification/FF_Prelude.thy ===== *)
theory FF_Prelude
  imports Complex_Main "HOL-Library.Char_ord" "HOL-Library.List_Lexorder" "HOL-Library.Multiset"
begin

text \<open>
  Shared vocabulary of the development: the names of the model's basic types, the pieces of
  the C++ standard library that several components use (decimal printing, fixed-size
  vectors), and generic lemmas on lists, finite counts and relations.

  Two conventions are used throughout.
  \<^item> A \<^verbatim>\<open>std::vector\<close> that is sized once and afterwards only read and written by index
    (the per-node vectors of the graph algorithms and of the scheduler) is a function from
    the index; its size is carried separately. Vectors that grow are lists.
  \<^item> C++ \<^verbatim>\<open>int\<close>, \<^verbatim>\<open>std::int64_t\<close> and clock values are \<open>int\<close>; where the width
    matters (hashing, edge keys, resource sums) the width is written out.
\<close>

section \<open>Names of the basic types\<close>

type_synonym TaskId = string
type_synonym RunId = int
type_synonym TimePoint = int   \<comment> \<open>\<^verbatim>\<open>system_clock\<close> ticks since the epoch\<close>
type_synonym Millis = int      \<comment> \<open>\<^verbatim>\<open>std::chrono::milliseconds\<close>\<close>
type_synonym EnvVar = "string \<times> string"

named_theorems dag_intro \<open>structural facts about built graphs\<close>
named_theorems frame \<open>what an operation leaves unchanged\<close>
named_theorems sched_simps \<open>definitions of the small scheduler operations\<close>

section \<open>std::to_string on integers\<close>

fun digits_of_nat :: "nat \<Rightarrow> string" where
  "digits_of_nat n =
     (if n < 10 then [char_of (48 + n)]
      else digits_of_nat (n div 10) @ [char_of (48 + n mod 10)])"

declare digits_of_nat.simps [simp del]

definition to_string_int :: "int \<Rightarrow> string" where
  "to_string_int i = (if i < 0 then ''-'' @ digits_of_nat (nat (- i)) else digits_of_nat (nat i))"

lemma digits_of_nat_nonempty [simp]: "digits_of_nat n \<noteq> []"
  by (subst digits_of_nat.simps) simp

text \<open>The printed digits are digits: no separator of any of the program's text formats occurs.\<close>

lemma digits_of_nat_chars: "c \<in> set (digits_of_nat n) \<Longrightarrow> \<exists>d < (10::nat). c = char_of (48 + d)"
proof (induction n rule: digits_of_nat.induct)
  case (1 n)
  show ?case
  proof (cases "n < 10")
    case True
    with "1.prems" show ?thesis by (subst (asm) digits_of_nat.simps) auto
  next
    case False
    with "1.prems" have "c \<in> set (digits_of_nat (n div 10)) \<or> c = char_of (48 + n mod 10)"
      by (subst (asm) digits_of_nat.simps) auto
    then show ?thesis
    proof
      assume "c \<in> set (digits_of_nat (n div 10))"
      with False "1.IH" show ?thesis by blast
    next
      assume "c = char_of (48 + n mod 10)"
      moreover have "n mod 10 < 10" by simp
      ultimately show ?thesis by blast
    qed
  qed
qed

lemma char_of_inj_ascii: "a < 256 \<Longrightarrow> b < 256 \<Longrightarrow> char_of a = char_of (b::nat) \<Longrightarrow> a = b"
  by (metis mod_less of_char_of)

definition nat_of_digits :: "string \<Rightarrow> nat" where
  "nat_of_digits s = foldl (\<lambda>acc c. acc * 10 + (of_char c - 48)) 0 s"

lemma nat_of_digits_snoc: "nat_of_digits (s @ [c]) = nat_of_digits s * 10 + (of_char c - 48)"
  by (simp add: nat_of_digits_def)

lemma nat_of_digits_of_nat: "nat_of_digits (digits_of_nat n) = n"
proof (induction n rule: digits_of_nat.induct)
  case (1 n)
  show ?case
  proof (cases "n < 10")
    case True
    then show ?thesis
      by (subst digits_of_nat.simps) (simp add: nat_of_digits_def)
  next
    case False
    with "1.IH" show ?thesis
      by (subst digits_of_nat.simps) (simp add: nat_of_digits_snoc)
  qed
qed

lemma digits_of_nat_inject: "digits_of_nat a = digits_of_nat b \<longleftrightarrow> a = b"
  by (metis nat_of_digits_of_nat)

lemma minus_not_digit: "''-'' @ s \<noteq> digits_of_nat n"
proof
  assume eq: "''-'' @ s = digits_of_nat n"
  then have "CHR ''-'' \<in> set (digits_of_nat n)" by (metis append_Cons list.set_intros(1))
  then obtain d :: nat where "d < 10" "CHR ''-'' = char_of (48 + d)"
    using digits_of_nat_chars by blast
  then have "of_char (CHR ''-'') = (48 + d :: nat)" by simp
  then show False by simp
qed

lemma to_string_int_inject: "to_string_int a = to_string_int b \<longleftrightarrow> a = b"
proof
  assume eq: "to_string_int a = to_string_int b"
  show "a = b"
  proof (cases "a < 0"; cases "b < 0")
    assume "a < 0" "b < 0"
    with eq have "nat (- a) = nat (- b)" by (simp add: to_string_int_def digits_of_nat_inject)
    with \<open>a < 0\<close> \<open>b < 0\<close> show ?thesis by simp
  next
    assume "a < 0" "\<not> b < 0"
    with eq show ?thesis
      using minus_not_digit [of "digits_of_nat (nat (- a))" "nat b"] by (simp add: to_string_int_def)
  next
    assume "\<not> a < 0" "b < 0"
    with eq show ?thesis
      using minus_not_digit [of "digits_of_nat (nat (- b))" "nat a"] by (simp add: to_string_int_def)
  next
    assume "\<not> a < 0" "\<not> b < 0"
    with eq show ?thesis by (simp add: to_string_int_def digits_of_nat_inject)
  qed
qed simp

section \<open>Splitting at a separator\<close>

text \<open>Concatenations with a separator split uniquely when the left parts avoid it.\<close>

lemma sep_split_unique:
  assumes "a @ c # x = b @ c # y" and "c \<notin> set a" and "c \<notin> set b"
  shows "a = b \<and> x = y"
  using assms
proof (induction a arbitrary: b)
  case Nil
  then show ?case by (cases b) auto
next
  case (Cons z a)
  then show ?case by (cases b) auto
qed

section \<open>Finite counts over index sets\<close>

text \<open>
  Worklist loops over per-node vectors terminate because a count of the indices satisfying
  a predicate goes down: one index stops satisfying it and none starts to.
\<close>

lemma card_filter_less:
  assumes "finite A" "i \<in> A" "P i" "\<not> Q i" "\<And>j. j \<in> A \<Longrightarrow> Q j \<Longrightarrow> P j"
  shows "card {j \<in> A. Q j} < card {j \<in> A. P j}"
  using assms by (intro psubset_card_mono) auto

lemma card_filter_le:
  assumes "finite A" "\<And>j. j \<in> A \<Longrightarrow> Q j \<Longrightarrow> P j"
  shows "card {j \<in> A. Q j} \<le> card {j \<in> A. P j}"
  using assms by (intro card_mono) auto

lemma count_list_distinct: "distinct xs \<Longrightarrow> count_list xs x = (if x \<in> set xs then 1 else 0)"
  by (induction xs) auto

section \<open>Relations\<close>

text \<open>Adding a node whose successors already lie in a closed acyclic set keeps it acyclic.\<close>

lemma acyclic_insert_sink:
  assumes ac: "acyclic (r \<inter> B \<times> B)" and closed: "r `` B \<subseteq> B"
    and v: "v \<notin> B" and sv: "r `` {v} \<subseteq> B"
  shows "acyclic (r \<inter> insert v B \<times> insert v B)"
proof (rule acyclicI, rule allI, rule notI)
  fix x
  assume cyc: "(x, x) \<in> (r \<inter> insert v B \<times> insert v B)\<^sup>+"
  let ?R = "r \<inter> insert v B \<times> insert v B"
  have into_B: "(a, b) \<in> ?R\<^sup>+ \<Longrightarrow> b \<in> B" for a b
  proof (induction rule: trancl_induct)
    case (base y)
    then show ?case using closed sv by auto
  next
    case (step y z)
    then show ?case using closed by auto
  qed
  have stay: "(a, b) \<in> ?R\<^sup>+ \<Longrightarrow> a \<in> B \<Longrightarrow> (a, b) \<in> (r \<inter> B \<times> B)\<^sup>+" for a b
  proof (induction rule: trancl_induct)
    case (base y)
    then show ?case using closed by auto
  next
    case (step y z)
    then have "y \<in> B" using into_B by blast
    with step have "(y, z) \<in> r \<inter> B \<times> B" using closed by auto
    with step show ?case by (meson trancl.trancl_into_trancl)
  qed
  from cyc have "x \<in> B" by (rule into_B)
  with cyc have "(x, x) \<in> (r \<inter> B \<times> B)\<^sup>+" by (rule stay)
  with ac show False by (simp add: acyclic_def)
qed

text \<open>In a finite acyclic relation every nonempty set has an element with no predecessor in it.\<close>

lemma acyclic_minimal:
  assumes "finite r" "acyclic r" "x \<in> Q"
  obtains z where "z \<in> Q" "\<And>y. (y, z) \<in> r \<Longrightarrow> y \<notin> Q"
proof -
  from assms(1,2) have "wf r" by (rule finite_acyclic_wf)
  with assms(3) that show ?thesis by (metis wfE_min)
qed

text \<open>Renaming the nodes of a relation injectively renames its paths.\<close>

lemma trancl_rename_forward: "(x, y) \<in> r\<^sup>+ \<Longrightarrow> (f x, f y) \<in> (map_prod f f ` r)\<^sup>+"
proof (induction rule: trancl_induct)
  case (base y)
  then show ?case by (intro r_into_trancl) force
next
  case (step y z)
  then have "(f y, f z) \<in> map_prod f f ` r" by force
  with step.IH show ?case by (rule trancl_into_trancl)
qed

lemma trancl_rename_backward:
  assumes "(f x, w) \<in> (map_prod f f ` r)\<^sup>+" "inj_on f A" "r \<subseteq> A \<times> A" "x \<in> A"
  shows "\<exists>y \<in> A. w = f y \<and> (x, y) \<in> r\<^sup>+"
  using assms(1)
proof (induction rule: trancl_induct)
  case (base w)
  then obtain a b where "(a, b) \<in> r" "f x = f a" "w = f b" by auto
  moreover have "a = x" using calculation assms(2-4) by (auto dest: inj_onD)
  ultimately show ?case using assms(3) by auto
next
  case (step w z)
  then obtain y where y: "y \<in> A" "w = f y" "(x, y) \<in> r\<^sup>+" by blast
  from step(2) obtain a b where "(a, b) \<in> r" "w = f a" "z = f b" by auto
  moreover have "a = y" using calculation y assms(2,3) by (auto dest: inj_onD)
  ultimately show ?case using assms(3) y by (auto intro: trancl_into_trancl)
qed

lemma trancl_rename:
  assumes "inj_on f A" "r \<subseteq> A \<times> A" "x \<in> A" "y \<in> A"
  shows "(f x, f y) \<in> (map_prod f f ` r)\<^sup>+ \<longleftrightarrow> (x, y) \<in> r\<^sup>+"
  using trancl_rename_backward [OF _ assms(1-3)] trancl_rename_forward [of x y r f] assms(1,4)
  by (metis inj_onD)

lemma acyclic_rename:
  assumes "inj_on f A" "r \<subseteq> A \<times> A"
  shows "acyclic (map_prod f f ` r) \<longleftrightarrow> acyclic r"
proof
  assume "acyclic (map_prod f f ` r)"
  then show "acyclic r" using trancl_rename_forward [of _ _ r f] unfolding acyclic_def by blast
next
  assume ac: "acyclic r"
  show "acyclic (map_prod f f ` r)"
    unfolding acyclic_def
  proof (intro allI notI)
    fix w
    assume cyc: "(w, w) \<in> (map_prod f f ` r)\<^sup>+"
    then obtain z where "(w, z) \<in> map_prod f f ` r" by (meson tranclD)
    then obtain x where x: "x \<in> A" "w = f x" using assms(2) by auto
    from trancl_rename_backward [OF cyc [unfolded x(2)] assms x(1)]
    obtain y where "y \<in> A" "f x = f y" "(x, y) \<in> r\<^sup>+" by blast
    with x(1) assms(1) ac show False by (auto simp: acyclic_def dest: inj_onD)
  qed
qed

end
