(* ===== verification/Util.thy ===== *)
theory Util
  imports FF_Prelude
begin

text \<open>
  The string and time helpers of \<^verbatim>\<open>src/src/core/util\<close>: trimming, splitting and joining,
  prefix and suffix tests, ASCII lower-casing, and the conversions between clock ticks and
  Unix milliseconds. The lemmas state what the rest of the program relies on: splitting and
  joining are inverse, trimming removes exactly the outer white space, and millisecond
  values survive the conversion to a time point and back.
\<close>

section \<open>string_utils.cpp\<close>

definition is_space :: "char \<Rightarrow> bool" where
  "is_space c \<longleftrightarrow> of_char c \<in> {9, 10, 11, 12, 13, 32 :: nat}"

definition trim :: "string \<Rightarrow> string" where
  "trim text = rev (dropWhile is_space (rev (dropWhile is_space text)))"

text \<open>\<^verbatim>\<open>std::string_view::find(char, start)\<close>: the first position at or after \<open>start\<close>.\<close>

fun find_char :: "char \<Rightarrow> string \<Rightarrow> nat option" where
  "find_char d [] = None"
| "find_char d (c # cs) = (if c = d then Some 0 else map_option Suc (find_char d cs))"

lemma find_char_Some:
  "find_char d s = Some p \<longleftrightarrow>
     p < length s \<and> s = take p s @ d # drop (Suc p) s \<and> d \<notin> set (take p s)"
proof (induction s arbitrary: p)
  case Nil
  then show ?case by simp
next
  case (Cons c cs)
  show ?case
  proof (cases p)
    case 0
    then show ?thesis by auto
  next
    case (Suc q)
    then show ?thesis using Cons.IH [of q] by auto
  qed
qed

lemma find_char_None: "find_char d s = None \<longleftrightarrow> d \<notin> set s"
  by (induction s) auto

lemma find_char_append: "d \<notin> set a \<Longrightarrow> find_char d (a @ d # b) = Some (length a)"
  by (induction a) auto

function split :: "string \<Rightarrow> char \<Rightarrow> string list" where
  "split text d =
     (case find_char d text of
        None \<Rightarrow> [text]
      | Some pos \<Rightarrow> take pos text # split (drop (Suc pos) text) d)"
  by pat_completeness auto
termination
  by (relation "measure (\<lambda>(text, d). length text)") (auto simp: find_char_Some)

declare split.simps [simp del]

fun join_from :: "string \<Rightarrow> string list \<Rightarrow> string \<Rightarrow> nat \<Rightarrow> string" where
  "join_from out [] sep i = out"
| "join_from out (p # ps) sep i =
     join_from ((if i \<noteq> 0 then out @ sep else out) @ p) ps sep (Suc i)"

definition join :: "string list \<Rightarrow> string \<Rightarrow> string" where
  "join parts sep = join_from [] parts sep 0"

definition starts_with :: "string \<Rightarrow> string \<Rightarrow> bool" where
  "starts_with text prefix \<longleftrightarrow>
     length prefix \<le> length text \<and> take (length prefix) text = prefix"

definition ends_with :: "string \<Rightarrow> string \<Rightarrow> bool" where
  "ends_with text suffix \<longleftrightarrow>
     length suffix \<le> length text \<and> drop (length text - length suffix) text = suffix"

definition to_lower_char :: "char \<Rightarrow> char" where
  "to_lower_char c = (let n = of_char c :: nat in if 65 \<le> n \<and> n \<le> 90 then char_of (n + 32) else c)"

definition to_lower :: "string \<Rightarrow> string" where
  "to_lower text = map to_lower_char text"

subsection \<open>Splitting and joining\<close>

lemma join_from_Suc: "0 < i \<Longrightarrow> join_from out ps sep i = out @ concat (map (\<lambda>p. sep @ p) ps)"
  by (induction ps arbitrary: out i) auto

lemma join_Nil [simp]: "join [] sep = []"
  by (simp add: join_def)

lemma join_Cons: "join (p # ps) sep = p @ concat (map (\<lambda>q. sep @ q) ps)"
  by (simp add: join_def join_from_Suc)

lemma join_Cons_Cons: "join (p # q # ps) sep = p @ sep @ join (q # ps) sep"
  by (simp add: join_Cons)

lemma split_nonempty [simp]: "split text d \<noteq> []"
  by (subst split.simps) (simp split: option.splits)

lemma split_no_delim: "d \<notin> set text \<Longrightarrow> split text d = [text]"
  by (subst split.simps) (simp add: find_char_None [symmetric])

lemma split_delim: "d \<notin> set a \<Longrightarrow> split (a @ d # b) d = a # split b d"
  by (subst split.simps) (simp add: find_char_append)

lemma join_split: "join (split s d) [d] = s"
proof (induction s d rule: split.induct)
  case (1 s d)
  show ?case
  proof (cases "find_char d s")
    case None
    then show ?thesis by (subst split.simps) (simp add: join_Cons)
  next
    case (Some pos)
    let ?rest = "drop (Suc pos) s"
    obtain q ps where q: "split ?rest d = q # ps" by (cases "split ?rest d") auto
    have IH: "join (split ?rest d) [d] = ?rest" using "1.IH" Some by blast
    have s: "s = take pos s @ d # ?rest" using Some find_char_Some by blast
    have "join (split s d) [d] = take pos s @ [d] @ join (split ?rest d) [d]"
      using Some q by (subst split.simps) (simp add: join_Cons_Cons)
    also have "\<dots> = s" using IH s by simp
    finally show ?thesis .
  qed
qed

lemma split_join:
  "parts \<noteq> [] \<Longrightarrow> (\<And>p. p \<in> set parts \<Longrightarrow> d \<notin> set p) \<Longrightarrow> split (join parts [d]) d = parts"
proof (induction parts)
  case Nil
  then show ?case by simp
next
  case (Cons p ps)
  show ?case
  proof (cases ps)
    case Nil
    with Cons.prems show ?thesis by (simp add: join_Cons split_no_delim)
  next
    case (Cons q qs)
    with Cons.prems Cons.IH show ?thesis by (simp add: join_Cons_Cons split_delim)
  qed
qed

lemma split_parts_no_delim: "p \<in> set (split s d) \<Longrightarrow> d \<notin> set p"
proof (induction s d rule: split.induct)
  case (1 s d)
  show ?case
  proof (cases "find_char d s")
    case None
    with "1.prems" have "p = s" by (subst (asm) split.simps) simp
    with None show ?thesis by (simp add: find_char_None)
  next
    case (Some pos)
    with "1.prems" consider "p = take pos s" | "p \<in> set (split (drop (Suc pos) s) d)"
      by (subst (asm) split.simps) auto
    then show ?thesis
    proof cases
      case 1
      with Some show ?thesis by (simp add: find_char_Some)
    next
      case 2
      with "1.IH" Some show ?thesis by blast
    qed
  qed
qed

subsection \<open>Trimming\<close>

lemma trim_decompose:
  obtains l r where "text = l @ trim text @ r" "\<forall>c \<in> set l. is_space c" "\<forall>c \<in> set r. is_space c"
proof
  let ?m = "dropWhile is_space text"
  have m: "?m = trim text @ rev (takeWhile is_space (rev ?m))"
    by (metis rev_append rev_rev_ident takeWhile_dropWhile_id trim_def)
  show "text = takeWhile is_space text @ trim text @ rev (takeWhile is_space (rev ?m))"
    using m by (metis takeWhile_dropWhile_id)
  show "\<forall>c \<in> set (takeWhile is_space text). is_space c" by (meson set_takeWhileD)
  show "\<forall>c \<in> set (rev (takeWhile is_space (rev ?m))). is_space c" by (metis set_rev set_takeWhileD)
qed

lemma trim_last_not_space: "trim text \<noteq> [] \<Longrightarrow> \<not> is_space (last (trim text))"
  by (metis hd_dropWhile last_rev rev_is_Nil_conv trim_def)

lemma trim_hd_not_space:
  assumes "trim text \<noteq> []"
  shows "\<not> is_space (hd (trim text))"
proof -
  let ?m = "dropWhile is_space text"
  have m: "?m = trim text @ rev (takeWhile is_space (rev ?m))"
    by (metis rev_append rev_rev_ident takeWhile_dropWhile_id trim_def)
  with assms have "hd (trim text) = hd ?m" "?m \<noteq> []" by (metis hd_append2, metis append_is_Nil_conv)
  then show ?thesis by (metis hd_dropWhile)
qed

section \<open>time_utils.cpp\<close>

text \<open>
  Clock ticks are nanoseconds (\<^verbatim>\<open>system_clock\<close> of libstdc++); \<^verbatim>\<open>duration_cast\<close>
  truncates towards zero.
\<close>

definition ticks_per_ms :: int where
  "ticks_per_ms = 1000000"

definition trunc_div :: "int \<Rightarrow> int \<Rightarrow> int" where
  "trunc_div x y = sgn x * sgn y * (\<bar>x\<bar> div \<bar>y\<bar>)"

definition to_unix_millis :: "TimePoint \<Rightarrow> int" where
  "to_unix_millis tp = trunc_div tp ticks_per_ms"

definition from_unix_millis :: "int \<Rightarrow> TimePoint" where
  "from_unix_millis millis = millis * ticks_per_ms"

text \<open>\<^verbatim>\<open>double\<close> seconds are rationals: every finite double is one.\<close>

definition seconds_between :: "TimePoint \<Rightarrow> TimePoint \<Rightarrow> rat" where
  "seconds_between start end = (if end \<le> start then 0 else of_int (end - start) / 1000000000)"

lemma to_from_unix_millis: "to_unix_millis (from_unix_millis m) = m"
proof -
  have "\<bar>m * ticks_per_ms\<bar> div \<bar>ticks_per_ms\<bar> = \<bar>m\<bar>"
    by (simp add: ticks_per_ms_def abs_mult)
  then show ?thesis
    by (simp add: to_unix_millis_def from_unix_millis_def trunc_div_def sgn_mult ticks_per_ms_def
        mult_sgn_abs)
qed

lemma seconds_between_nonneg: "0 \<le> seconds_between s e"
  by (simp add: seconds_between_def)

end
