(* ===== verification/Domain.thy ===== *)
theory Domain
  imports Util
begin

text \<open>
  The domain types of \<^verbatim>\<open>src/include/flowforge/domain\<close> and \<^verbatim>\<open>src/src/core/domain\<close>:
  the enums with their textual names and the legal task-state transitions, the retry policy,
  resource requirements, task and pipeline definitions, and the runtime records of a run
  (attempts, task runs, tallies).
\<close>

section \<open>enums\<close>

datatype TaskType = ttPython | ttExecutable

datatype TaskState =
  tsPending | tsReady | tsRunning | tsSucceeded | tsFailed | tsSkipped | tsCancelled | tsCached

datatype PipelineState =
  psCreated | psRunning | psSucceeded | psFailed | psCancelled | psInterrupted

definition kTaskStateNames :: "(TaskState \<times> string) list" where
  "kTaskStateNames =
     [(tsPending, ''PENDING''), (tsReady, ''READY''), (tsRunning, ''RUNNING''),
      (tsSucceeded, ''SUCCEEDED''), (tsFailed, ''FAILED''), (tsSkipped, ''SKIPPED''),
      (tsCancelled, ''CANCELLED''), (tsCached, ''CACHED'')]"

definition kPipelineStateNames :: "(PipelineState \<times> string) list" where
  "kPipelineStateNames =
     [(psCreated, ''CREATED''), (psRunning, ''RUNNING''), (psSucceeded, ''SUCCEEDED''),
      (psFailed, ''FAILED''), (psCancelled, ''CANCELLED''), (psInterrupted, ''INTERRUPTED'')]"

fun to_string_TaskType :: "TaskType \<Rightarrow> string" where
  "to_string_TaskType ttPython = ''python''"
| "to_string_TaskType ttExecutable = ''executable''"

definition parse_task_type :: "string \<Rightarrow> TaskType option" where
  "parse_task_type t =
     (if t = ''python'' \<or> t = ''PYTHON'' then Some ttPython
      else if t = ''executable'' \<or> t = ''EXECUTABLE'' \<or> t = ''exec'' then Some ttExecutable
      else None)"

text \<open>The two table lookups: by value for printing, by name for parsing.\<close>

fun name_of_value :: "('a \<times> string) list \<Rightarrow> string \<Rightarrow> 'a \<Rightarrow> string" where
  "name_of_value [] dflt v = dflt"
| "name_of_value ((w, n) # es) dflt v = (if w = v then n else name_of_value es dflt v)"

fun value_of_name :: "('a \<times> string) list \<Rightarrow> string \<Rightarrow> 'a option" where
  "value_of_name [] t = None"
| "value_of_name ((w, n) # es) t = (if n = t then Some w else value_of_name es t)"

definition to_string_TaskState :: "TaskState \<Rightarrow> string" where
  "to_string_TaskState s = name_of_value kTaskStateNames ''PENDING'' s"

definition parse_task_state :: "string \<Rightarrow> TaskState option" where
  "parse_task_state t = value_of_name kTaskStateNames t"

fun is_terminal_task :: "TaskState \<Rightarrow> bool" where
  "is_terminal_task tsSucceeded = True"
| "is_terminal_task tsFailed = True"
| "is_terminal_task tsSkipped = True"
| "is_terminal_task tsCancelled = True"
| "is_terminal_task tsCached = True"
| "is_terminal_task tsPending = False"
| "is_terminal_task tsReady = False"
| "is_terminal_task tsRunning = False"

definition is_success_like :: "TaskState \<Rightarrow> bool" where
  "is_success_like s \<longleftrightarrow> s = tsSucceeded \<or> s = tsCached"

definition is_valid_transition :: "TaskState \<Rightarrow> TaskState \<Rightarrow> bool" where
  "is_valid_transition from to =
     (if from = to then False
      else case from of
        tsPending \<Rightarrow> to = tsReady \<or> to = tsSkipped \<or> to = tsCancelled
      | tsReady \<Rightarrow> to = tsRunning \<or> to = tsCached \<or> to = tsSkipped \<or> to = tsCancelled
      | tsRunning \<Rightarrow> to = tsSucceeded \<or> to = tsFailed \<or> to = tsCancelled \<or> to = tsReady
      | _ \<Rightarrow> False)"

definition to_string_PipelineState :: "PipelineState \<Rightarrow> string" where
  "to_string_PipelineState s = name_of_value kPipelineStateNames ''CREATED'' s"

definition parse_pipeline_state :: "string \<Rightarrow> PipelineState option" where
  "parse_pipeline_state t = value_of_name kPipelineStateNames t"

fun is_terminal_pipeline :: "PipelineState \<Rightarrow> bool" where
  "is_terminal_pipeline psSucceeded = True"
| "is_terminal_pipeline psFailed = True"
| "is_terminal_pipeline psCancelled = True"
| "is_terminal_pipeline psInterrupted = True"
| "is_terminal_pipeline psCreated = False"
| "is_terminal_pipeline psRunning = False"

lemma parse_task_state_iff: "parse_task_state t = Some s \<longleftrightarrow> t = to_string_TaskState s"
  by (cases s) (auto simp: parse_task_state_def to_string_TaskState_def kTaskStateNames_def)

lemma parse_pipeline_state_iff: "parse_pipeline_state t = Some s \<longleftrightarrow> t = to_string_PipelineState s"
  by (cases s) (auto simp: parse_pipeline_state_def to_string_PipelineState_def kPipelineStateNames_def)

lemma parse_task_type_to_string: "parse_task_type (to_string_TaskType t) = Some t"
  by (cases t) (simp_all add: parse_task_type_def)

lemma terminal_no_exit: "is_terminal_task s \<longleftrightarrow> (\<forall>t. \<not> is_valid_transition s t)"
proof (cases s)
  case tsPending
  then have "is_valid_transition s tsReady" by (simp add: is_valid_transition_def)
  with tsPending show ?thesis by auto
next
  case tsReady
  then have "is_valid_transition s tsRunning" by (simp add: is_valid_transition_def)
  with tsReady show ?thesis by auto
next
  case tsRunning
  then have "is_valid_transition s tsFailed" by (simp add: is_valid_transition_def)
  with tsRunning show ?thesis by auto
qed (auto simp: is_valid_transition_def)

lemma success_like_terminal: "is_success_like s \<Longrightarrow> is_terminal_task s"
  by (auto simp: is_success_like_def)

section \<open>retry_policy\<close>

record RetryPolicy =
  max_retries :: int
  base_delay :: Millis
  backoff_multiplier :: rat
  max_delay :: Millis

text \<open>\<^verbatim>\<open>RetryPolicy{}\<close>: the defaults of the header (five minutes are 300000 ms).\<close>

definition RetryPolicy_none :: RetryPolicy where
  "RetryPolicy_none =
     \<lparr>max_retries = 0, base_delay = 0, backoff_multiplier = 1, max_delay = 300000\<rparr>"

definition max_attempts :: "RetryPolicy \<Rightarrow> int" where
  "max_attempts p = (if max_retries p < 0 then 1 else max_retries p + 1)"

definition should_retry :: "RetryPolicy \<Rightarrow> int \<Rightarrow> bool" where
  "should_retry p attempts_made \<longleftrightarrow> 1 \<le> attempts_made \<and> attempts_made < max_attempts p"

text \<open>\<^verbatim>\<open>std::round\<close> rounds halves away from zero; the cast to an integer truncates.\<close>

definition cpp_round :: "rat \<Rightarrow> int" where
  "cpp_round x = (if 0 \<le> x then \<lfloor>x + 1 / 2\<rfloor> else \<lceil>x - 1 / 2\<rceil>)"

definition cpp_trunc :: "rat \<Rightarrow> int" where
  "cpp_trunc x = (if 0 \<le> x then \<lfloor>x\<rfloor> else \<lceil>x\<rceil>)"

definition backoff_factor :: "RetryPolicy \<Rightarrow> int \<Rightarrow> rat" where
  "backoff_factor p exponent =
     (if 0 < backoff_multiplier p \<and> 0 < exponent then backoff_multiplier p ^ nat exponent else 1)"

definition delay_before :: "RetryPolicy \<Rightarrow> int \<Rightarrow> Millis" where
  "delay_before p next_attempt =
     (if next_attempt \<le> 1 \<or> base_delay p \<le> 0 then 0
      else let factor = backoff_factor p (next_attempt - 2);
               millis = of_int (cpp_round (of_int (base_delay p) * max 1 factor));
               capped = min (of_int (max_delay p)) (max 0 millis)
           in cpp_trunc capped)"

lemma cpp_trunc_of_int [simp]: "cpp_trunc (of_int k) = k"
  by (simp add: cpp_trunc_def)

lemma cpp_round_of_int [simp]: "cpp_round (of_int k) = k"
proof (cases "0 \<le> k")
  case True
  then have "(0::rat) \<le> of_int k" by simp
  then show ?thesis by (simp add: cpp_round_def floor_eq_iff)
next
  case False
  then have "\<not> (0::rat) \<le> of_int k" by simp
  then show ?thesis by (simp add: cpp_round_def ceiling_eq_iff)
qed

lemma cpp_round_mono:
  assumes "0 \<le> x" "x \<le> y"
  shows "cpp_round x \<le> cpp_round y"
proof -
  from assms have "\<lfloor>x + 1 / 2\<rfloor> \<le> \<lfloor>y + 1 / 2\<rfloor>" by (intro floor_mono) simp
  with assms show ?thesis by (simp add: cpp_round_def)
qed

lemma cpp_round_nonneg: "0 \<le> x \<Longrightarrow> 0 \<le> cpp_round x"
  by (simp add: cpp_round_def)

text \<open>The delay, with the two casts resolved: an integer minimum.\<close>

lemma delay_before_eq:
  "1 < next_attempt \<Longrightarrow> 0 < base_delay p \<Longrightarrow>
   delay_before p next_attempt =
     min (max_delay p) (cpp_round (of_int (base_delay p) * max 1 (backoff_factor p (next_attempt - 2))))"
proof -
  assume n: "1 < next_attempt" and b: "0 < base_delay p"
  let ?x = "of_int (base_delay p) * max 1 (backoff_factor p (next_attempt - 2))"
  have nn: "0 \<le> cpp_round ?x" using b by (intro cpp_round_nonneg) simp
  then have "max (0::rat) (of_int (cpp_round ?x)) = of_int (cpp_round ?x)" by simp
  then have "min (of_int (max_delay p)) (max 0 (of_int (cpp_round ?x)))
      = (of_int (min (max_delay p) (cpp_round ?x)) :: rat)"
    by (simp add: of_int_min)
  with n b show ?thesis by (simp add: delay_before_def Let_def)
qed

lemma backoff_factor_mono:
  assumes "a \<le> b"
  shows "max 1 (backoff_factor p a) \<le> max 1 (backoff_factor p b)"
proof (cases "1 \<le> backoff_multiplier p")
  case True
  show ?thesis
  proof (cases "0 < a")
    case True
    with assms have "nat a \<le> nat b" by simp
    with \<open>1 \<le> backoff_multiplier p\<close>
    have "backoff_multiplier p ^ nat a \<le> backoff_multiplier p ^ nat b"
      by (rule power_increasing [rotated])
    with True assms show ?thesis by (auto simp: backoff_factor_def max_def)
  next
    case False
    then show ?thesis by (simp add: backoff_factor_def)
  qed
next
  case False
  have le1: "backoff_factor p k \<le> 1" for k
  proof (cases "0 < backoff_multiplier p \<and> 0 < k")
    case True
    with False have "backoff_multiplier p ^ nat k \<le> 1" by (intro power_le_one) auto
    with True show ?thesis by (simp add: backoff_factor_def)
  next
    case False
    then show ?thesis by (auto simp: backoff_factor_def)
  qed
  show ?thesis using le1 [of a] le1 [of b] by simp
qed

lemma delay_before_range: "0 \<le> max_delay p \<Longrightarrow> 0 \<le> delay_before p n \<and> delay_before p n \<le> max_delay p"
proof (cases "n \<le> 1 \<or> base_delay p \<le> 0")
  case False
  assume "0 \<le> max_delay p"
  moreover have "0 \<le> cpp_round (of_int (base_delay p) * max 1 (backoff_factor p (n - 2)))"
    using False by (intro cpp_round_nonneg) simp
  ultimately show ?thesis using delay_before_eq [of n p] False by simp
qed (simp add: delay_before_def)

section \<open>resource_requirements, artifact_decl, task_definition, pipeline_definition\<close>

record ResourceRequirements =
  cpu_cores :: int
  memory_mb :: int
  gpu_count :: int

definition single_core :: ResourceRequirements where
  "single_core = \<lparr>cpu_cores = 1, memory_mb = 0, gpu_count = 0\<rparr>"

record ResourceCapacity =   \<comment> \<open>\<^verbatim>\<open>domain::ResourcePool\<close>\<close>
  total_cpu_cores :: int
  total_memory_mb :: int
  total_gpu_count :: int

definition fits_within :: "ResourceRequirements \<Rightarrow> ResourceCapacity \<Rightarrow> bool" where
  "fits_within req pool \<longleftrightarrow>
     cpu_cores req \<le> total_cpu_cores pool \<and> memory_mb req \<le> total_memory_mb pool \<and>
     gpu_count req \<le> total_gpu_count pool"

definition describe :: "ResourceRequirements \<Rightarrow> string" where
  "describe req =
     ''cpu='' @ to_string_int (cpu_cores req) @
     '', mem='' @ to_string_int (memory_mb req) @ ''MB'' @
     '', gpu='' @ to_string_int (gpu_count req)"

record ArtifactDecl =
  decl_name :: string
  decl_path :: string
  decl_checksum :: bool

record ResolvedCommand =
  cmd_program :: string
  cmd_argv :: "string list"

record TaskDefinition =
  td_id :: TaskId
  td_name :: string
  td_type :: TaskType
  td_program :: string
  td_script :: string
  td_arguments :: "string list"
  td_environment :: "EnvVar list"
  td_working_directory :: string
  td_inputs :: "ArtifactDecl list"
  td_outputs :: "ArtifactDecl list"
  td_retry :: RetryPolicy
  td_resources :: ResourceRequirements
  td_timeout :: "Millis option"
  td_priority :: int
  td_cache_enabled :: bool

definition resolve_command :: "TaskDefinition \<Rightarrow> ResolvedCommand" where
  "resolve_command t =
     \<lparr>cmd_program = td_program t,
      cmd_argv = [td_program t]
        @ (if td_type t = ttPython \<and> td_script t \<noteq> [] then [td_script t] else [])
        @ td_arguments t\<rparr>"

record Edge =
  edge_from :: TaskId
  edge_to :: TaskId

record PipelineDefinition =
  pd_schema_version :: int
  pd_name :: string
  pd_description :: string
  pd_base_directory :: string
  pd_tasks :: "TaskDefinition list"
  pd_edges :: "Edge list"
  pd_max_concurrency :: int

definition find_task :: "PipelineDefinition \<Rightarrow> TaskId \<Rightarrow> TaskDefinition option" where
  "find_task p i = List.find (\<lambda>t. td_id t = i) (pd_tasks p)"

definition has_task :: "PipelineDefinition \<Rightarrow> TaskId \<Rightarrow> bool" where
  "has_task p i \<longleftrightarrow> find_task p i \<noteq> None"

lemma find_task_Some_id: "find_task p i = Some t \<Longrightarrow> td_id t = i \<and> t \<in> set (pd_tasks p)"
  by (auto simp: find_task_def find_Some_iff)

lemma has_task_iff: "has_task p i \<longleftrightarrow> i \<in> td_id ` set (pd_tasks p)"
  by (auto simp: has_task_def find_task_def find_None_iff)

text \<open>The argument vector always starts with the program, which the process layer relies on.\<close>

lemma resolve_command_argv0: "cmd_argv (resolve_command t) \<noteq> [] \<and>
    hd (cmd_argv (resolve_command t)) = cmd_program (resolve_command t)"
  by (simp add: resolve_command_def)

section \<open>run_state\<close>

datatype ResultKind =
  rkSucceeded | rkFailedExit | rkTimeout | rkCrashed | rkStartFailure | rkMissingOutput
  | rkMissingInput | rkCancelled

fun to_string_ResultKind :: "ResultKind \<Rightarrow> string" where
  "to_string_ResultKind rkSucceeded = ''succeeded''"
| "to_string_ResultKind rkFailedExit = ''failed_exit''"
| "to_string_ResultKind rkTimeout = ''timeout''"
| "to_string_ResultKind rkCrashed = ''crashed''"
| "to_string_ResultKind rkStartFailure = ''start_failure''"
| "to_string_ResultKind rkMissingOutput = ''missing_output''"
| "to_string_ResultKind rkMissingInput = ''missing_input''"
| "to_string_ResultKind rkCancelled = ''cancelled''"

fun is_retryable :: "ResultKind \<Rightarrow> bool" where
  "is_retryable rkFailedExit = True"
| "is_retryable rkTimeout = True"
| "is_retryable rkCrashed = True"
| "is_retryable rkMissingOutput = True"
| "is_retryable rkSucceeded = False"
| "is_retryable rkStartFailure = False"
| "is_retryable rkMissingInput = False"
| "is_retryable rkCancelled = False"

record TaskResult =
  res_kind :: ResultKind
  res_exit_code :: "int option"
  res_term_signal :: "int option"
  res_message :: string
  res_detail :: string

definition TaskResult_success :: TaskResult where
  "TaskResult_success =
     \<lparr>res_kind = rkSucceeded, res_exit_code = None, res_term_signal = None,
      res_message = [], res_detail = []\<rparr>"

definition res_ok :: "TaskResult \<Rightarrow> bool" where
  "res_ok r \<longleftrightarrow> res_kind r = rkSucceeded"

definition res_retryable :: "TaskResult \<Rightarrow> bool" where
  "res_retryable r \<longleftrightarrow> is_retryable (res_kind r)"

record TaskAttempt =
  att_number :: int
  att_final_state :: TaskState
  att_pid :: "int option"
  att_started_at :: "TimePoint option"
  att_finished_at :: "TimePoint option"
  att_result :: TaskResult

record TaskRun =
  tr_task_id :: TaskId
  tr_state :: TaskState
  tr_ready_at :: "TimePoint option"
  tr_started_at :: "TimePoint option"
  tr_finished_at :: "TimePoint option"
  tr_attempts :: "TaskAttempt list"

definition duration_seconds :: "TimePoint option \<Rightarrow> TimePoint option \<Rightarrow> rat" where
  "duration_seconds started finished =
     (case (started, finished) of
        (Some s, Some f) \<Rightarrow> seconds_between s f
      | _ \<Rightarrow> 0)"

record RunCounts =
  c_total :: nat
  c_pending :: nat
  c_ready :: nat
  c_running :: nat
  c_succeeded :: nat
  c_failed :: nat
  c_skipped :: nat
  c_cancelled :: nat
  c_cached :: nat

definition RunCounts_zero :: RunCounts where
  "RunCounts_zero =
     \<lparr>c_total = 0, c_pending = 0, c_ready = 0, c_running = 0, c_succeeded = 0, c_failed = 0,
      c_skipped = 0, c_cancelled = 0, c_cached = 0\<rparr>"

definition RunCounts_add :: "RunCounts \<Rightarrow> TaskState \<Rightarrow> RunCounts" where
  "RunCounts_add c s =
     (let c = c\<lparr>c_total := Suc (c_total c)\<rparr> in
      case s of
        tsPending \<Rightarrow> c\<lparr>c_pending := Suc (c_pending c)\<rparr>
      | tsReady \<Rightarrow> c\<lparr>c_ready := Suc (c_ready c)\<rparr>
      | tsRunning \<Rightarrow> c\<lparr>c_running := Suc (c_running c)\<rparr>
      | tsSucceeded \<Rightarrow> c\<lparr>c_succeeded := Suc (c_succeeded c)\<rparr>
      | tsFailed \<Rightarrow> c\<lparr>c_failed := Suc (c_failed c)\<rparr>
      | tsSkipped \<Rightarrow> c\<lparr>c_skipped := Suc (c_skipped c)\<rparr>
      | tsCancelled \<Rightarrow> c\<lparr>c_cancelled := Suc (c_cancelled c)\<rparr>
      | tsCached \<Rightarrow> c\<lparr>c_cached := Suc (c_cached c)\<rparr>)"

definition c_finished :: "RunCounts \<Rightarrow> nat" where
  "c_finished c = c_succeeded c + c_failed c + c_skipped c + c_cancelled c + c_cached c"

record PipelineRun =
  run_id :: RunId
  run_pipeline_id :: int
  run_pipeline_name :: string
  run_state :: PipelineState
  run_created_at :: TimePoint
  run_started_at :: "TimePoint option"
  run_finished_at :: "TimePoint option"
  run_max_concurrency :: int
  run_task_runs :: "(TaskId \<times> TaskRun) list"   \<comment> \<open>\<^verbatim>\<open>std::map\<close>: one pair per key, in key order\<close>

definition run_counts :: "PipelineRun \<Rightarrow> RunCounts" where
  "run_counts r = foldl (\<lambda>c entry. RunCounts_add c (tr_state (snd entry))) RunCounts_zero (run_task_runs r)"

definition run_task :: "PipelineRun \<Rightarrow> TaskId \<Rightarrow> TaskRun option" where
  "run_task r i = map_of (run_task_runs r) i"

text \<open>\<^verbatim>\<open>std::map::emplace\<close>: insert in key order unless the key is present.\<close>

fun map_emplace :: "'k::linorder \<Rightarrow> 'v \<Rightarrow> ('k \<times> 'v) list \<Rightarrow> ('k \<times> 'v) list" where
  "map_emplace k v [] = [(k, v)]"
| "map_emplace k v ((k', v') # kvs) =
     (if k < k' then (k, v) # (k', v') # kvs
      else if k = k' then (k', v') # kvs
      else (k', v') # map_emplace k v kvs)"

text \<open>Writing through the reference \<^verbatim>\<open>at(key)\<close> returns.\<close>

fun map_modify :: "'k \<Rightarrow> ('v \<Rightarrow> 'v) \<Rightarrow> ('k \<times> 'v) list \<Rightarrow> ('k \<times> 'v) list" where
  "map_modify k f [] = []"
| "map_modify k f ((k', v) # kvs) = (if k = k' then (k', f v) # kvs else (k', v) # map_modify k f kvs)"

lemma keys_map_modify [simp]: "map fst (map_modify k f kvs) = map fst kvs"
  by (induction kvs) auto

lemma map_of_map_modify: "map_of (map_modify k f kvs) = (map_of kvs)(k := map_option f (map_of kvs k))"
  by (induction kvs) (auto simp: fun_eq_iff)

lemma map_of_map_emplace:
  "sorted (map fst kvs) \<Longrightarrow>
   map_of (map_emplace k v kvs) = (if map_of kvs k = None then (map_of kvs)(k \<mapsto> v) else map_of kvs)"
proof (induction kvs)
  case (Cons kv kvs)
  obtain k' v' where kv: "kv = (k', v')" by (cases kv)
  have "k < k' \<Longrightarrow> map_of kvs k = None"
  proof -
    assume "k < k'"
    with Cons.prems kv have "k \<notin> set (map fst kvs)" by auto
    then show "map_of kvs k = None" by (simp add: map_of_eq_None_iff)
  qed
  with Cons kv show ?case by (auto simp: fun_eq_iff)
qed auto

lemma set_keys_map_emplace: "set (map fst (map_emplace k v kvs)) = insert k (set (map fst kvs))"
  by (induction k v kvs rule: map_emplace.induct) auto

lemma sorted_map_emplace: "sorted (map fst kvs) \<Longrightarrow> sorted (map fst (map_emplace k v kvs))"
proof (induction kvs)
  case (Cons kv kvs)
  obtain k' v' where kv: "kv = (k', v')" by (cases kv)
  show ?case
  proof (cases "k' < k")
    case True
    have "\<forall>x \<in> set (map fst (map_emplace k v kvs)). k' \<le> x"
      using Cons.prems kv True by (subst set_keys_map_emplace) auto
    with Cons kv True show ?thesis by auto
  next
    case False
    with Cons.prems kv show ?thesis by (auto simp: not_less less_imp_le intro: order_trans)
  qed
qed auto

lemma distinct_map_emplace:
  "sorted (map fst kvs) \<Longrightarrow> distinct (map fst kvs) \<Longrightarrow> distinct (map fst (map_emplace k v kvs))"
proof (induction kvs)
  case (Cons kv kvs)
  obtain k' v' where kv: "kv = (k', v')" by (cases kv)
  have notin: "k' \<noteq> k \<Longrightarrow> k' \<notin> set (map fst (map_emplace k v kvs))"
    using Cons.prems kv by (subst set_keys_map_emplace) auto
  have "k < k' \<Longrightarrow> k \<notin> insert k' (set (map fst kvs))" using Cons.prems kv by auto
  with notin Cons kv show ?case by auto
qed auto

subsection \<open>Tallies\<close>

text \<open>Each counter of the tally is the number of task runs in that state.\<close>

fun count_of :: "RunCounts \<Rightarrow> TaskState \<Rightarrow> nat" where
  "count_of c tsPending = c_pending c"
| "count_of c tsReady = c_ready c"
| "count_of c tsRunning = c_running c"
| "count_of c tsSucceeded = c_succeeded c"
| "count_of c tsFailed = c_failed c"
| "count_of c tsSkipped = c_skipped c"
| "count_of c tsCancelled = c_cancelled c"
| "count_of c tsCached = c_cached c"

lemma RunCounts_add_count: "count_of (RunCounts_add c s) t = (if s = t then Suc (count_of c t) else count_of c t)"
  by (cases s; cases t) (simp_all add: RunCounts_add_def)

lemma RunCounts_add_total: "c_total (RunCounts_add c s) = Suc (c_total c)"
  by (cases s) (simp_all add: RunCounts_add_def)

lemma counts_foldl:
  "count_of (foldl (\<lambda>c e. RunCounts_add c (f e)) c0 es) t = count_of c0 t + length (filter (\<lambda>e. f e = t) es)"
  by (induction es arbitrary: c0) (simp_all add: RunCounts_add_count)

lemma counts_foldl_total:
  "c_total (foldl (\<lambda>c e. RunCounts_add c (f e)) c0 es) = c_total c0 + length es"
  by (induction es arbitrary: c0) (simp_all add: RunCounts_add_total)

lemma count_of_zero [simp]: "count_of RunCounts_zero t = 0"
  by (cases t) (simp_all add: RunCounts_zero_def)

lemma run_counts_count:
  "count_of (run_counts r) t = length (filter (\<lambda>e. tr_state (snd e) = t) (run_task_runs r))"
  by (simp add: run_counts_def counts_foldl)

lemma run_counts_total: "c_total (run_counts r) = length (run_task_runs r)"
  by (simp add: run_counts_def counts_foldl_total RunCounts_zero_def)

lemma map_modify_mem: "(k, v) \<in> set (map_modify h f kvs) \<Longrightarrow> (k, v) \<in> set kvs \<or> k = h \<and> (\<exists>w. (h, w) \<in> set kvs \<and> v = f w)"
  by (induction kvs) (auto split: if_splits)

end
