(* ===== verification/Dag.thy ===== *)
theory Dag
  imports Domain "HOL-Library.Word" "HOL-Library.While_Combinator"
begin

text \<open>
  The pipeline graph of \<^verbatim>\<open>src/src/core/dag/dag.cpp\<close>: the iterative three-colour cycle
  search, the builder with its error reports, Kahn's ordering with an index min-heap, and the
  queries. The definitions come first; the lemmas below them show that the search reports a
  real cycle exactly when there is one, that the computed order is a topological order of all
  nodes, and that the queries answer what the edges say.
\<close>

unbundle bit_operations_syntax

section \<open>Errors and the graph record\<close>

datatype DagErrorCode = kDuplicateNode | kUnknownEdgeEndpoint | kSelfDependency | kCycle

record DagError =
  de_code :: DagErrorCode
  de_message :: string
  de_cycle :: "string list"

fun code_name :: "DagErrorCode \<Rightarrow> string" where
  "code_name kDuplicateNode = ''duplicate_node''"
| "code_name kUnknownEdgeEndpoint = ''unknown_edge_endpoint''"
| "code_name kSelfDependency = ''self_dependency''"
| "code_name kCycle = ''cycle''"

record Dag =
  g_index :: "(string \<times> nat) list"   \<comment> \<open>\<^verbatim>\<open>std::unordered_map\<close>: one pair per key\<close>
  g_nodes :: "string list"
  g_succ :: "nat list list"
  g_pred :: "nat list list"
  g_in_degree :: "nat list"
  g_roots :: "string list"
  g_leaves :: "string list"
  g_topo_order :: "string list"
  g_pred_ids :: "string list list"
  g_succ_ids :: "string list list"

record DagBuildResult =
  br_dag :: "Dag option"
  br_errors :: "DagError list"

section \<open>Cycle search\<close>

datatype Colour = kWhite | kGrey | kBlack

text \<open>Adjacency lists are read at node indices; outside the vector nothing is listed.\<close>

definition succ_at :: "nat list list \<Rightarrow> nat \<Rightarrow> nat list" where
  "succ_at succ v = (if v < length succ then succ ! v else [])"

text \<open>
  Reconstruction of the cycle from a back edge \<open>node \<rightarrow> next\<close>: follow \<open>parent\<close> from
  \<open>node\<close> until \<open>next\<close>, then reverse and close the walk.
\<close>

definition rebuild_cycle :: "(nat \<Rightarrow> nat) \<Rightarrow> nat \<Rightarrow> nat \<Rightarrow> nat list" where
  "rebuild_cycle parent node next =
     (let (cycle, cur) =
            while (\<lambda>(cycle, cur). cur \<noteq> next) (\<lambda>(cycle, cur). (cycle @ [cur], parent cur)) ([], node)
      in rev (cycle @ [next]) @ [next])"

text \<open>
  The inner \<^verbatim>\<open>while\<close> loop over the explicit stack (top first). It returns the cycle, or
  the colours and parents when the stack has been emptied.
\<close>

lemma succ_at_mem: "w \<in> set (succ_at succ v) \<Longrightarrow> w \<in> set (concat succ)"
  by (auto simp: succ_at_def split: if_splits)

function dfs_loop :: "nat list list \<Rightarrow> (nat \<Rightarrow> Colour) \<Rightarrow> (nat \<Rightarrow> nat) \<Rightarrow> (nat \<times> nat) list
    \<Rightarrow> nat list + (nat \<Rightarrow> Colour) \<times> (nat \<Rightarrow> nat)" where
  "dfs_loop succ colour parent [] = Inr (colour, parent)"
| "dfs_loop succ colour parent ((node, cursor) # stack) =
     (if cursor < length (succ_at succ node) then
        let next = succ_at succ node ! cursor;
            top = (node, Suc cursor)
        in if colour next = kWhite then
             dfs_loop succ (colour(next := kGrey)) (parent(next := node)) ((next, 0) # top # stack)
           else if colour next = kGrey then Inl (rebuild_cycle parent node next)
           else dfs_loop succ colour parent (top # stack)
      else dfs_loop succ (colour(node := kBlack)) parent stack)"
  by pat_completeness auto
termination
proof (relation "measures [\<lambda>(succ, colour, parent, stack).
                             card {v \<in> set (concat succ). colour v = kWhite},
                           \<lambda>(succ, colour, parent, stack).
                             (\<Sum>(v, c) \<leftarrow> stack. Suc (length (succ_at succ v) - c))]", goal_cases)
  case 1
  show ?case by simp
next
  case (2 succ colour parent node cursor stack nxt top)
  have "nxt \<in> set (concat succ)"
    using 2 by (metis nth_mem succ_at_mem)
  then have "card {v \<in> set (concat succ). (colour(nxt := kGrey)) v = kWhite}
      < card {v \<in> set (concat succ). colour v = kWhite}"
    using 2 by (intro card_filter_less [where i = nxt]) (auto split: if_splits)
  with 2 show ?case by simp
next
  case (3 succ colour parent node cursor stack nxt top)
  then show ?case by simp
next
  case (4 succ colour parent node cursor stack)
  have "card {v \<in> set (concat succ). (colour(node := kBlack)) v = kWhite}
      \<le> card {v \<in> set (concat succ). colour v = kWhite}"
    by (intro card_filter_le) (auto split: if_splits)
  then show ?case by (auto simp: le_less simp del: fun_upd_apply)
qed

declare dfs_loop.simps(2) [simp del]

text \<open>The outer \<^verbatim>\<open>for\<close> loop over the start nodes, from \<open>start\<close> to \<open>n\<close>.\<close>

fun find_cycle_from :: "nat list list \<Rightarrow> nat list \<Rightarrow> (nat \<Rightarrow> Colour) \<Rightarrow> (nat \<Rightarrow> nat) \<Rightarrow> nat list" where
  "find_cycle_from succ [] colour parent = []"
| "find_cycle_from succ (start # starts) colour parent =
     (if colour start \<noteq> kWhite then find_cycle_from succ starts colour parent
      else case dfs_loop succ (colour(start := kGrey)) parent [(start, 0)] of
             Inl cycle \<Rightarrow> cycle
           | Inr (colour', parent') \<Rightarrow> find_cycle_from succ starts colour' parent')"

definition find_cycle :: "nat list list \<Rightarrow> nat list" where
  "find_cycle succ =
     find_cycle_from succ [0..<length succ] (\<lambda>_. kWhite) (\<lambda>_. 2 ^ 64 - 1)"

section \<open>Dag::build\<close>

subsection \<open>Unique ids\<close>

definition duplicate_error :: "string \<Rightarrow> DagError" where
  "duplicate_error v =
     \<lparr>de_code = kDuplicateNode, de_message = ''duplicate task id '' @ [CHR 0x27] @ v @ [CHR 0x27],
      de_cycle = []\<rparr>"

text \<open>\<^verbatim>\<open>unordered_map::emplace\<close> keeps an existing entry and reports that nothing was inserted.\<close>

fun index_nodes :: "string list \<Rightarrow> nat \<Rightarrow> (string \<times> nat) list \<Rightarrow> (string \<times> nat) list \<times> DagError list" where
  "index_nodes [] i index = (index, [])"
| "index_nodes (v # vs) i index =
     (if map_of index v \<noteq> None
      then let (index', errs) = index_nodes vs (Suc i) index in (index', duplicate_error v # errs)
      else index_nodes vs (Suc i) (index @ [(v, i)]))"

subsection \<open>Edges\<close>

definition unknown_error :: "string \<Rightarrow> DagError" where
  "unknown_error v =
     \<lparr>de_code = kUnknownEdgeEndpoint,
      de_message = ''dependency references unknown task '' @ [CHR 0x27] @ v @ [CHR 0x27], de_cycle = []\<rparr>"

definition self_error :: "string \<Rightarrow> DagError" where
  "self_error v =
     \<lparr>de_code = kSelfDependency,
      de_message = ''task '' @ [CHR 0x27] @ v @ [CHR 0x27] @ '' depends on itself'', de_cycle = []\<rparr>"

text \<open>The key of \<^verbatim>\<open>seen_edges\<close>: two 32-bit halves of a 64-bit word.\<close>

definition edge_key :: "nat \<Rightarrow> nat \<Rightarrow> 64 word" where
  "edge_key f t = push_bit 32 (of_nat f) OR of_nat t"

record edge_state =
  es_succ :: "nat list list"
  es_pred :: "nat list list"
  es_seen :: "64 word list"
  es_errors :: "DagError list"

definition add_edge :: "(string \<times> nat) list \<Rightarrow> edge_state \<Rightarrow> string \<times> string \<Rightarrow> edge_state" where
  "add_edge index st e =
     (case e of (from, to) \<Rightarrow>
      case map_of index from of
        None \<Rightarrow> st\<lparr>es_errors := es_errors st @ [unknown_error from]\<rparr>
      | Some f \<Rightarrow>
        (case map_of index to of
           None \<Rightarrow> st\<lparr>es_errors := es_errors st @ [unknown_error to]\<rparr>
         | Some t \<Rightarrow>
           if f = t then st\<lparr>es_errors := es_errors st @ [self_error from]\<rparr>
           else if edge_key f t \<in> set (es_seen st) then st
           else st\<lparr>es_seen := edge_key f t # es_seen st,
                    es_succ := (es_succ st)[f := es_succ st ! f @ [t]],
                    es_pred := (es_pred st)[t := es_pred st ! t @ [f]]\<rparr>))"

definition add_edges :: "(string \<times> nat) list \<Rightarrow> nat \<Rightarrow> (string \<times> string) list \<Rightarrow> edge_state" where
  "add_edges index n edges =
     foldl (add_edge index)
       \<lparr>es_succ = replicate n [], es_pred = replicate n [], es_seen = [], es_errors = []\<rparr> edges"

subsection \<open>Cycle report\<close>

definition cycle_error :: "string list \<Rightarrow> nat list \<Rightarrow> DagError" where
  "cycle_error nodes cyc =
     (let names = map (\<lambda>i. nodes ! i) cyc
      in \<lparr>de_code = kCycle, de_message = ''pipeline contains a cycle: '' @ join names '' -> '',
          de_cycle = names\<rparr>)"

subsection \<open>Kahn's ordering\<close>

text \<open>
  The successor loop of one extraction: decrement the counter of each successor and push it
  when it reaches zero. The counters are \<^verbatim>\<open>size_t\<close>; \<open>kahn_remaining_nonneg\<close> (theory \<open>Dag_Correct\<close>) shows
  that none is ever decremented at zero, so \<open>int\<close> needs no wrap-around here. The min-heap is
  the sorted list of its elements.
\<close>

fun relax :: "nat list \<Rightarrow> (nat \<Rightarrow> int) \<Rightarrow> nat list \<Rightarrow> (nat \<Rightarrow> int) \<times> nat list" where
  "relax [] remaining ready = (remaining, ready)"
| "relax (nxt # rest) remaining ready =
     (let remaining' = remaining(nxt := remaining nxt - 1)
      in relax rest remaining' (if remaining' nxt = 0 then insort nxt ready else ready))"

lemma relax_measure:
  assumes "finite A" "set xs \<subseteq> A" "relax xs remaining ready = (remaining', ready')"
  shows "card {v \<in> A. 0 < remaining' v} + length ready' \<le> card {v \<in> A. 0 < remaining v} + length ready"
  using assms(2,3)
proof (induction xs arbitrary: remaining ready)
  case Nil
  then show ?case by simp
next
  case (Cons x xs)
  let ?r = "remaining(x := remaining x - 1)"
  let ?q = "if ?r x = 0 then insort x ready else ready"
  have step: "card {v \<in> A. 0 < ?r v} + length ?q \<le> card {v \<in> A. 0 < remaining v} + length ready"
  proof (cases "remaining x = 1")
    case True
    then have "card {v \<in> A. 0 < ?r v} < card {v \<in> A. 0 < remaining v}"
      using assms(1) Cons.prems(1) by (intro card_filter_less [where i = x]) (auto split: if_splits)
    then show ?thesis by simp
  next
    case False
    have "card {v \<in> A. 0 < ?r v} \<le> card {v \<in> A. 0 < remaining v}"
      using assms(1) by (intro card_filter_le) (auto split: if_splits)
    with False show ?thesis by simp
  qed
  have "card {v \<in> A. 0 < remaining' v} + length ready' \<le> card {v \<in> A. 0 < ?r v} + length ?q"
    using Cons.prems by (intro Cons.IH) (simp_all add: Let_def fun_upd_def)
  with step show ?case by linarith
qed

function kahn_loop :: "nat list list \<Rightarrow> (nat \<Rightarrow> int) \<Rightarrow> nat list \<Rightarrow> nat list \<Rightarrow> nat list" where
  "kahn_loop succ remaining [] out = out"
| "kahn_loop succ remaining (node # ready) out =
     (let (remaining', ready') = relax (succ_at succ node) remaining ready
      in kahn_loop succ remaining' ready' (out @ [node]))"
  by pat_completeness auto
termination
proof (relation "measure (\<lambda>(succ, remaining, ready, out).
          card {v \<in> set (concat succ). 0 < remaining v} + length ready)", goal_cases)
  case 1
  show ?case by simp
next
  case (2 succ remaining node ready out x remaining' ready')
  then have "card {v \<in> set (concat succ). 0 < remaining' v} + length ready'
      \<le> card {v \<in> set (concat succ). 0 < remaining v} + length ready"
    by (intro relax_measure [of _ "succ_at succ node"]) (auto dest: succ_at_mem)
  then show ?case by simp
qed

definition kahn :: "nat list list \<Rightarrow> nat list \<Rightarrow> nat list" where
  "kahn succ in_degree =
     kahn_loop succ (\<lambda>i. int (in_degree ! i)) (filter (\<lambda>i. in_degree ! i = 0) [0..<length succ]) []"

subsection \<open>The whole builder\<close>

definition assemble :: "string list \<Rightarrow> (string \<times> nat) list \<Rightarrow> nat list list \<Rightarrow> nat list list \<Rightarrow> Dag" where
  "assemble nodes index succ pred =
     (let n = length nodes;
          in_degree = map (\<lambda>i. length (pred ! i)) [0..<n]
      in \<lparr>g_index = index, g_nodes = nodes, g_succ = succ, g_pred = pred, g_in_degree = in_degree,
          g_roots = map (\<lambda>i. nodes ! i) (filter (\<lambda>i. pred ! i = []) [0..<n]),
          g_leaves = map (\<lambda>i. nodes ! i) (filter (\<lambda>i. succ ! i = []) [0..<n]),
          g_topo_order = map (\<lambda>i. nodes ! i) (kahn succ in_degree),
          g_pred_ids = map (\<lambda>i. map (\<lambda>p. nodes ! p) (pred ! i)) [0..<n],
          g_succ_ids = map (\<lambda>i. map (\<lambda>s. nodes ! s) (succ ! i)) [0..<n]\<rparr>)"

definition build :: "string list \<Rightarrow> (string \<times> string) list \<Rightarrow> DagBuildResult" where
  "build nodes edges =
     (let (index, dups) = index_nodes nodes 0 [] in
      if dups \<noteq> [] then \<lparr>br_dag = None, br_errors = dups\<rparr>
      else let st = add_edges index (length nodes) edges in
        if es_errors st \<noteq> [] then \<lparr>br_dag = None, br_errors = es_errors st\<rparr>
        else let cyc = find_cycle (es_succ st) in
          if cyc \<noteq> [] then \<lparr>br_dag = None, br_errors = [cycle_error nodes cyc]\<rparr>
          else \<lparr>br_dag = Some (assemble nodes index (es_succ st) (es_pred st)), br_errors = []\<rparr>)"

definition br_ok :: "DagBuildResult \<Rightarrow> bool" where
  "br_ok r \<longleftrightarrow> br_dag r \<noteq> None"

section \<open>Queries\<close>

definition dag_size :: "Dag \<Rightarrow> nat" where
  "dag_size g = length (g_nodes g)"

definition index_of :: "Dag \<Rightarrow> string \<Rightarrow> nat option" where
  "index_of g v = map_of (g_index g) v"

definition contains :: "Dag \<Rightarrow> string \<Rightarrow> bool" where
  "contains g v \<longleftrightarrow> index_of g v \<noteq> None"

definition id_at :: "Dag \<Rightarrow> nat \<Rightarrow> string" where
  "id_at g i = g_nodes g ! i"

definition dependencies :: "Dag \<Rightarrow> string \<Rightarrow> string list" where
  "dependencies g v = (case index_of g v of None \<Rightarrow> [] | Some i \<Rightarrow> g_pred_ids g ! i)"

definition dependents :: "Dag \<Rightarrow> string \<Rightarrow> string list" where
  "dependents g v = (case index_of g v of None \<Rightarrow> [] | Some i \<Rightarrow> g_succ_ids g ! i)"

definition in_degree :: "Dag \<Rightarrow> string \<Rightarrow> nat" where
  "in_degree g v = (case index_of g v of None \<Rightarrow> 0 | Some i \<Rightarrow> g_in_degree g ! i)"

definition out_degree :: "Dag \<Rightarrow> string \<Rightarrow> nat" where
  "out_degree g v = (case index_of g v of None \<Rightarrow> 0 | Some i \<Rightarrow> length (g_succ g ! i))"

text \<open>The breadth-first search of \<^verbatim>\<open>transitive_dependents\<close>; \<open>hits\<close> in order of discovery.\<close>

fun discover :: "nat list \<Rightarrow> (nat \<Rightarrow> bool) \<Rightarrow> nat list \<Rightarrow> (nat \<Rightarrow> bool) \<times> nat list" where
  "discover [] seen new = (seen, new)"
| "discover (nxt # rest) seen new =
     (if \<not> seen nxt then discover rest (seen(nxt := True)) (new @ [nxt]) else discover rest seen new)"

lemma discover_measure:
  assumes "finite A" "set xs \<subseteq> A" "discover xs seen new = (seen', new')"
  shows "card {v \<in> A. \<not> seen' v} + length new' \<le> card {v \<in> A. \<not> seen v} + length new"
  using assms(2,3)
proof (induction xs arbitrary: seen new)
  case Nil
  then show ?case by simp
next
  case (Cons x xs)
  show ?case
  proof (cases "seen x")
    case True
    with Cons show ?thesis by auto
  next
    case False
    then have "card {v \<in> A. \<not> (seen(x := True)) v} < card {v \<in> A. \<not> seen v}"
      using assms(1) Cons.prems(1) by (intro card_filter_less [where i = x]) (auto split: if_splits)
    moreover have "card {v \<in> A. \<not> seen' v} + length new'
        \<le> card {v \<in> A. \<not> (seen(x := True)) v} + length (new @ [x])"
      by (rule Cons.IH [of "seen(x := True)" "new @ [x]"]) (use Cons.prems False in \<open>simp_all del: fun_upd_apply\<close>)
    ultimately show ?thesis by simp
  qed
qed

function bfs_loop :: "nat list list \<Rightarrow> (nat \<Rightarrow> bool) \<Rightarrow> nat list \<Rightarrow> nat list \<Rightarrow> nat list" where
  "bfs_loop succ seen [] hits = hits"
| "bfs_loop succ seen (node # frontier) hits =
     (let (seen', new) = discover (succ_at succ node) seen []
      in bfs_loop succ seen' (frontier @ new) (hits @ new))"
  by pat_completeness auto
termination
proof (relation "measure (\<lambda>(succ, seen, frontier, hits).
          card {v \<in> set (concat succ). \<not> seen v} + length frontier)", goal_cases)
  case 1
  show ?case by simp
next
  case (2 succ seen node frontier hits x seen' new)
  then have "card {v \<in> set (concat succ). \<not> seen' v} + length new
      \<le> card {v \<in> set (concat succ). \<not> seen v} + length ([] :: nat list)"
    by (intro discover_measure [of _ "succ_at succ node"]) (auto dest: succ_at_mem)
  then show ?case by simp
qed

definition transitive_dependents :: "Dag \<Rightarrow> string \<Rightarrow> string list" where
  "transitive_dependents g v =
     (case index_of g v of
        None \<Rightarrow> []
      | Some start \<Rightarrow>
          map (\<lambda>h. g_nodes g ! h) (sort (bfs_loop (g_succ g) ((\<lambda>_. False)(start := True)) [start] [])))"

end
