(* ===== verification/Dag_Correct.thy ===== *)
theory Dag_Correct
  imports Dag
begin

text \<open>
  Correctness of the graph algorithms of the theory \<open>Dag\<close>: the cycle search (sound and
  complete), Kahn's ordering, the builder and the queries.
\<close>

section \<open>The edge relation and cycles\<close>

definition dag_edges :: "nat list list \<Rightarrow> (nat \<times> nat) set" where
  "dag_edges succ = {(u, v). v \<in> set (succ_at succ u)}"

text \<open>A closed walk: at least one edge, first and last node equal, consecutive nodes adjacent.\<close>

definition is_cycle :: "(nat \<times> nat) set \<Rightarrow> nat list \<Rightarrow> bool" where
  "is_cycle r c \<longleftrightarrow> 2 \<le> length c \<and> hd c = last c \<and> successively (\<lambda>u v. (u, v) \<in> r) c"

definition in_range :: "nat list list \<Rightarrow> bool" where
  "in_range succ \<longleftrightarrow> (\<forall>xs \<in> set succ. \<forall>v \<in> set xs. v < length succ)"

lemma dag_edges_iff [simp]: "(u, v) \<in> dag_edges succ \<longleftrightarrow> v \<in> set (succ_at succ u)"
  by (simp add: dag_edges_def)

lemma dag_edges_range: "in_range succ \<Longrightarrow> (u, v) \<in> dag_edges succ \<Longrightarrow> u < length succ \<and> v < length succ"
  by (auto simp: in_range_def succ_at_def split: if_splits)

lemma finite_dag_edges: "in_range succ \<Longrightarrow> finite (dag_edges succ)"
  by (rule finite_subset [of _ "{..<length succ} \<times> {..<length succ}"])
     (auto dest: dag_edges_range)

lemma successively_trancl:
  "successively (\<lambda>u v. (u, v) \<in> r) (x # xs) \<Longrightarrow> xs \<noteq> [] \<Longrightarrow> (x, last xs) \<in> r\<^sup>+"
proof (induction xs arbitrary: x)
  case Nil
  then show ?case by simp
next
  case (Cons y ys)
  show ?case
  proof (cases ys)
    case Nil
    with Cons.prems show ?thesis by auto
  next
    case (Cons z zs)
    with Cons.prems Cons.IH [of y] have "(y, last ys) \<in> r\<^sup>+" by simp
    moreover from Cons.prems have "(x, y) \<in> r" by simp
    ultimately show ?thesis using Cons by (simp add: trancl_into_trancl2)
  qed
qed

lemma is_cycle_not_acyclic: "is_cycle r c \<Longrightarrow> \<not> acyclic r"
proof -
  assume c: "is_cycle r c"
  then obtain x xs where "c = x # xs" "xs \<noteq> []"
    by (cases c; cases "tl c") (auto simp: is_cycle_def)
  with c have "(x, last xs) \<in> r\<^sup>+" "last xs = x"
    using successively_trancl [of r x xs] by (auto simp: is_cycle_def)
  then show ?thesis by (auto simp: acyclic_def)
qed

section \<open>find_cycle\<close>

text \<open>
  The stack discipline: every listed node has its processed successors black, except for the
  child directly above it, which is its successor and has it as parent.
\<close>

fun stack_ok :: "nat list list \<Rightarrow> (nat \<Rightarrow> nat) \<Rightarrow> nat set \<Rightarrow> nat set \<Rightarrow> (nat \<times> nat) list \<Rightarrow> bool" where
  "stack_ok succ par B ch [] = True"
| "stack_ok succ par B ch ((v, c) # st) =
     (set (take c (succ_at succ v)) \<subseteq> B \<union> ch \<and>
      (\<forall>w \<in> ch. w \<in> set (succ_at succ v) \<and> par w = v) \<and> stack_ok succ par B {v} st)"

definition black :: "(nat \<Rightarrow> Colour) \<Rightarrow> nat set" where
  "black colour = {v. colour v = kBlack}"

definition dfs_inv :: "nat list list \<Rightarrow> (nat \<Rightarrow> Colour) \<Rightarrow> (nat \<Rightarrow> nat) \<Rightarrow> (nat \<times> nat) list \<Rightarrow> bool" where
  "dfs_inv succ colour par st \<longleftrightarrow>
     distinct (map fst st) \<and> (\<forall>v. colour v = kGrey \<longleftrightarrow> v \<in> set (map fst st)) \<and>
     stack_ok succ par (black colour) {} st \<and>
     dag_edges succ `` black colour \<subseteq> black colour \<and>
     acyclic (dag_edges succ \<inter> black colour \<times> black colour)"

lemma stack_ok_par_cong:
  "(\<And>w. w \<in> set (map fst st) \<or> w \<in> ch \<Longrightarrow> par w = par' w) \<Longrightarrow>
   stack_ok succ par B ch st = stack_ok succ par' B ch st"
proof (induction st arbitrary: ch)
  case (Cons a st)
  obtain v c where a: "a = (v, c)" by (cases a)
  have "stack_ok succ par B {v} st = stack_ok succ par' B {v} st"
    using Cons.prems a by (intro Cons.IH) auto
  with Cons.prems a show ?case by auto
qed simp

lemma stack_ok_grow: "stack_ok succ par B ch st \<Longrightarrow> B \<subseteq> B' \<Longrightarrow> stack_ok succ par B' ch st"
  by (induction succ par B ch st rule: stack_ok.induct) auto

lemma stack_ok_pop: "stack_ok succ par B {v} st \<Longrightarrow> stack_ok succ par (insert v B) {} st"
  by (cases st) (auto intro: stack_ok_grow)

lemma stack_ok_parents:
  "stack_ok succ par B ch st \<Longrightarrow>
   successively (\<lambda>w v. par w = v \<and> (v, w) \<in> dag_edges succ) (map fst st)"
proof (induction succ par B ch st rule: stack_ok.induct)
  case (2 succ par B ch v c st)
  then show ?case by (cases st) auto
qed simp

lemma parent_walk:
  assumes "successively (\<lambda>w v. par w = v) (pre @ [nxt])" and "nxt \<notin> set pre"
  shows "while (\<lambda>(cycle, cur). cur \<noteq> nxt) (\<lambda>(cycle, cur). (cycle @ [cur], par cur))
           (acc, hd (pre @ [nxt])) = (acc @ pre, nxt)"
  using assms
proof (induction pre arbitrary: acc)
  case Nil
  then show ?case by (subst while_unfold) simp
next
  case (Cons w pre)
  have "par w = hd (pre @ [nxt])"
    using Cons.prems(1) by (cases pre) auto
  moreover have "successively (\<lambda>w v. par w = v) (pre @ [nxt])"
    using Cons.prems(1) by (cases pre) auto
  ultimately show ?case
    using Cons.IH [of "acc @ [w]"] Cons.prems(2) by (subst while_unfold) auto
qed

text \<open>The parent walk stops, and what it collects is a closed walk through the back edge.\<close>

lemma rebuild_cycle_correct:
  assumes ok: "stack_ok succ par B {} st" and st: "map fst st = node # vs"
    and nxt: "nxt \<in> set (map fst st)" and edge: "(node, nxt) \<in> dag_edges succ"
  shows "is_cycle (dag_edges succ) (rebuild_cycle par node nxt)"
proof -
  obtain pre post where split: "map fst st = pre @ nxt # post" and notin: "nxt \<notin> set pre"
    using nxt by (meson split_list_first)
  have chain: "successively (\<lambda>w v. par w = v \<and> (v, w) \<in> dag_edges succ) (pre @ [nxt])"
    using stack_ok_parents [OF ok] split by (auto simp: successively_append_iff)
  then have par: "successively (\<lambda>w v. par w = v) (pre @ [nxt])"
    by (rule successively_mono) auto
  have node: "hd (pre @ [nxt]) = node" using split st by (cases pre) auto
  have rebuilt: "rebuild_cycle par node nxt = rev (pre @ [nxt]) @ [nxt]"
    using parent_walk [OF par notin, of "[]"] node by (simp add: rebuild_cycle_def)
  have "successively (\<lambda>u v. (u, v) \<in> dag_edges succ) (rev (pre @ [nxt]))"
    unfolding successively_rev by (rule successively_mono [OF chain]) auto
  moreover have "last (rev (pre @ [nxt])) = node" using node by (cases pre) simp_all
  ultimately have "successively (\<lambda>u v. (u, v) \<in> dag_edges succ) (rebuild_cycle par node nxt)"
    using edge unfolding rebuilt by (subst successively_append_iff) simp
  then show ?thesis by (simp add: is_cycle_def rebuilt)
qed

lemma dfs_inv_push:
  assumes inv: "dfs_inv succ colour par ((node, c) # st)" and c: "c < length (succ_at succ node)"
    and nxt: "nxt = succ_at succ node ! c" and white: "colour nxt = kWhite"
  shows "dfs_inv succ (colour(nxt := kGrey)) (par(nxt := node)) ((nxt, 0) # (node, Suc c) # st)"
proof -
  have B: "black (colour(nxt := kGrey)) = black colour" using white by (auto simp: black_def)
  have fresh: "nxt \<notin> set (map fst ((node, c) # st))"
    using inv white by (metis Colour.distinct(1) dfs_inv_def)
  have "stack_ok succ (par(nxt := node)) (black colour) {node} st"
    using inv fresh by (subst stack_ok_par_cong [where par' = par]) (auto simp: dfs_inv_def)
  moreover have "set (take (Suc c) (succ_at succ node)) \<subseteq> black colour \<union> {nxt}"
    using inv c nxt by (auto simp: dfs_inv_def take_Suc_conv_app_nth)
  ultimately have "stack_ok succ (par(nxt := node)) (black colour) {} ((nxt, 0) # (node, Suc c) # st)"
    using c nxt by simp
  with inv fresh B show ?thesis by (auto simp: dfs_inv_def)
qed

lemma dfs_inv_advance:
  assumes inv: "dfs_inv succ colour par ((node, c) # st)" and c: "c < length (succ_at succ node)"
    and blk: "colour (succ_at succ node ! c) = kBlack"
  shows "dfs_inv succ colour par ((node, Suc c) # st)"
  using inv c blk by (auto simp: dfs_inv_def take_Suc_conv_app_nth black_def)

lemma dfs_inv_pop:
  assumes inv: "dfs_inv succ colour par ((node, c) # st)" and c: "\<not> c < length (succ_at succ node)"
  shows "dfs_inv succ (colour(node := kBlack)) par st"
proof -
  have grey: "colour node = kGrey" using inv by (simp add: dfs_inv_def)
  then have notB: "node \<notin> black colour" by (simp add: black_def)
  have B: "black (colour(node := kBlack)) = insert node (black colour)" by (auto simp: black_def)
  have sv: "dag_edges succ `` {node} \<subseteq> black colour" using inv c by (auto simp: dfs_inv_def)
  have "stack_ok succ par (insert node (black colour)) {} st"
    using inv by (intro stack_ok_pop) (simp add: dfs_inv_def)
  moreover have "acyclic (dag_edges succ \<inter> insert node (black colour) \<times> insert node (black colour))"
    using inv notB sv by (intro acyclic_insert_sink) (auto simp: dfs_inv_def)
  moreover have "dag_edges succ `` insert node (black colour) \<subseteq> insert node (black colour)"
    using inv sv by (auto simp: dfs_inv_def)
  ultimately show ?thesis using inv grey unfolding dfs_inv_def B by auto
qed

definition dfs_post :: "nat list list \<Rightarrow> (nat \<Rightarrow> Colour) \<Rightarrow> nat list + (nat \<Rightarrow> Colour) \<times> (nat \<Rightarrow> nat) \<Rightarrow> bool" where
  "dfs_post succ colour res \<longleftrightarrow>
     (case res of
        Inl cyc \<Rightarrow> is_cycle (dag_edges succ) cyc
      | Inr (colour', par') \<Rightarrow> dfs_inv succ colour' par' [] \<and>
          (\<forall>v. colour v \<noteq> kWhite \<longrightarrow> colour' v \<noteq> kWhite))"

lemma dfs_post_mono:
  "dfs_post succ colour' res \<Longrightarrow> (\<And>v. colour v \<noteq> kWhite \<Longrightarrow> colour' v \<noteq> kWhite) \<Longrightarrow>
   dfs_post succ colour res"
  by (auto simp: dfs_post_def split: sum.splits)

lemma dfs_loop_correct:
  "dfs_inv succ colour par st \<Longrightarrow> dfs_post succ colour (dfs_loop succ colour par st)"
proof (induction succ colour par st rule: dfs_loop.induct)
  case (1 succ colour par)
  then show ?case by (simp add: dfs_post_def)
next
  case (2 succ colour par node c st)
  let ?nxt = "succ_at succ node ! c"
  note unf = dfs_loop.simps(2) [of succ colour par node c st] Let_def
  show ?case
  proof (cases "c < length (succ_at succ node)")
    case False
    have "dfs_post succ colour (dfs_loop succ (colour(node := kBlack)) par st)"
      by (rule dfs_post_mono [OF "2.IH"(3) [OF False dfs_inv_pop [OF "2.prems" False]]])
         (simp split: if_splits)
    with False show ?thesis by (simp add: unf)
  next
    case True
    show ?thesis
    proof (cases "colour ?nxt")
      case kWhite
      have "dfs_post succ colour (dfs_loop succ (colour(?nxt := kGrey)) (par(?nxt := node))
              ((?nxt, 0) # (node, Suc c) # st))"
        by (rule dfs_post_mono [OF "2.IH"(1)
              [OF True refl refl kWhite dfs_inv_push [OF "2.prems" True refl kWhite]]])
           (simp split: if_splits)
      with True kWhite show ?thesis by (simp add: unf)
    next
      case kBlack
      then have "colour ?nxt \<noteq> kWhite" "colour ?nxt \<noteq> kGrey" by simp_all
      from "2.IH"(2) [OF True refl refl this dfs_inv_advance [OF "2.prems" True kBlack]] True kBlack
      show ?thesis by (simp add: unf)
    next
      case kGrey
      have "is_cycle (dag_edges succ) (rebuild_cycle par node ?nxt)"
        using "2.prems" True kGrey
        by (intro rebuild_cycle_correct [of _ _ "black colour" "(node, c) # st" _ "map fst st"])
           (auto simp: dfs_inv_def)
      with True kGrey show ?thesis by (simp add: dfs_post_def unf)
    qed
  qed
qed

lemma dfs_inv_start:
  assumes "dfs_inv succ colour par []" "colour s = kWhite"
  shows "dfs_inv succ (colour(s := kGrey)) par [(s, 0)]"
proof -
  have "black (colour(s := kGrey)) = black colour" using assms(2) by (auto simp: black_def)
  with assms show ?thesis by (auto simp: dfs_inv_def)
qed

text \<open>What the outer loop returns: a cycle, or a state in which every start node is coloured.\<close>

definition search_post :: "nat list list \<Rightarrow> nat set \<Rightarrow> nat list \<Rightarrow> bool" where
  "search_post succ seen res \<longleftrightarrow>
     is_cycle (dag_edges succ) res \<or>
     res = [] \<and> (\<exists>colour par. dfs_inv succ colour par [] \<and> (\<forall>v \<in> seen. colour v \<noteq> kWhite))"

lemma find_cycle_from_correct:
  "dfs_inv succ colour par [] \<Longrightarrow>
   search_post succ (set starts \<union> {v. colour v \<noteq> kWhite}) (find_cycle_from succ starts colour par)"
proof (induction starts arbitrary: colour par)
  case Nil
  then show ?case by (auto simp: search_post_def)
next
  case (Cons s starts)
  show ?case
  proof (cases "colour s = kWhite")
    case False
    with Cons.IH [OF Cons.prems] show ?thesis by (auto simp: search_post_def)
  next
    case True
    note run = dfs_loop_correct [OF dfs_inv_start [OF Cons.prems True]]
    show ?thesis
    proof (cases "dfs_loop succ (colour(s := kGrey)) par [(s, 0)]")
      case (Inl cyc)
      with run True show ?thesis by (simp add: dfs_post_def search_post_def)
    next
      case (Inr r)
      obtain colour' par' where r: "r = (colour', par')" by (cases r)
      from run have inv: "dfs_inv succ colour' par' []"
        and mono: "\<And>v. (colour(s := kGrey)) v \<noteq> kWhite \<Longrightarrow> colour' v \<noteq> kWhite"
        unfolding Inr r dfs_post_def by auto
      have "insert s {v. colour v \<noteq> kWhite} \<subseteq> {v. colour' v \<noteq> kWhite}"
        using mono by (auto split: if_splits)
      with Cons.IH [OF inv] show ?thesis using Inr r True by (auto simp: search_post_def)
    qed
  qed
qed

lemma find_cycle_post: "search_post succ {..<length succ} (find_cycle succ)"
proof -
  have "dfs_inv succ (\<lambda>_. kWhite) (\<lambda>_. 2 ^ 64 - 1) []"
    by (simp add: dfs_inv_def black_def acyclic_def)
  from find_cycle_from_correct [OF this, of "[0..<length succ]"]
  show ?thesis by (simp add: find_cycle_def atLeast0LessThan)
qed

text \<open>The search answers the question: a nonempty answer is a cycle, an empty one means none.\<close>

lemma find_cycle_sound: "find_cycle succ \<noteq> [] \<Longrightarrow> is_cycle (dag_edges succ) (find_cycle succ)"
  using find_cycle_post [of succ] by (auto simp: search_post_def)

lemma find_cycle_complete:
  assumes "find_cycle succ = []" "in_range succ"
  shows "acyclic (dag_edges succ)"
proof -
  obtain colour par where inv: "dfs_inv succ colour par []"
    and all: "\<And>v. v < length succ \<Longrightarrow> colour v \<noteq> kWhite"
    using find_cycle_post [of succ] assms(1) by (auto simp: search_post_def is_cycle_def)
  have "colour v = kBlack" if "v < length succ" for v
    using all [OF that] inv by (cases "colour v") (auto simp: dfs_inv_def)
  then have "dag_edges succ \<inter> black colour \<times> black colour = dag_edges succ"
    using dag_edges_range [OF assms(2)] by (auto simp: black_def)
  with inv show ?thesis by (simp add: dfs_inv_def)
qed

lemma find_cycle_iff: "in_range succ \<Longrightarrow> find_cycle succ = [] \<longleftrightarrow> acyclic (dag_edges succ)"
  using find_cycle_complete find_cycle_sound is_cycle_not_acyclic by blast

section \<open>Kahn's ordering\<close>

text \<open>How many edges into \<open>v\<close> start outside the set \<open>D\<close> of emitted nodes.\<close>

definition open_deg :: "nat list list \<Rightarrow> nat set \<Rightarrow> nat \<Rightarrow> nat" where
  "open_deg succ D v = (\<Sum>u \<in> {..<length succ} - D. count_list (succ_at succ u) v)"

text \<open>Every node of the list comes after all its predecessors.\<close>

definition topo_prefix :: "nat list list \<Rightarrow> nat list \<Rightarrow> bool" where
  "topo_prefix succ out \<longleftrightarrow>
     (\<forall>pre v post. out = pre @ v # post \<longrightarrow> (\<forall>u. (u, v) \<in> dag_edges succ \<longrightarrow> u \<in> set pre))"

definition kahn_inv :: "nat list list \<Rightarrow> (nat \<Rightarrow> int) \<Rightarrow> nat list \<Rightarrow> nat list \<Rightarrow> bool" where
  "kahn_inv succ remaining ready out \<longleftrightarrow>
     distinct (out @ ready) \<and> set (out @ ready) \<subseteq> {..<length succ} \<and> sorted ready \<and>
     (\<forall>v < length succ. remaining v = int (open_deg succ (set out) v)) \<and>
     (\<forall>v < length succ. v \<in> set (out @ ready) \<longleftrightarrow> remaining v = 0) \<and>
     topo_prefix succ out"

lemma open_deg_emit:
  assumes "u < length succ" "u \<notin> D"
  shows "open_deg succ D v = open_deg succ (insert u D) v + count_list (succ_at succ u) v"
proof -
  have split: "{..<length succ} - D = insert u ({..<length succ} - insert u D)" using assms by auto
  show ?thesis unfolding open_deg_def by (subst split, subst sum.insert) auto
qed

lemma open_deg_zero:
  assumes "open_deg succ D v = 0" "(u, v) \<in> dag_edges succ"
  shows "u \<in> D"
proof (rule ccontr)
  assume "u \<notin> D"
  with assms(2) have "u \<in> {..<length succ} - D" by (auto simp: succ_at_def split: if_splits)
  with assms(1) have "count_list (succ_at succ u) v = 0" by (simp add: open_deg_def)
  with assms(2) show False by (simp add: count_list_0_iff)
qed

lemma open_deg_pos:
  assumes "0 < open_deg succ D v"
  obtains u where "u < length succ" "u \<notin> D" "(u, v) \<in> dag_edges succ"
proof -
  have "\<exists>u \<in> {..<length succ} - D. count_list (succ_at succ u) v \<noteq> 0"
  proof (rule ccontr)
    assume "\<not> ?thesis"
    then have "open_deg succ D v = 0" by (simp add: open_deg_def)
    with assms show False by simp
  qed
  then show ?thesis using that count_list_0_iff [of _ v] by auto
qed

lemma topo_prefix_snoc:
  assumes "topo_prefix succ out" "\<And>u. (u, v) \<in> dag_edges succ \<Longrightarrow> u \<in> set out"
  shows "topo_prefix succ (out @ [v])"
  unfolding topo_prefix_def
proof (intro allI impI)
  fix pre w post u
  assume eq: "out @ [v] = pre @ w # post" and e: "(u, w) \<in> dag_edges succ"
  show "u \<in> set pre"
  proof (cases post rule: rev_cases)
    case Nil
    with eq e assms(2) show ?thesis by simp
  next
    case (snoc post' z)
    with eq have "out = pre @ w # post'" by simp
    with e assms(1) show ?thesis unfolding topo_prefix_def by blast
  qed
qed

lemma relax_correct:
  assumes "relax xs remaining ready = (remaining', ready')"
    and "\<And>v. v \<in> set xs \<Longrightarrow> int (count_list xs v) \<le> remaining v"
    and "distinct ready" "set ready \<inter> set xs = {}" "sorted ready"
  shows "remaining' v = remaining v - int (count_list xs v)"
    and "set ready' = set ready \<union> {v \<in> set xs. remaining v = int (count_list xs v)}"
    and "distinct ready'" and "sorted ready'"
proof -
  have "(\<forall>v. remaining' v = remaining v - int (count_list xs v)) \<and>
        set ready' = set ready \<union> {v \<in> set xs. remaining v = int (count_list xs v)} \<and>
        (distinct ready' \<and> sorted ready')"
    using assms
  proof (induction xs arbitrary: remaining ready)
    case Nil
    then show ?case by simp
  next
    case (Cons x xs)
    let ?r = "remaining(x := remaining x - 1)"
    let ?q = "if ?r x = 0 then insort x ready else ready"
    have eq: "relax xs ?r ?q = (remaining', ready')" using Cons.prems(1) by (simp add: Let_def)
    have le: "int (count_list xs v) \<le> ?r v" if "v \<in> set xs" for v
      using Cons.prems(2) [of v] that by (auto split: if_splits)
    have x0: "0 < count_list xs x \<longleftrightarrow> x \<in> set xs" by (metis count_list_0_iff neq0_conv)
    have x1: "?r x = 0 \<Longrightarrow> x \<notin> set xs"
      using le [of x] count_list_0_iff [of xs x] by force
    have "distinct ?q" "set ?q \<inter> set xs = {}" "sorted ?q"
      using Cons.prems(3-5) x1 by (auto simp: distinct_insort sorted_insort set_insort_key)
    note IH = Cons.IH [OF eq le this]
    have ready: "set ready' = set ?q \<union> {v \<in> set xs. ?r v = int (count_list xs v)}"
      and rest: "distinct ready' \<and> sorted ready'"
      and rem: "\<forall>v. remaining' v = ?r v - int (count_list xs v)" using IH by blast+
    have "set ready' = set ready \<union> {v \<in> set (x # xs). remaining v = int (count_list (x # xs) v)}"
      unfolding ready using x0 x1 by (auto simp: set_insort_key split: if_splits)
    with rest rem show ?case by auto
  qed
  then show "remaining' v = remaining v - int (count_list xs v)"
    and "set ready' = set ready \<union> {v \<in> set xs. remaining v = int (count_list xs v)}"
    and "distinct ready'" and "sorted ready'" by blast+
qed

lemma kahn_inv_step:
  assumes inv: "kahn_inv succ remaining (node # ready) out" and rng: "in_range succ"
    and eq: "relax (succ_at succ node) remaining ready = (remaining', ready')"
  shows "kahn_inv succ remaining' ready' (out @ [node])"
proof -
  let ?xs = "succ_at succ node" and ?n = "length succ"
  have node: "node < ?n" "node \<notin> set out" "node \<notin> set ready" "remaining node = 0"
    using inv by (auto simp: kahn_inv_def)
  have xs_n: "v < ?n" if "v \<in> set ?xs" for v
    using that dag_edges_range [OF rng, of node v] by simp
  have deg: "remaining v = int (open_deg succ (set (out @ [node])) v + count_list ?xs v)" if "v < ?n" for v
    using inv that open_deg_emit [OF node(1,2), of v] by (simp add: kahn_inv_def)
  have closed: "v \<notin> set ?xs" if "v \<in> set (out @ node # ready)" for v
  proof -
    from that inv have "v < ?n" "remaining v = 0" by (auto simp: kahn_inv_def)
    with deg have "count_list ?xs v = 0" by fastforce
    then show ?thesis by (simp add: count_list_0_iff)
  qed
  have le: "int (count_list ?xs v) \<le> remaining v" if "v \<in> set ?xs" for v
    using deg [OF xs_n [OF that]] by simp
  have disj: "set ready \<inter> set ?xs = {}" using closed by auto
  have dr: "distinct ready" "sorted ready" using inv by (auto simp: kahn_inv_def)
  note relaxed = relax_correct [OF eq le dr(1) disj dr(2)]
  have rem: "remaining' v = int (open_deg succ (set (out @ [node])) v)" if "v < ?n" for v
    using deg [OF that] relaxed(1) [of v] by simp
  have mem: "v \<in> set (out @ [node] @ ready') \<longleftrightarrow> remaining' v = 0" if "v < ?n" for v
  proof -
    have "v \<in> set (out @ node # ready) \<longleftrightarrow> remaining v = 0" using inv that by (simp add: kahn_inv_def)
    with relaxed(1) [of v] relaxed(2) closed [of v] show ?thesis
      by (cases "v \<in> set ?xs") auto
  qed
  have preds: "u \<in> set out" if "(u, node) \<in> dag_edges succ" for u
    using open_deg_zero [OF _ that] inv node by (auto simp: kahn_inv_def)
  have "topo_prefix succ (out @ [node])"
    using inv preds by (intro topo_prefix_snoc) (auto simp: kahn_inv_def)
  moreover have "distinct ((out @ [node]) @ ready')" "set ((out @ [node]) @ ready') \<subseteq> {..<?n}"
    using inv relaxed(2,3) closed xs_n by (auto simp: kahn_inv_def)
  ultimately show ?thesis using rem mem relaxed(4) by (simp add: kahn_inv_def)
qed

text \<open>
  When a node is extracted, the counter of each of its successors covers every decrement of
  that extraction, so the unsigned counters of the program never wrap.
\<close>

lemma kahn_remaining_nonneg:
  assumes inv: "kahn_inv succ remaining (node # ready) out" and rng: "in_range succ"
    and v: "v \<in> set (succ_at succ node)"
  shows "int (count_list (succ_at succ node) v) \<le> remaining v \<and> 1 \<le> remaining v"
proof -
  have node: "node < length succ" "node \<notin> set out" using inv by (auto simp: kahn_inv_def)
  have "v < length succ" using v dag_edges_range [OF rng, of node v] by simp
  then have "remaining v = int (open_deg succ (set (out @ [node])) v + count_list (succ_at succ node) v)"
    using inv open_deg_emit [OF node, of v] by (simp add: kahn_inv_def)
  moreover have "count_list (succ_at succ node) v \<noteq> 0" using v by (simp add: count_list_0_iff)
  ultimately show ?thesis by simp
qed

lemma kahn_inv_final:
  assumes inv: "kahn_inv succ remaining [] out" and rng: "in_range succ" and ac: "acyclic (dag_edges succ)"
  shows "set out = {..<length succ}"
proof (rule ccontr)
  assume "\<not> ?thesis"
  with inv obtain x where "x \<in> {..<length succ} - set out" by (auto simp: kahn_inv_def)
  then obtain z where z: "z \<in> {..<length succ} - set out"
    and min: "\<And>y. (y, z) \<in> dag_edges succ \<Longrightarrow> y \<notin> {..<length succ} - set out"
    using acyclic_minimal [OF finite_dag_edges [OF rng] ac] by metis
  from z inv have "0 < open_deg succ (set out) z" by (auto simp: kahn_inv_def)
  with min show False by (elim open_deg_pos) auto
qed

lemma kahn_loop_correct:
  "kahn_inv succ remaining ready out \<Longrightarrow> in_range succ \<Longrightarrow>
   \<exists>remaining'. kahn_inv succ remaining' [] (kahn_loop succ remaining ready out)"
proof (induction succ remaining ready out rule: kahn_loop.induct)
  case (1 succ remaining out)
  then show ?case by auto
next
  case (2 succ remaining node ready out)
  obtain remaining' ready' where eq: "relax (succ_at succ node) remaining ready = (remaining', ready')"
    by (cases "relax (succ_at succ node) remaining ready")
  with 2 kahn_inv_step [OF "2.prems" eq] show ?case by auto
qed

lemma kahn_correct:
  assumes rng: "in_range succ" and ac: "acyclic (dag_edges succ)"
    and deg: "\<And>v. v < length succ \<Longrightarrow> ind ! v = open_deg succ {} v"
  shows "distinct (kahn succ ind)" "set (kahn succ ind) = {..<length succ}"
    "topo_prefix succ (kahn succ ind)"
proof -
  let ?ready = "filter (\<lambda>i. ind ! i = 0) [0..<length succ]"
  have "kahn_inv succ (\<lambda>i. int (ind ! i)) ?ready []"
    using deg by (auto simp: kahn_inv_def topo_prefix_def intro: sorted_wrt_filter)
  from kahn_loop_correct [OF this rng] obtain remaining
    where inv: "kahn_inv succ remaining [] (kahn succ ind)" by (auto simp: kahn_def)
  then show "distinct (kahn succ ind)" "topo_prefix succ (kahn succ ind)"
    by (simp_all add: kahn_inv_def)
  from kahn_inv_final [OF inv rng ac] show "set (kahn succ ind) = {..<length succ}" .
qed

end
