(* ===== verification/Dag_Build.thy ===== *)
theory Dag_Build
  imports Dag_Correct
begin

text \<open>
  The builder and the queries of \<^verbatim>\<open>dag.cpp\<close>: what \<^verbatim>\<open>Dag::build\<close> accepts, the
  structural invariant \<open>dag_wf\<close> of every graph it returns (the contract the scheduler
  relies on), and the meaning of the accessors and of \<^verbatim>\<open>transitive_dependents\<close>.
\<close>

unbundle bit_operations_syntax

section \<open>Indexing the nodes\<close>

lemma index_nodes_ok:
  "snd (index_nodes vs i idx) = [] \<longleftrightarrow> distinct vs \<and> set vs \<inter> set (map fst idx) = {}"
proof (induction vs arbitrary: i idx)
  case (Cons v vs)
  then show ?case
    by (auto simp: split_beta map_of_eq_None_iff)
qed simp

lemma index_nodes_eq:
  "snd (index_nodes vs i idx) = [] \<Longrightarrow>
   fst (index_nodes vs i idx) = idx @ zip vs [i..<i + length vs]"
proof (induction vs arbitrary: i idx)
  case (Cons v vs)
  from Cons.prems have "map_of idx v = None" by (auto simp: split_beta split: if_splits)
  with Cons.prems have eq: "index_nodes (v # vs) i idx = index_nodes vs (Suc i) (idx @ [(v, i)])"
    by (simp del: map_of_append)
  have "[i..<i + length (v # vs)] = i # [Suc i..<Suc i + length vs]" by (subst upt_conv_Cons) simp_all
  with Cons eq show ?case by simp
qed simp

lemma map_of_zip_upt:
  "distinct vs \<Longrightarrow> map_of (zip vs [0..<length vs]) v = Some i \<longleftrightarrow> i < length vs \<and> vs ! i = v"
proof
  assume d: "distinct vs" and "map_of (zip vs [0..<length vs]) v = Some i"
  then have "(v, i) \<in> set (zip vs [0..<length vs])" by (meson map_of_SomeD)
  then show "i < length vs \<and> vs ! i = v" by (auto simp: set_zip)
next
  assume d: "distinct vs" and i: "i < length vs \<and> vs ! i = v"
  then have "(v, i) \<in> set (zip vs [0..<length vs])" by (auto simp: set_zip)
  with d show "map_of (zip vs [0..<length vs]) v = Some i"
    by (intro map_of_is_SomeI) auto
qed

section \<open>Collecting the edges\<close>

text \<open>The 64-bit key identifies the edge as long as both indices fit 32 bits.\<close>

lemma edge_key_inject:
  assumes "f < 2 ^ 32" "t < 2 ^ 32" "f' < 2 ^ 32" "t' < 2 ^ 32" "edge_key f t = edge_key f' t'"
  shows "f = f' \<and> t = t'"
proof -
  have small: "bit (of_nat k :: 64 word) i \<longleftrightarrow> i < 32 \<and> bit k i" if "k < 2 ^ 32" for k i :: nat
  proof -
    have "take_bit 32 k = k" using that by (simp add: take_bit_nat_eq_self)
    then have "bit k i \<longleftrightarrow> i < 32 \<and> bit k i" by (metis bit_take_bit_iff)
    then show ?thesis by (auto simp: bit_simps)
  qed
  have hi: "bit k i \<Longrightarrow> i < 32" if "k < 2 ^ 32" for k i :: nat
    using that by (metis bit_take_bit_iff take_bit_nat_eq_self)
  have key: "bit (edge_key a b) i \<longleftrightarrow> (if i < 32 then bit b i else i - 32 < 32 \<and> bit a (i - 32))"
    if "a < 2 ^ 32" "b < 2 ^ 32" "i < 64" for a b i :: nat
    using that by (auto simp: edge_key_def bit_simps small [OF that(1)] small [OF that(2)]
        dest: hi [OF that(1)] hi [OF that(2)])
  have "bit t i = bit t' i" for i
    using key [of f t i] key [of f' t' i] assms hi by (cases "i < 32") auto
  moreover have "bit f i = bit f' i" for i
    using key [of f t "i + 32"] key [of f' t' "i + 32"] assms hi by (cases "i < 32") auto
  ultimately show ?thesis by (simp add: bit_eq_iff)
qed

definition idx_edges :: "(string \<times> nat) list \<Rightarrow> (string \<times> string) list \<Rightarrow> (nat \<times> nat) set" where
  "idx_edges index es =
     {(f, t). \<exists>(a, b) \<in> set es. map_of index a = Some f \<and> map_of index b = Some t \<and> f \<noteq> t}"

definition edge_good :: "(string \<times> nat) list \<Rightarrow> string \<times> string \<Rightarrow> bool" where
  "edge_good index e \<longleftrightarrow>
     (\<exists>f t. map_of index (fst e) = Some f \<and> map_of index (snd e) = Some t \<and> f \<noteq> t)"

text \<open>
  The adjacency vectors during the edge loop: mirror images of each other, without
  duplicates, within the edges read so far, and complete for their keys.
\<close>

definition edge_inv :: "nat \<Rightarrow> (nat \<times> nat) set \<Rightarrow> edge_state \<Rightarrow> bool" where
  "edge_inv n R st \<longleftrightarrow>
     length (es_succ st) = n \<and> length (es_pred st) = n \<and>
     (\<forall>f < n. \<forall>t < n. t \<in> set (es_succ st ! f) \<longleftrightarrow> f \<in> set (es_pred st ! t)) \<and>
     (\<forall>f < n. distinct (es_succ st ! f) \<and> distinct (es_pred st ! f) \<and>
        set (es_succ st ! f) \<subseteq> {..<n} \<and> set (es_pred st ! f) \<subseteq> {..<n}) \<and>
     (\<forall>f < n. \<forall>t \<in> set (es_succ st ! f). (f, t) \<in> R \<and> edge_key f t \<in> set (es_seen st)) \<and>
     (\<forall>(f, t) \<in> R. edge_key f t \<in> set (es_seen st)) \<and>
     (\<forall>k \<in> set (es_seen st). \<exists>f t. f < n \<and> t \<in> set (es_succ st ! f) \<and> k = edge_key f t)"

lemma edge_inv_init:
  "edge_inv n {} \<lparr>es_succ = replicate n [], es_pred = replicate n [], es_seen = [], es_errors = []\<rparr>"
  by (simp add: edge_inv_def)

lemma edge_inv_insert:
  assumes inv: "edge_inv n R st" and f: "f < n" and t: "t < n"
    and new: "edge_key f t \<notin> set (es_seen st)"
  shows "edge_inv n (insert (f, t) R)
           (st\<lparr>es_seen := edge_key f t # es_seen st,
               es_succ := (es_succ st)[f := es_succ st ! f @ [t]],
               es_pred := (es_pred st)[t := es_pred st ! t @ [f]]\<rparr>)"
proof -
  have fresh: "t \<notin> set (es_succ st ! f)" using inv f new by (auto simp: edge_inv_def)
  then have fresh': "f \<notin> set (es_pred st ! t)" using inv f t by (auto simp: edge_inv_def)
  have len: "length (es_succ st) = n" "length (es_pred st) = n" using inv by (auto simp: edge_inv_def)
  have S: "((es_succ st)[f := es_succ st ! f @ [t]]) ! i = (if i = f then es_succ st ! f @ [t] else es_succ st ! i)"
    and P: "((es_pred st)[t := es_pred st ! t @ [f]]) ! i = (if i = t then es_pred st ! t @ [f] else es_pred st ! i)"
    if "i < n" for i using that len by (auto simp: nth_list_update)
  have keep: "\<exists>f' t'. f' < n \<and> t' \<in> set (((es_succ st)[f := es_succ st ! f @ [t]]) ! f') \<and> k = edge_key f' t'"
    if "k \<in> set (edge_key f t # es_seen st)" for k
  proof (cases "k = edge_key f t")
    case True
    have "t \<in> set (((es_succ st)[f := es_succ st ! f @ [t]]) ! f)" using S [OF f] by simp
    with True f show ?thesis by blast
  next
    case False
    with that inv obtain f' t' where *: "f' < n" "t' \<in> set (es_succ st ! f')" "k = edge_key f' t'"
      unfolding edge_inv_def by (metis set_ConsD)
    then have "t' \<in> set (((es_succ st)[f := es_succ st ! f @ [t]]) ! f')" using S [of f'] by auto
    with * show ?thesis by blast
  qed
  show ?thesis
    unfolding edge_inv_def
    using inv f t fresh fresh' len S P keep
    by (auto simp: edge_inv_def)
qed

lemma add_edge_good:
  assumes "map_of index a = Some f" "map_of index b = Some t" "f \<noteq> t"
  shows "add_edge index st (a, b) =
     (if edge_key f t \<in> set (es_seen st) then st
      else st\<lparr>es_seen := edge_key f t # es_seen st,
               es_succ := (es_succ st)[f := es_succ st ! f @ [t]],
               es_pred := (es_pred st)[t := es_pred st ! t @ [f]]\<rparr>)"
  using assms by (simp add: add_edge_def)

lemma add_edge_bad:
  "\<not> edge_good index e \<Longrightarrow>
   es_succ (add_edge index st e) = es_succ st \<and> es_pred (add_edge index st e) = es_pred st \<and>
   es_seen (add_edge index st e) = es_seen st \<and>
   (\<exists>err. es_errors (add_edge index st e) = es_errors st @ [err])"
  by (auto simp: add_edge_def edge_good_def split: prod.splits option.splits)

lemma edge_inv_mono_R:
  "edge_inv n R st \<Longrightarrow> R \<subseteq> R' \<Longrightarrow> (\<forall>(f, t) \<in> R'. edge_key f t \<in> set (es_seen st)) \<Longrightarrow> edge_inv n R' st"
  unfolding edge_inv_def by blast

lemma add_edge_inv:
  assumes inv: "edge_inv n (idx_edges index es) st"
    and rng: "\<And>v i. map_of index v = Some i \<Longrightarrow> i < n"
  shows "edge_inv n (idx_edges index (es @ [e])) (add_edge index st e)"
proof (cases "edge_good index e")
  case False
  then have "idx_edges index (es @ [e]) = idx_edges index es"
    by (auto simp: idx_edges_def edge_good_def)
  with inv add_edge_bad [OF False, of st] show ?thesis by (simp add: edge_inv_def)
next
  case True
  then obtain a b f t where e: "e = (a, b)" and ft: "map_of index a = Some f" "map_of index b = Some t" "f \<noteq> t"
    by (cases e) (auto simp: edge_good_def)
  have R: "idx_edges index (es @ [e]) = insert (f, t) (idx_edges index es)"
    using e ft by (auto simp: idx_edges_def)
  show ?thesis
  proof (cases "edge_key f t \<in> set (es_seen st)")
    case True
    have "edge_inv n (insert (f, t) (idx_edges index es)) st"
      using inv True by (intro edge_inv_mono_R [OF inv]) (auto simp: edge_inv_def)
    with True R show ?thesis unfolding e by (simp add: add_edge_good [OF ft])
  next
    case False
    with edge_inv_insert [OF inv rng [OF ft(1)] rng [OF ft(2)] False] R show ?thesis
      unfolding e by (simp add: add_edge_good [OF ft])
  qed
qed

lemma foldl_add_edge_inv:
  assumes rng: "\<And>v i. map_of index v = Some i \<Longrightarrow> i < n"
  shows "edge_inv n (idx_edges index es0) st \<Longrightarrow>
         edge_inv n (idx_edges index (es0 @ es)) (foldl (add_edge index) st es)"
proof (induction es arbitrary: es0 st)
  case (Cons e es)
  from add_edge_inv [OF Cons.prems rng] Cons.IH [of "es0 @ [e]"] show ?case by simp
qed simp

lemma foldl_add_edge_errors:
  "es_errors (foldl (add_edge index) st es) = [] \<longleftrightarrow> es_errors st = [] \<and> (\<forall>e \<in> set es. edge_good index e)"
proof (induction es arbitrary: st)
  case (Cons e es)
  have "es_errors (add_edge index st e) = [] \<longleftrightarrow> es_errors st = [] \<and> edge_good index e"
  proof (cases "edge_good index e")
    case True
    then show ?thesis by (cases e) (auto simp: edge_good_def add_edge_good split: if_splits)
  next
    case False
    then show ?thesis using add_edge_bad [OF False, of st] by auto
  qed
  with Cons.IH show ?case by auto
qed simp

lemma add_edges_inv:
  assumes "\<And>v i. map_of index v = Some i \<Longrightarrow> i < n"
  shows "edge_inv n (idx_edges index es) (add_edges index n es)"
proof -
  have "idx_edges index [] = {}" by (simp add: idx_edges_def)
  with foldl_add_edge_inv [where index = index and n = n and ?es0.0 = "[]" and es = es, OF assms] edge_inv_init [of n] show ?thesis
    by (simp add: add_edges_def)
qed

text \<open>With 32-bit indices no edge is dropped: the successor lists list exactly the edges.\<close>

lemma add_edges_complete:
  assumes rng: "\<And>v i. map_of index v = Some i \<Longrightarrow> i < n" and small: "n \<le> 2 ^ 32"
  shows "dag_edges (es_succ (add_edges index n es)) = idx_edges index es"
proof -
  let ?st = "add_edges index n es" and ?R = "idx_edges index es"
  have inv: "edge_inv n ?R ?st" by (rule add_edges_inv [OF rng])
  then have len: "length (es_succ ?st) = n" by (simp add: edge_inv_def)
  have R_rng: "f < n \<and> t < n" if "(f, t) \<in> ?R" for f t
    using that rng by (auto simp: idx_edges_def)
  have "(f, t) \<in> dag_edges (es_succ ?st) \<longleftrightarrow> (f, t) \<in> ?R" for f t
  proof
    assume "(f, t) \<in> dag_edges (es_succ ?st)"
    then have "f < n" "t \<in> set (es_succ ?st ! f)" using len by (auto simp: succ_at_def split: if_splits)
    with inv show "(f, t) \<in> ?R" by (simp add: edge_inv_def)
  next
    assume R: "(f, t) \<in> ?R"
    with inv have "edge_key f t \<in> set (es_seen ?st)" by (auto simp: edge_inv_def)
    with inv obtain f' t' where *: "f' < n" "t' \<in> set (es_succ ?st ! f')" "edge_key f t = edge_key f' t'"
      unfolding edge_inv_def by metis
    moreover have "t' < n" using inv * by (auto simp: edge_inv_def)
    ultimately have "f = f' \<and> t = t'" using R_rng [OF R] small by (intro edge_key_inject) auto
    with * len show "(f, t) \<in> dag_edges (es_succ ?st)" by (simp add: succ_at_def)
  qed
  then show ?thesis by auto
qed

section \<open>The invariant of built graphs\<close>

definition dag_wf :: "Dag \<Rightarrow> bool" where
  "dag_wf g \<longleftrightarrow>
     (let n = length (g_nodes g) in
      distinct (g_nodes g) \<and> g_index g = zip (g_nodes g) [0..<n] \<and>
      length (g_succ g) = n \<and> length (g_pred g) = n \<and>
      (\<forall>i < n. distinct (g_succ g ! i) \<and> distinct (g_pred g ! i) \<and>
         set (g_succ g ! i) \<subseteq> {..<n} \<and> set (g_pred g ! i) \<subseteq> {..<n}) \<and>
      (\<forall>i < n. \<forall>j < n. j \<in> set (g_succ g ! i) \<longleftrightarrow> i \<in> set (g_pred g ! j)) \<and>
      acyclic (dag_edges (g_succ g)) \<and>
      g_in_degree g = map (\<lambda>i. length (g_pred g ! i)) [0..<n] \<and>
      g_roots g = map (id_at g) (filter (\<lambda>i. g_pred g ! i = []) [0..<n]) \<and>
      g_leaves g = map (id_at g) (filter (\<lambda>i. g_succ g ! i = []) [0..<n]) \<and>
      g_topo_order g = map (id_at g) (kahn (g_succ g) (g_in_degree g)) \<and>
      g_pred_ids g = map (\<lambda>i. map (id_at g) (g_pred g ! i)) [0..<n] \<and>
      g_succ_ids g = map (\<lambda>i. map (id_at g) (g_succ g ! i)) [0..<n])"

lemma dag_wfD:
  assumes "dag_wf g"
  shows "distinct (g_nodes g)" "g_index g = zip (g_nodes g) [0..<dag_size g]"
    "length (g_succ g) = dag_size g" "length (g_pred g) = dag_size g" "acyclic (dag_edges (g_succ g))"
    "g_in_degree g = map (\<lambda>i. length (g_pred g ! i)) [0..<dag_size g]"
    "g_topo_order g = map (id_at g) (kahn (g_succ g) (g_in_degree g))"
    "g_pred_ids g = map (\<lambda>i. map (id_at g) (g_pred g ! i)) [0..<dag_size g]"
    "g_succ_ids g = map (\<lambda>i. map (id_at g) (g_succ g ! i)) [0..<dag_size g]"
  using assms by (simp_all add: dag_wf_def dag_size_def Let_def)

lemma dag_wf_lists:
  assumes "dag_wf g" "i < dag_size g"
  shows "distinct (g_succ g ! i)" "distinct (g_pred g ! i)"
    "j \<in> set (g_succ g ! i) \<Longrightarrow> j < dag_size g" "j \<in> set (g_pred g ! i) \<Longrightarrow> j < dag_size g"
  using assms by (auto simp: dag_wf_def dag_size_def Let_def)

lemma succ_pred_iff:
  assumes "dag_wf g" "i < dag_size g" "j < dag_size g"
  shows "j \<in> set (g_succ g ! i) \<longleftrightarrow> i \<in> set (g_pred g ! j)"
  using assms by (simp add: dag_wf_def dag_size_def Let_def)

lemma build_Some:
  assumes "br_dag (build nodes edges) = Some g"
  shows "distinct nodes" "\<forall>e \<in> set edges. edge_good (zip nodes [0..<length nodes]) e"
    "find_cycle (es_succ (add_edges (zip nodes [0..<length nodes]) (length nodes) edges)) = []"
    "g = assemble nodes (zip nodes [0..<length nodes])
           (es_succ (add_edges (zip nodes [0..<length nodes]) (length nodes) edges))
           (es_pred (add_edges (zip nodes [0..<length nodes]) (length nodes) edges))"
proof -
  obtain index dups where idx: "index_nodes nodes 0 [] = (index, dups)" by fastforce
  with assms have nodup: "dups = []" by (auto simp: build_def split: if_splits)
  with idx index_nodes_ok [of nodes 0 "[]"] show d: "distinct nodes" by simp
  from idx nodup index_nodes_eq [of nodes 0 "[]"] have i: "index = zip nodes [0..<length nodes]" by simp
  from assms idx nodup i show "\<forall>e \<in> set edges. edge_good (zip nodes [0..<length nodes]) e"
    using foldl_add_edge_errors
    by (auto simp: build_def Let_def add_edges_def split: if_splits)
  from assms idx nodup i
  show "find_cycle (es_succ (add_edges (zip nodes [0..<length nodes]) (length nodes) edges)) = []"
    and "g = assemble nodes (zip nodes [0..<length nodes])
           (es_succ (add_edges (zip nodes [0..<length nodes]) (length nodes) edges))
           (es_pred (add_edges (zip nodes [0..<length nodes]) (length nodes) edges))"
    by (auto simp: build_def Let_def split: if_splits)
qed

lemma zip_index_range: "map_of (zip nodes [0..<length nodes]) v = Some i \<Longrightarrow> i < length nodes"
  by (auto dest!: map_of_SomeD simp: set_zip)

lemma edge_inv_in_range: "edge_inv n R st \<Longrightarrow> in_range (es_succ st)"
  unfolding edge_inv_def in_range_def by (metis in_set_conv_nth lessThan_iff subsetD)

lemma assemble_sel [simp]:
  "g_nodes (assemble nodes index succ pred) = nodes" "g_index (assemble nodes index succ pred) = index"
  "g_succ (assemble nodes index succ pred) = succ" "g_pred (assemble nodes index succ pred) = pred"
  by (simp_all add: assemble_def Let_def)

lemma build_wf:
  assumes b: "br_dag (build nodes edges) = Some g"
  shows "dag_wf g" "g_nodes g = nodes"
proof -
  let ?st = "add_edges (zip nodes [0..<length nodes]) (length nodes) edges"
  note B = build_Some [OF b]
  have inv: "edge_inv (length nodes) (idx_edges (zip nodes [0..<length nodes]) edges) ?st"
    by (rule add_edges_inv [OF zip_index_range])
  have "acyclic (dag_edges (es_succ ?st))"
    by (rule find_cycle_complete [OF B(3) edge_inv_in_range [OF inv]])
  with B(1) inv show "dag_wf g"
    unfolding B(4) by (simp add: dag_wf_def edge_inv_def Let_def assemble_def id_at_def [abs_def])
  from B(4) show "g_nodes g = nodes" by simp
qed

text \<open>Names and indices of a built graph correspond one to one.\<close>

lemma index_of_iff: "dag_wf g \<Longrightarrow> index_of g v = Some i \<longleftrightarrow> i < dag_size g \<and> id_at g i = v"
  using map_of_zip_upt [of "g_nodes g" v i] dag_wfD(1,2) [of g]
  by (simp add: index_of_def dag_size_def id_at_def)

lemma index_of_id_at [simp]: "dag_wf g \<Longrightarrow> i < dag_size g \<Longrightarrow> index_of g (id_at g i) = Some i"
  by (simp add: index_of_iff)

lemma id_at_inj: "dag_wf g \<Longrightarrow> i < dag_size g \<Longrightarrow> j < dag_size g \<Longrightarrow> id_at g i = id_at g j \<longleftrightarrow> i = j"
  using dag_wfD(1) [of g] by (simp add: id_at_def dag_size_def nth_eq_iff_index_eq)

lemma dag_wf_range: "dag_wf g \<Longrightarrow> in_range (g_succ g)"
  unfolding in_range_def by (metis dag_wfD(3) dag_wf_lists(3) in_set_conv_nth)

lemma dependents_ids:
  "dag_wf g \<Longrightarrow> i < dag_size g \<Longrightarrow> dependents g (id_at g i) = map (id_at g) (g_succ g ! i)"
  by (simp add: dependents_def dag_wfD(9))

lemma dependencies_ids:
  "dag_wf g \<Longrightarrow> i < dag_size g \<Longrightarrow> dependencies g (id_at g i) = map (id_at g) (g_pred g ! i)"
  by (simp add: dependencies_def dag_wfD(8))

lemma in_degree_length: "dag_wf g \<Longrightarrow> i < dag_size g \<Longrightarrow> g_in_degree g ! i = length (g_pred g ! i)"
  by (simp add: dag_wfD(6))

section \<open>What the builder accepts\<close>

lemma dag_edges_nth:
  "dag_wf g \<Longrightarrow> (i, j) \<in> dag_edges (g_succ g) \<longleftrightarrow> i < dag_size g \<and> j \<in> set (g_succ g ! i)"
  by (simp add: succ_at_def dag_wfD(3))

lemma zip_good_iff:
  assumes "distinct nodes"
  shows "edge_good (zip nodes [0..<length nodes]) (a, b) \<longleftrightarrow> a \<in> set nodes \<and> b \<in> set nodes \<and> a \<noteq> b"
  using map_of_zip_upt [OF assms] nth_eq_iff_index_eq [OF assms]
  by (auto simp: edge_good_def in_set_conv_nth)

text \<open>For good edges the index relation is the edge list with names replaced by positions.\<close>

lemma idx_edges_rename:
  assumes d: "distinct nodes" and good: "\<forall>e \<in> set edges. edge_good (zip nodes [0..<length nodes]) e"
  shows "map_prod ((!) nodes) ((!) nodes) ` idx_edges (zip nodes [0..<length nodes]) edges = set edges"
    (is "?f ` ?R = _")
proof
  show "?f ` ?R \<subseteq> set edges" using map_of_zip_upt [OF d] by (auto simp: idx_edges_def)
  show "set edges \<subseteq> ?f ` ?R"
  proof
    fix e
    assume e: "e \<in> set edges"
    with good obtain f t where ft: "map_of (zip nodes [0..<length nodes]) (fst e) = Some f"
      "map_of (zip nodes [0..<length nodes]) (snd e) = Some t" "f \<noteq> t" by (auto simp: edge_good_def)
    with e have "(f, t) \<in> ?R" by (auto simp: idx_edges_def intro!: bexI [of _ e])
    moreover have "e = ?f (f, t)"
      using map_of_zip_upt [OF d, of "fst e" f] map_of_zip_upt [OF d, of "snd e" t] ft
      by (cases e) simp
    ultimately show "e \<in> ?f ` ?R" by blast
  qed
qed

lemma idx_edges_range:
  "idx_edges (zip nodes [0..<length nodes]) edges \<subseteq> {..<length nodes} \<times> {..<length nodes}"
  by (auto simp: idx_edges_def dest: zip_index_range)

lemma nth_inj_on: "distinct nodes \<Longrightarrow> inj_on ((!) nodes) {..<length nodes}"
  by (auto simp: inj_on_def nth_eq_iff_index_eq)

lemma built_edges:
  assumes "br_dag (build nodes edges) = Some g" "length nodes \<le> 2 ^ 32"
  shows "map_prod (id_at g) (id_at g) ` dag_edges (g_succ g) = set edges"
    and "dag_edges (g_succ g) \<subseteq> {..<dag_size g} \<times> {..<dag_size g}"
    and "inj_on (id_at g) {..<dag_size g}"
proof -
  note B = build_Some [OF assms(1)]
  have eq: "dag_edges (g_succ g) = idx_edges (zip nodes [0..<length nodes]) edges"
    unfolding B(4) assemble_sel by (rule add_edges_complete [OF zip_index_range assms(2)])
  have idn: "id_at g = (!) nodes" "dag_size g = length nodes"
    using build_wf(2) [OF assms(1)] by (simp_all add: id_at_def [abs_def] dag_size_def)
  show "map_prod (id_at g) (id_at g) ` dag_edges (g_succ g) = set edges"
    unfolding eq idn by (rule idx_edges_rename [OF B(1,2)])
  show "dag_edges (g_succ g) \<subseteq> {..<dag_size g} \<times> {..<dag_size g}"
    unfolding eq idn by (rule idx_edges_range)
  show "inj_on (id_at g) {..<dag_size g}" unfolding idn by (rule nth_inj_on [OF B(1)])
qed

lemma build_ok_iff:
  assumes small: "length nodes \<le> 2 ^ 32"
  shows "br_ok (build nodes edges) \<longleftrightarrow>
     distinct nodes \<and> (\<forall>(a, b) \<in> set edges. a \<in> set nodes \<and> b \<in> set nodes \<and> a \<noteq> b) \<and>
     acyclic (set edges)"
proof
  assume "br_ok (build nodes edges)"
  then obtain g where g: "br_dag (build nodes edges) = Some g" by (auto simp: br_ok_def)
  note B = build_Some [OF g] and E = built_edges [OF g small]
  have "acyclic (set edges)"
    using acyclic_rename [OF E(3,2)] E(1) dag_wfD(5) [OF build_wf(1) [OF g]] by simp
  with B(1,2) zip_good_iff [OF B(1)] show "distinct nodes \<and>
      (\<forall>(a, b) \<in> set edges. a \<in> set nodes \<and> b \<in> set nodes \<and> a \<noteq> b) \<and> acyclic (set edges)" by blast
next
  assume rhs: "distinct nodes \<and> (\<forall>(a, b) \<in> set edges. a \<in> set nodes \<and> b \<in> set nodes \<and> a \<noteq> b) \<and>
     acyclic (set edges)"
  let ?idx = "zip nodes [0..<length nodes]"
  let ?st = "add_edges ?idx (length nodes) edges"
  have d: "distinct nodes" using rhs by blast
  have good: "\<forall>e \<in> set edges. edge_good ?idx e" using rhs zip_good_iff [OF d] by auto
  have idx: "index_nodes nodes 0 [] = (?idx, [])"
    using index_nodes_ok [of nodes 0 "[]"] index_nodes_eq [of nodes 0 "[]"] d
    by (metis append_Nil inf_bot_right list.map(1) list.set(1) plus_nat.add_0 prod.collapse)
  have errs: "es_errors ?st = []" using good by (simp add: add_edges_def foldl_add_edge_errors)
  have inv: "edge_inv (length nodes) (idx_edges ?idx edges) ?st"
    by (rule add_edges_inv [OF zip_index_range])
  have "acyclic (idx_edges ?idx edges)"
    using acyclic_rename [OF nth_inj_on [OF d] idx_edges_range] idx_edges_rename [OF d good] rhs by metis
  then have "find_cycle (es_succ ?st) = []"
    using find_cycle_iff [OF edge_inv_in_range [OF inv]] add_edges_complete [OF zip_index_range small]
    by simp
  with idx errs show "br_ok (build nodes edges)" by (simp add: build_def br_ok_def Let_def)
qed

text \<open>A graph or errors, never both and never neither.\<close>

lemma build_errors_iff: "br_dag (build nodes edges) = None \<longleftrightarrow> br_errors (build nodes edges) \<noteq> []"
  by (auto simp: build_def Let_def split: prod.splits)

lemma index_nodes_codes: "e \<in> set (snd (index_nodes vs i idx)) \<Longrightarrow> de_code e = kDuplicateNode"
  by (induction vs arbitrary: i idx) (auto simp: duplicate_error_def split_beta split: if_splits)

lemma add_edge_codes:
  "e \<in> set (es_errors (add_edge index st ed)) \<Longrightarrow> e \<in> set (es_errors st) \<or> de_code e \<noteq> kCycle"
  by (cases ed) (auto simp: add_edge_def unknown_error_def self_error_def split: option.splits if_splits)

lemma foldl_add_edge_codes:
  "e \<in> set (es_errors (foldl (add_edge index) st es)) \<Longrightarrow> e \<in> set (es_errors st) \<or> de_code e \<noteq> kCycle"
proof (induction es arbitrary: st)
  case (Cons ed es)
  then show ?case using add_edge_codes [of e index st ed] by (metis foldl_Cons)
qed simp

lemma add_edges_codes: "e \<in> set (es_errors (add_edges index n es)) \<Longrightarrow> de_code e \<noteq> kCycle"
  by (auto simp: add_edges_def dest: foldl_add_edge_codes)

text \<open>The reported cycle is a closed walk along dependencies of the pipeline.\<close>

lemma build_cycle_real:
  assumes err: "err \<in> set (br_errors (build nodes edges))" and code: "de_code err = kCycle"
  shows "2 \<le> length (de_cycle err) \<and> hd (de_cycle err) = last (de_cycle err) \<and>
    successively (\<lambda>a b. (a, b) \<in> set edges) (de_cycle err)"
proof -
  obtain index dups where idx: "index_nodes nodes 0 [] = (index, dups)" by fastforce
  let ?st = "add_edges index (length nodes) edges"
  let ?cyc = "find_cycle (es_succ ?st)"
  have nodup: "dups = []"
    using err code index_nodes_codes [of err nodes 0 "[]"] idx
    by (auto simp: build_def Let_def split: if_splits)
  with idx index_nodes_ok [of nodes 0 "[]"] index_nodes_eq [of nodes 0 "[]"]
  have d: "distinct nodes" and index: "index = zip nodes [0..<length nodes]" by simp_all
  have cyc: "?cyc \<noteq> []" "err = cycle_error nodes ?cyc"
    using err code idx nodup add_edges_codes [of err index "length nodes" edges]
    by (auto simp: build_def Let_def split: if_splits)
  have inv: "edge_inv (length nodes) (idx_edges index edges) ?st"
    unfolding index by (rule add_edges_inv [OF zip_index_range])
  have edge: "(nodes ! u, nodes ! v) \<in> set edges" if "(u, v) \<in> dag_edges (es_succ ?st)" for u v
  proof -
    from that inv have "(u, v) \<in> idx_edges index edges"
      by (auto simp: edge_inv_def succ_at_def split: if_splits)
    then show ?thesis using map_of_zip_upt [OF d] by (auto simp: idx_edges_def index)
  qed
  from find_cycle_sound [OF cyc(1)] have c: "is_cycle (dag_edges (es_succ ?st)) ?cyc" .
  have "successively (\<lambda>a b. (a, b) \<in> set edges) (map ((!) nodes) ?cyc)"
    unfolding successively_map using c edge
    by (auto simp: is_cycle_def intro: successively_mono)
  moreover have "de_cycle err = map ((!) nodes) ?cyc" unfolding cyc(2) by (simp add: cycle_error_def Let_def)
  ultimately show ?thesis using c cyc(1) by (simp add: is_cycle_def hd_map last_map)
qed

section \<open>The topological order\<close>

lemma open_deg_pred:
  assumes "dag_wf g" "v < dag_size g"
  shows "open_deg (g_succ g) {} v = length (g_pred g ! v)"
proof -
  let ?n = "dag_size g"
  have "open_deg (g_succ g) {} v = (\<Sum>u < ?n. if u \<in> set (g_pred g ! v) then 1 else 0)"
    unfolding open_deg_def dag_wfD(3) [OF assms(1)]
  proof (rule sum.cong)
    fix u
    assume "u \<in> {..<?n}"
    then have u: "u < ?n" by simp
    have "count_list (g_succ g ! u) v = (if v \<in> set (g_succ g ! u) then 1 else 0)"
      using dag_wf_lists(1) [OF assms(1) u] by (simp add: count_list_distinct)
    with u succ_pred_iff [OF assms(1) u assms(2)] dag_wfD(3) [OF assms(1)]
    show "count_list (succ_at (g_succ g) u) v = (if u \<in> set (g_pred g ! v) then 1 else 0)"
      by (simp add: succ_at_def)
  qed simp
  also have "\<dots> = card ({..<?n} \<inter> set (g_pred g ! v))" by (simp add: sum.If_cases Int_def)
  also have "{..<?n} \<inter> set (g_pred g ! v) = set (g_pred g ! v)"
    using dag_wf_lists(4) [OF assms] by auto
  finally show ?thesis using dag_wf_lists(2) [OF assms] by (simp add: distinct_card)
qed

lemma topo_idx:
  assumes wf: "dag_wf g"
  shows "distinct (kahn (g_succ g) (g_in_degree g))"
    "set (kahn (g_succ g) (g_in_degree g)) = {..<dag_size g}"
    "topo_prefix (g_succ g) (kahn (g_succ g) (g_in_degree g))"
  using kahn_correct [OF dag_wf_range [OF wf] dag_wfD(5) [OF wf], of "g_in_degree g"]
    in_degree_length [OF wf] open_deg_pred [OF wf] dag_wfD(3) [OF wf] by auto

lemma set_nodes: "set (g_nodes g) = id_at g ` {..<dag_size g}"
  by (auto simp: id_at_def dag_size_def set_conv_nth)

lemma topo_order_perm: "dag_wf g \<Longrightarrow> distinct (g_topo_order g) \<and> set (g_topo_order g) = set (g_nodes g)"
  using topo_idx [of g] id_at_inj [of g]
  by (auto simp: dag_wfD(7) distinct_map inj_on_def set_nodes)

lemma topo_order_edge:
  assumes wf: "dag_wf g" and e: "(i, j) \<in> dag_edges (g_succ g)"
  shows "\<exists>pre mid post. g_topo_order g = pre @ id_at g i # mid @ id_at g j # post"
proof -
  let ?k = "kahn (g_succ g) (g_in_degree g)"
  have "j < dag_size g" using dag_edges_range [OF dag_wf_range [OF wf] e] dag_wfD(3) [OF wf] by simp
  then obtain pre post where k: "?k = pre @ j # post"
    using topo_idx(2) [OF wf] by (metis lessThan_iff split_list)
  with topo_idx(3) [OF wf] e have "i \<in> set pre" unfolding topo_prefix_def by blast
  then obtain p m where "pre = p @ i # m" by (meson split_list)
  with k dag_wfD(7) [OF wf] show ?thesis by auto
qed

section \<open>Transitive dependents\<close>

lemma discover_spec:
  "discover xs seen new = (seen', new') \<Longrightarrow>
   (\<forall>v. seen' v \<longleftrightarrow> seen v \<or> v \<in> set xs) \<and>
   (\<exists>add. new' = new @ add \<and> distinct add \<and> set add = {v \<in> set xs. \<not> seen v})"
proof (induction xs arbitrary: seen new)
  case Nil
  then show ?case by simp
next
  case (Cons x xs)
  show ?case
  proof (cases "seen x")
    case True
    with Cons.IH [of seen new] Cons.prems show ?thesis by auto
  next
    case False
    with Cons.prems have "discover xs (seen(x := True)) (new @ [x]) = (seen', new')" by simp
    from Cons.IH [OF this] obtain add where
      seen': "\<forall>v. seen' v \<longleftrightarrow> (seen(x := True)) v \<or> v \<in> set xs" and
      add: "new' = (new @ [x]) @ add" "distinct add" "set add = {v \<in> set xs. \<not> (seen(x := True)) v}"
      by blast
    have "distinct (x # add)" "set (x # add) = {v \<in> set (x # xs). \<not> seen v}"
      using add False by auto
    with seen' add(1) show ?thesis by (auto intro!: exI [of _ "x # add"])
  qed
qed

definition bfs_inv :: "nat list list \<Rightarrow> nat \<Rightarrow> (nat \<Rightarrow> bool) \<Rightarrow> nat list \<Rightarrow> nat list \<Rightarrow> bool" where
  "bfs_inv succ start seen frontier hits \<longleftrightarrow>
     (\<forall>v. seen v \<longleftrightarrow> v = start \<or> v \<in> set hits) \<and> start \<notin> set hits \<and> distinct hits \<and>
     set frontier \<subseteq> insert start (set hits) \<and>
     (\<forall>v \<in> set hits. (start, v) \<in> (dag_edges succ)\<^sup>+) \<and>
     (\<forall>v. seen v \<longrightarrow> v \<notin> set frontier \<longrightarrow> (\<forall>w \<in> set (succ_at succ v). seen w))"

lemma bfs_inv_step:
  assumes inv: "bfs_inv succ start seen (node # frontier) hits"
    and d: "discover (succ_at succ node) seen [] = (seen', new)"
  shows "bfs_inv succ start seen' (frontier @ new) (hits @ new)"
proof -
  from discover_spec [OF d] have seen': "\<And>v. seen' v \<longleftrightarrow> seen v \<or> v \<in> set (succ_at succ node)"
    and new: "distinct new" "set new = {v \<in> set (succ_at succ node). \<not> seen v}" by auto
  have reach: "(start, v) \<in> (dag_edges succ)\<^sup>+" if "v \<in> set new" for v
  proof -
    from that new have e: "(node, v) \<in> dag_edges succ" by simp
    from inv consider "node = start" | "(start, node) \<in> (dag_edges succ)\<^sup>+" by (auto simp: bfs_inv_def)
    then show ?thesis using e by cases (auto intro: trancl_into_trancl)
  qed
  have I: "\<And>v. seen v \<longleftrightarrow> v = start \<or> v \<in> set hits" "start \<notin> set hits" "distinct hits"
    "set (node # frontier) \<subseteq> insert start (set hits)"
    "\<And>v. v \<in> set hits \<Longrightarrow> (start, v) \<in> (dag_edges succ)\<^sup>+"
    "\<And>v w. seen v \<Longrightarrow> v \<notin> set (node # frontier) \<Longrightarrow> w \<in> set (succ_at succ v) \<Longrightarrow> seen w"
    using inv unfolding bfs_inv_def by blast+
  have closed: "seen' w" if "seen' v" "v \<notin> set (frontier @ new)" "w \<in> set (succ_at succ v)" for v w
  proof (cases "v = node")
    case True
    with that(3) seen' show ?thesis by simp
  next
    case False
    from that(1,2) new(2) seen' have "seen v" by auto
    with False that I(6) [of v w] seen' show ?thesis by simp
  qed
  have "\<And>v. seen' v \<longleftrightarrow> v = start \<or> v \<in> set (hits @ new)" using seen' new(2) I(1) by auto
  moreover have "start \<notin> set (hits @ new)" "distinct (hits @ new)"
    using I(1,2,3) new by auto
  moreover have "set (frontier @ new) \<subseteq> insert start (set (hits @ new))" using I(4) by auto
  ultimately show ?thesis using reach I(5) closed unfolding bfs_inv_def by (metis UnE set_append)
qed

lemma bfs_loop_correct:
  "bfs_inv succ start seen frontier hits \<Longrightarrow>
   \<exists>seen'. bfs_inv succ start seen' [] (bfs_loop succ seen frontier hits)"
proof (induction succ seen frontier hits rule: bfs_loop.induct)
  case (1 succ seen hits)
  then show ?case by auto
next
  case (2 succ seen node frontier hits)
  obtain seen' new where d: "discover (succ_at succ node) seen [] = (seen', new)" by fastforce
  with 2 bfs_inv_step [OF "2.prems" d] show ?case by auto
qed

lemma bfs_reach:
  fixes start :: nat
  assumes "acyclic (dag_edges succ)"
  defines "hits \<equiv> bfs_loop succ ((\<lambda>_. False)(start := True)) [start] []"
  shows "distinct hits" "set hits = {v. (start, v) \<in> (dag_edges succ)\<^sup>+}"
proof -
  have "bfs_inv succ start ((\<lambda>_. False)(start := True)) [start] []" by (auto simp: bfs_inv_def)
  from bfs_loop_correct [OF this] obtain seen where inv: "bfs_inv succ start seen [] hits"
    by (auto simp: hits_def)
  then show "distinct hits" by (simp add: bfs_inv_def)
  have "seen v" if "(start, v) \<in> (dag_edges succ)\<^sup>+" for v
    using that by (induction rule: trancl_induct) (use inv in \<open>auto simp: bfs_inv_def\<close>)
  then show "set hits = {v. (start, v) \<in> (dag_edges succ)\<^sup>+}"
    using inv assms(1) by (auto simp: bfs_inv_def acyclic_def)
qed

text \<open>A sorted list of distinct indices below \<open>n\<close> is a filter of the index range.\<close>

lemma sort_eq_filter_upt:
  assumes "distinct xs" "set xs \<subseteq> {..<n}"
  shows "sort xs = filter (\<lambda>i. i \<in> set xs) [0..<n]"
proof (rule sorted_distinct_set_unique)
  show "set (sort xs) = set (filter (\<lambda>i. i \<in> set xs) [0..<n])" using assms(2) by auto
qed (use assms in \<open>auto intro: sorted_wrt_filter\<close>)

lemma transitive_dependents_idx:
  assumes wf: "dag_wf g"
  shows "transitive_dependents g v =
    filter (\<lambda>w. \<exists>i j. index_of g v = Some i \<and> index_of g w = Some j \<and> (i, j) \<in> (dag_edges (g_succ g))\<^sup>+)
      (g_nodes g)"
proof (cases "index_of g v")
  case None
  then show ?thesis by (simp add: transitive_dependents_def)
next
  case (Some i)
  let ?E = "dag_edges (g_succ g)" and ?n = "dag_size g"
  let ?hits = "bfs_loop (g_succ g) ((\<lambda>_. False)(i := True)) [i] []"
  note hits = bfs_reach [OF dag_wfD(5) [OF wf], of i]
  have "j < ?n" if "(i, j) \<in> ?E\<^sup>+" for j
    using that dag_edges_range [OF dag_wf_range [OF wf]] dag_wfD(3) [OF wf]
    by (auto elim: tranclE)
  then have "set ?hits \<subseteq> {..<?n}" using hits(2) by auto
  then have "transitive_dependents g v = map (id_at g) (filter (\<lambda>j. (i, j) \<in> ?E\<^sup>+) [0..<?n])"
    using Some hits by (simp add: transitive_dependents_def sort_eq_filter_upt id_at_def [abs_def])
  also have "\<dots> = map (id_at g) (filter (\<lambda>j. \<exists>k. index_of g (id_at g j) = Some k \<and> (i, k) \<in> ?E\<^sup>+) [0..<?n])"
    using wf by (auto intro!: arg_cong [of _ _ "map (id_at g)"] filter_cong)
  also have "\<dots> = filter (\<lambda>w. \<exists>k. index_of g w = Some k \<and> (i, k) \<in> ?E\<^sup>+) (map (id_at g) [0..<?n])"
    by (simp add: filter_map o_def)
  also have "map (id_at g) [0..<?n] = g_nodes g" by (simp add: id_at_def [abs_def] dag_size_def map_nth)
  finally show ?thesis using Some by simp
qed

end
