(* ===== verification/Ready_Queue.thy ===== *)
theory Ready_Queue
  imports Domain
begin

text \<open>
  The scheduling policy and the ready queue of \<^verbatim>\<open>src/src/core/scheduler\<close>
  (\<^verbatim>\<open>scheduling_policy.cpp\<close>, \<^verbatim>\<open>ready_queue.cpp\<close>). The locale \<open>scheduling_policy\<close>
  is the documented requirement on \<^verbatim>\<open>SchedulingPolicy::prefer\<close>, a strict weak ordering;
  the queue lemmas are proved from it and hold for the default policy by interpretation.
\<close>

section \<open>Entries and the default policy\<close>

record ReadyEntry =
  re_node :: nat
  re_task_id :: TaskId
  re_priority :: int
  re_ready_since :: TimePoint

type_synonym policy = "ReadyEntry \<Rightarrow> ReadyEntry \<Rightarrow> bool"

definition default_prefer :: policy where
  "default_prefer a b =
     (if re_priority a \<noteq> re_priority b then re_priority a > re_priority b
      else if re_ready_since a \<noteq> re_ready_since b then re_ready_since a < re_ready_since b
      else re_task_id a < re_task_id b)"

section \<open>The queue\<close>

text \<open>\<^verbatim>\<open>push\<close>: insert before the first entry the new one is preferred over.\<close>

fun push :: "policy \<Rightarrow> ReadyEntry \<Rightarrow> ReadyEntry list \<Rightarrow> ReadyEntry list" where
  "push pref entry [] = [entry]"
| "push pref entry (existing # es) =
     (if pref entry existing then entry # existing # es else existing # push pref entry es)"

text \<open>\<^verbatim>\<open>pop_best\<close> has the precondition that the queue is not empty.\<close>

fun pop_best :: "ReadyEntry list \<Rightarrow> (ReadyEntry \<times> ReadyEntry list) option" where
  "pop_best [] = None"
| "pop_best (e # es) = Some (e, es)"

definition erase_at :: "nat \<Rightarrow> ReadyEntry list \<Rightarrow> ReadyEntry list" where
  "erase_at idx q = (if idx < length q then take idx q @ drop (Suc idx) q else q)"

fun remove_id :: "TaskId \<Rightarrow> ReadyEntry list \<Rightarrow> bool \<times> ReadyEntry list" where
  "remove_id i [] = (False, [])"
| "remove_id i (e # es) =
     (if re_task_id e = i then (True, es)
      else let (found, es') = remove_id i es in (found, e # es'))"

text \<open>\<^verbatim>\<open>drain\<close> calls the function on each entry in order and empties the queue.\<close>

definition drain :: "(ReadyEntry \<Rightarrow> 's \<Rightarrow> 's) \<Rightarrow> ReadyEntry list \<Rightarrow> 's \<Rightarrow> ReadyEntry list \<times> 's" where
  "drain fn q s = ([], foldl (\<lambda>s e. fn e s) s q)"

section \<open>Queue order from the policy\<close>

text \<open>Best-first order: no entry is preferred over one that stands before it.\<close>

definition queue_sorted :: "policy \<Rightarrow> ReadyEntry list \<Rightarrow> bool" where
  "queue_sorted pref q \<longleftrightarrow> sorted_wrt (\<lambda>a b. \<not> pref b a) q"

lemma mset_push [simp]: "mset (push pref e q) = add_mset e (mset q)"
  by (induction q) auto

lemma set_push [simp]: "set (push pref e q) = insert e (set q)"
  by (induction q) auto

lemma length_push [simp]: "length (push pref e q) = Suc (length q)"
  by (induction q) auto

lemma push_nonempty [simp]: "push pref e q \<noteq> []"
  by (cases q) auto

lemma remove_id_snd_subset: "set (snd (remove_id i q)) \<subseteq> set q"
  by (induction q) (auto simp: split_beta split: if_splits)

lemma remove_id_found: "fst (remove_id i q) \<longleftrightarrow> i \<in> re_task_id ` set q"
  by (induction q) (auto simp: split_beta)

lemma remove_id_absent: "i \<notin> re_task_id ` set q \<Longrightarrow> snd (remove_id i q) = q"
  by (induction q) (auto simp: split_beta)

lemma remove_id_length:
  "length (snd (remove_id i q)) = (if i \<in> re_task_id ` set q then length q - 1 else length q)"
proof (induction q)
  case (Cons e q)
  then show ?case by (cases q) (auto simp: split_beta)
qed simp

lemma remove_id_distinct:
  "distinct (map re_task_id q) \<Longrightarrow> snd (remove_id i q) = filter (\<lambda>e. re_task_id e \<noteq> i) q"
proof (induction q)
  case (Cons e q)
  show ?case
  proof (cases "re_task_id e = i")
    case True
    with Cons.prems have "i \<notin> re_task_id ` set q" by auto
    then have "\<forall>x \<in> set q. re_task_id x \<noteq> i" by blast
    with True show ?thesis by (simp add: filter_True)
  next
    case False
    with Cons show ?thesis by (simp add: split_beta)
  qed
qed simp

locale scheduling_policy =
  fixes pref :: policy
  assumes prefer_irrefl: "\<not> pref a a"
    and prefer_trans: "pref a b \<Longrightarrow> pref b c \<Longrightarrow> pref a c"
    and prefer_weak: "\<not> pref a b \<Longrightarrow> \<not> pref b c \<Longrightarrow> \<not> pref a c"
begin

lemma prefer_asym: "pref a b \<Longrightarrow> \<not> pref b a"
  using prefer_irrefl prefer_trans by blast

lemma push_sorted: "queue_sorted pref q \<Longrightarrow> queue_sorted pref (push pref e q)"
proof (induction q)
  case Nil
  then show ?case by (simp add: queue_sorted_def)
next
  case (Cons x q)
  show ?case
  proof (cases "pref e x")
    case True
    have "\<not> pref y e" if "y \<in> set (x # q)" for y
    proof -
      have "\<not> pref y x"
        using Cons.prems that prefer_irrefl by (auto simp: queue_sorted_def)
      with True show ?thesis using prefer_trans by blast
    qed
    with True Cons.prems show ?thesis by (simp add: queue_sorted_def)
  next
    case False
    with Cons show ?thesis by (auto simp: queue_sorted_def)
  qed
qed

text \<open>The new entry goes behind everything it is not preferred over: ties stay first-come first-served.\<close>

lemma push_position:
  assumes "queue_sorted pref q"
  obtains before after where "q = before @ after" "push pref e q = before @ e # after"
    "\<forall>x \<in> set before. \<not> pref e x" "\<forall>x \<in> set after. pref e x"
  using assms
proof (induction q arbitrary: thesis)
  case Nil
  then show ?case by auto
next
  case (Cons x q)
  show ?case
  proof (cases "pref e x")
    case True
    have "pref e y" if "y \<in> set q" for y
      using Cons.prems(2) that True prefer_weak by (auto simp: queue_sorted_def)
    with True show ?thesis by (intro Cons.prems(1) [of "[]" "x # q"]) auto
  next
    case False
    from Cons.prems(2) have "queue_sorted pref q" by (simp add: queue_sorted_def)
    then obtain before after where "q = before @ after" "push pref e q = before @ e # after"
      "\<forall>x \<in> set before. \<not> pref e x" "\<forall>x \<in> set after. pref e x"
      using Cons.IH by blast
    with False show ?thesis by (intro Cons.prems(1) [of "x # before" after]) auto
  qed
qed

lemma best_first: "queue_sorted pref q \<Longrightarrow> pop_best q = Some (b, r) \<Longrightarrow>
    queue_sorted pref r \<and> (\<forall>x \<in> set r. \<not> pref x b)"
  by (cases q) (auto simp: queue_sorted_def)

end

lemma queue_sorted_remove: "queue_sorted pref q \<Longrightarrow> queue_sorted pref (snd (remove_id i q))"
proof (induction q)
  case (Cons e q)
  then show ?case
    using remove_id_snd_subset [of i q] by (auto simp: queue_sorted_def split_beta)
qed simp

lemma queue_sorted_erase_at:
  assumes "queue_sorted pref q"
  shows "queue_sorted pref (erase_at k q)"
proof -
  have "queue_sorted pref (take k q @ drop k q)" using assms by simp
  then have "queue_sorted pref (take k q @ drop (Suc 0) (drop k q))"
    unfolding queue_sorted_def sorted_wrt_append
    by (auto intro: sorted_wrt_drop dest: in_set_dropD simp del: drop_drop)
  with assms show ?thesis by (simp add: erase_at_def)
qed

interpretation dflt: scheduling_policy default_prefer
proof unfold_locales
  fix a b c
  show "\<not> default_prefer a a" by (simp add: default_prefer_def)
  show "default_prefer a b \<Longrightarrow> default_prefer b c \<Longrightarrow> default_prefer a c"
    by (auto simp: default_prefer_def split: if_splits)
  show "\<not> default_prefer a b \<Longrightarrow> \<not> default_prefer b c \<Longrightarrow> \<not> default_prefer a c"
    by (auto simp: default_prefer_def split: if_splits)
qed

text \<open>The id tie-break makes the order total on entries of different tasks: it never depends on arrival.\<close>

lemma default_prefer_total: "re_task_id a \<noteq> re_task_id b \<Longrightarrow> default_prefer a b \<or> default_prefer b a"
  by (auto simp: default_prefer_def)

end
