(* ===== verification/Resource_Pool.thy ===== *)
theory Resource_Pool
  imports Domain
begin

text \<open>
  The runtime resource arbiter of \<^verbatim>\<open>src/src/core/resources/resource_pool.cpp\<close>. Its
  mutex makes every call atomic, so each operation is a function on the pool's fields.
  The locale \<open>resource_arbiter\<close> states the contract the scheduler relies on; its lemmas
  account for a multiset of reservations held at the same time.
\<close>

section \<open>The pool\<close>

record ResourcePool =
  rp_capacity :: ResourceCapacity
  used_cpu :: int
  used_memory_mb :: int
  used_gpu :: int

definition mk_ResourcePool :: "ResourceCapacity \<Rightarrow> ResourcePool" where
  "mk_ResourcePool capacity = \<lparr>rp_capacity = capacity, used_cpu = 0, used_memory_mb = 0, used_gpu = 0\<rparr>"

definition try_reserve :: "ResourcePool \<Rightarrow> ResourceRequirements \<Rightarrow> bool \<times> ResourcePool" where
  "try_reserve p req =
     (let fits = used_cpu p + cpu_cores req \<le> total_cpu_cores (rp_capacity p) \<and>
                 used_memory_mb p + memory_mb req \<le> total_memory_mb (rp_capacity p) \<and>
                 used_gpu p + gpu_count req \<le> total_gpu_count (rp_capacity p)
      in if \<not> fits then (False, p)
         else (True, p\<lparr>used_cpu := used_cpu p + cpu_cores req,
                        used_memory_mb := used_memory_mb p + memory_mb req,
                        used_gpu := used_gpu p + gpu_count req\<rparr>))"

definition release :: "ResourcePool \<Rightarrow> ResourceRequirements \<Rightarrow> ResourcePool" where
  "release p req =
     p\<lparr>used_cpu := max 0 (used_cpu p - cpu_cores req),
       used_memory_mb := max 0 (used_memory_mb p - memory_mb req),
       used_gpu := max 0 (used_gpu p - gpu_count req)\<rparr>"

definition can_ever_fit :: "ResourcePool \<Rightarrow> ResourceRequirements \<Rightarrow> bool" where
  "can_ever_fit p req = fits_within req (rp_capacity p)"

definition available :: "ResourcePool \<Rightarrow> ResourceCapacity" where
  "available p =
     \<lparr>total_cpu_cores = total_cpu_cores (rp_capacity p) - used_cpu p,
      total_memory_mb = total_memory_mb (rp_capacity p) - used_memory_mb p,
      total_gpu_count = total_gpu_count (rp_capacity p) - used_gpu p\<rparr>"

definition describe_pool :: "ResourcePool \<Rightarrow> string" where
  "describe_pool p =
     ''cpu '' @ to_string_int (used_cpu p) @ ''/'' @ to_string_int (total_cpu_cores (rp_capacity p)) @
     '', mem '' @ to_string_int (used_memory_mb p) @ ''/'' @
     to_string_int (total_memory_mb (rp_capacity p)) @ ''MB, gpu '' @ to_string_int (used_gpu p) @
     ''/'' @ to_string_int (total_gpu_count (rp_capacity p)) @ '' in use''"

section \<open>The contract\<close>

text \<open>The three budgets, so that the contract can quantify over them.\<close>

datatype Budget = Cpu | Memory | Gpu

fun used :: "ResourcePool \<Rightarrow> Budget \<Rightarrow> int" where
  "used p Cpu = used_cpu p"
| "used p Memory = used_memory_mb p"
| "used p Gpu = used_gpu p"

fun need :: "ResourceRequirements \<Rightarrow> Budget \<Rightarrow> int" where
  "need r Cpu = cpu_cores r"
| "need r Memory = memory_mb r"
| "need r Gpu = gpu_count r"

fun cap :: "ResourcePool \<Rightarrow> Budget \<Rightarrow> int" where
  "cap p Cpu = total_cpu_cores (rp_capacity p)"
| "cap p Memory = total_memory_mb (rp_capacity p)"
| "cap p Gpu = total_gpu_count (rp_capacity p)"

lemma all_Budget: "(\<forall>b. P b) \<longleftrightarrow> P Cpu \<and> P Memory \<and> P Gpu"
  by (metis Budget.exhaust)

locale resource_arbiter =
  fixes reserve :: "'p \<Rightarrow> 'r \<Rightarrow> bool \<times> 'p"
    and give_back :: "'p \<Rightarrow> 'r \<Rightarrow> 'p"
    and used_of :: "'p \<Rightarrow> 'b \<Rightarrow> int"
    and need_of :: "'r \<Rightarrow> 'b \<Rightarrow> int"
    and cap_of :: "'p \<Rightarrow> 'b \<Rightarrow> int"
  assumes reserve_iff: "fst (reserve p r) \<longleftrightarrow> (\<forall>b. used_of p b + need_of r b \<le> cap_of p b)"
    and reserve_used: "fst (reserve p r) \<Longrightarrow> used_of (snd (reserve p r)) b = used_of p b + need_of r b"
    and reserve_fail: "\<not> fst (reserve p r) \<Longrightarrow> snd (reserve p r) = p"
    and reserve_cap: "cap_of (snd (reserve p r)) b = cap_of p b"
    and give_back_used: "used_of (give_back p r) b = max 0 (used_of p b - need_of r b)"
    and give_back_cap: "cap_of (give_back p r) b = cap_of p b"
begin

text \<open>The pool accounts for exactly the reservations in the multiset \<open>M\<close>.\<close>

definition accounts :: "'p \<Rightarrow> 'r multiset \<Rightarrow> bool" where
  "accounts p M \<longleftrightarrow> (\<forall>b. used_of p b = (\<Sum>r \<in># M. need_of r b))"

definition nonneg :: "'r \<Rightarrow> bool" where
  "nonneg r \<longleftrightarrow> (\<forall>b. 0 \<le> need_of r b)"

lemma accounts_reserve:
  "accounts p M \<Longrightarrow> fst (reserve p r) \<Longrightarrow> accounts (snd (reserve p r)) (add_mset r M)"
  by (simp add: accounts_def reserve_used)

lemma sum_nonneg: "(\<And>r. r \<in># M \<Longrightarrow> nonneg r) \<Longrightarrow> 0 \<le> (\<Sum>r \<in># M. need_of r b)"
  by (induction M) (auto simp: nonneg_def)

lemma accounts_give_back:
  assumes acc: "accounts p M" and r: "r \<in># M" and nn: "\<And>r. r \<in># M \<Longrightarrow> nonneg r"
  shows "accounts (give_back p r) (M - {#r#})"
proof -
  obtain N where M: "M = add_mset r N" using r by (meson multi_member_split)
  have "0 \<le> (\<Sum>r \<in># N. need_of r b)" for b using nn M by (intro sum_nonneg) auto
  with acc M show ?thesis by (simp add: accounts_def give_back_used)
qed

text \<open>Nothing is reserved beyond capacity, and with nothing held only an oversized request fails.\<close>

lemma reserve_within: "fst (reserve p r) \<Longrightarrow> used_of (snd (reserve p r)) b \<le> cap_of (snd (reserve p r)) b"
  using reserve_iff reserve_used reserve_cap by simp

lemma idle_reserve_fails_iff:
  "accounts p {#} \<Longrightarrow> \<not> fst (reserve p r) \<longleftrightarrow> (\<exists>b. cap_of p b < need_of r b)"
  by (auto simp: accounts_def reserve_iff not_le)

lemma reserve_give_back:
  assumes "fst (reserve p r)" "\<And>b. 0 \<le> used_of p b"
  shows "used_of (give_back (snd (reserve p r)) r) b = used_of p b"
  using assms by (simp add: give_back_used reserve_used)

end

interpretation rp: resource_arbiter try_reserve release used need cap
proof unfold_locales
  fix p r
  show "fst (try_reserve p r) \<longleftrightarrow> (\<forall>b. used p b + need r b \<le> cap p b)"
    by (auto simp: try_reserve_def Let_def all_Budget)
next
  fix p r b
  assume "fst (try_reserve p r)"
  then show "used (snd (try_reserve p r)) b = used p b + need r b"
    by (cases b) (auto simp: try_reserve_def Let_def split: if_splits)
next
  fix p r
  assume "\<not> fst (try_reserve p r)"
  then show "snd (try_reserve p r) = p" by (auto simp: try_reserve_def Let_def)
next
  fix p r b
  show "cap (snd (try_reserve p r)) b = cap p b" by (cases b) (simp_all add: try_reserve_def Let_def)
  show "used (release p r) b = max 0 (used p b - need r b)" by (cases b) (simp_all add: release_def)
  show "cap (release p r) b = cap p b" by (cases b) (simp_all add: release_def)
qed

lemma can_ever_fit_iff: "can_ever_fit p r \<longleftrightarrow> (\<forall>b. need r b \<le> cap p b)"
  by (auto simp: can_ever_fit_def fits_within_def all_Budget)

lemma accounts_init: "rp.accounts (mk_ResourcePool c) {#}"
  unfolding rp.accounts_def
proof
  fix b
  show "used (mk_ResourcePool c) b = (\<Sum>r \<in># {#}. need r b)"
    by (cases b) (simp_all add: mk_ResourcePool_def)
qed

section \<open>Machine width\<close>

text \<open>
  The sums of \<^verbatim>\<open>try_reserve\<close> are computed in \<^verbatim>\<open>int\<close> and \<^verbatim>\<open>std::int64_t\<close>. With
  the pool inside its capacity and the request within it too, they stay inside the type as
  long as the capacity is at most half its range.
\<close>

definition int_max :: int where "int_max = 2 ^ 31 - 1"
definition int64_max :: int where "int64_max = 2 ^ 63 - 1"

fun width_max :: "Budget \<Rightarrow> int" where
  "width_max Memory = int64_max"
| "width_max _ = int_max"

lemma reserve_sum_fits:
  assumes "used p b \<le> cap p b" "need r b \<le> cap p b" "cap p b \<le> width_max b div 2"
  shows "used p b + need r b \<le> width_max b"
  using assms by linarith

end
