(* ===== verification/Sha256.thy ===== *)
theory Sha256
  imports FF_Prelude "HOL-Library.Word" "HOL-Library.Monad_Syntax"
begin

text \<open>
  The streaming hash of \<^verbatim>\<open>src/src/core/util/sha256.cpp\<close> on 32-bit words. Below the
  operations, the digest is shown to be the one of the standard's definition (pad the whole
  message, fold the compression function over its blocks), whatever pieces the message
  arrives in; the two loops, whose ends depend on the buffer fill, are shown to return.
\<close>

unbundle bit_operations_syntax

type_synonym byte = "8 word"

section \<open>Constants and state\<close>

definition kK :: "32 word list" where
  "kK =
     [0x428a2f98, 0x71374491, 0xb5c0fbcf, 0xe9b5dba5, 0x3956c25b, 0x59f111f1, 0x923f82a4] @
     [0xab1c5ed5, 0xd807aa98, 0x12835b01, 0x243185be, 0x550c7dc3, 0x72be5d74, 0x80deb1fe] @
     [0x9bdc06a7, 0xc19bf174, 0xe49b69c1, 0xefbe4786, 0x0fc19dc6, 0x240ca1cc, 0x2de92c6f] @
     [0x4a7484aa, 0x5cb0a9dc, 0x76f988da, 0x983e5152, 0xa831c66d, 0xb00327c8, 0xbf597fc7] @
     [0xc6e00bf3, 0xd5a79147, 0x06ca6351, 0x14292967, 0x27b70a85, 0x2e1b2138, 0x4d2c6dfc] @
     [0x53380d13, 0x650a7354, 0x766a0abb, 0x81c2c92e, 0x92722c85, 0xa2bfe8a1, 0xa81a664b] @
     [0xc24b8b70, 0xc76c51a3, 0xd192e819, 0xd6990624, 0xf40e3585, 0x106aa070, 0x19a4c116] @
     [0x1e376c08, 0x2748774c, 0x34b0bcb5, 0x391c0cb3, 0x4ed8aa4a, 0x5b9cca4f, 0x682e6ff3] @
     [0x748f82ee, 0x78a5636f, 0x84c87814, 0x8cc70208, 0x90befffa, 0xa4506ceb, 0xbef9a3f7] @
     [0xc67178f2]"

definition rotr :: "32 word \<Rightarrow> nat \<Rightarrow> 32 word" where
  "rotr x n = drop_bit n x OR push_bit (32 - n) x"

record Sha256 =
  sha_state :: "32 word list"   \<comment> \<open>8 words\<close>
  sha_buffer :: "byte list"     \<comment> \<open>64 bytes\<close>
  sha_bit_len :: "64 word"
  sha_buffer_len :: nat

definition sha_initial :: "32 word list" where
  "sha_initial = [0x6a09e667, 0xbb67ae85, 0x3c6ef372, 0xa54ff53a,
                  0x510e527f, 0x9b05688c, 0x1f83d9ab, 0x5be0cd19]"

definition reset :: "Sha256 \<Rightarrow> Sha256" where
  "reset s = s\<lparr>sha_state := sha_initial, sha_bit_len := 0, sha_buffer_len := 0\<rparr>"

text \<open>The constructor: value-initialised members, then \<^verbatim>\<open>reset\<close>.\<close>

definition Sha256_new :: Sha256 where
  "Sha256_new = reset \<lparr>sha_state = replicate 8 0, sha_buffer = replicate 64 0,
                        sha_bit_len = 0, sha_buffer_len = 0\<rparr>"

section \<open>The compression function\<close>

definition load_word :: "byte list \<Rightarrow> nat \<Rightarrow> 32 word" where
  "load_word block i =
     push_bit 24 (ucast (block ! (i * 4))) OR push_bit 16 (ucast (block ! (i * 4 + 1))) OR
     push_bit 8 (ucast (block ! (i * 4 + 2))) OR ucast (block ! (i * 4 + 3))"

definition schedule_step :: "32 word list \<Rightarrow> nat \<Rightarrow> 32 word list" where
  "schedule_step w i =
     (let s0 = rotr (w ! (i - 15)) 7 XOR rotr (w ! (i - 15)) 18 XOR drop_bit 3 (w ! (i - 15));
          s1 = rotr (w ! (i - 2)) 17 XOR rotr (w ! (i - 2)) 19 XOR drop_bit 10 (w ! (i - 2))
      in w @ [w ! (i - 16) + s0 + w ! (i - 7) + s1])"

definition schedule :: "byte list \<Rightarrow> 32 word list" where
  "schedule block = foldl schedule_step (map (load_word block) [0..<16]) [16..<64]"

type_synonym sha_vars =
  "32 word \<times> 32 word \<times> 32 word \<times> 32 word \<times> 32 word \<times> 32 word \<times> 32 word \<times> 32 word"

fun round_step :: "sha_vars \<Rightarrow> 32 word \<times> 32 word \<Rightarrow> sha_vars" where
  "round_step (a, b, c, d, e, f, g, h) (k, w) =
     (let s1 = rotr e 6 XOR rotr e 11 XOR rotr e 25;
          ch = (e AND f) XOR (NOT e AND g);
          t1 = h + s1 + ch + k + w;
          s0 = rotr a 2 XOR rotr a 13 XOR rotr a 22;
          maj = (a AND b) XOR (a AND c) XOR (b AND c);
          t2 = s0 + maj
      in (t1 + t2, a, b, c, d + t1, e, f, g))"

definition compress :: "32 word list \<Rightarrow> byte list \<Rightarrow> 32 word list" where
  "compress st block =
     (case foldl round_step (st ! 0, st ! 1, st ! 2, st ! 3, st ! 4, st ! 5, st ! 6, st ! 7)
             (zip kK (schedule block)) of
        (a, b, c, d, e, f, g, h) \<Rightarrow>
          [st ! 0 + a, st ! 1 + b, st ! 2 + c, st ! 3 + d, st ! 4 + e, st ! 5 + f, st ! 6 + g, st ! 7 + h])"

definition process_block :: "Sha256 \<Rightarrow> byte list \<Rightarrow> Sha256" where
  "process_block s block = s\<lparr>sha_state := compress (sha_state s) block\<rparr>"

section \<open>Streaming\<close>

definition memcpy :: "byte list \<Rightarrow> nat \<Rightarrow> byte list \<Rightarrow> byte list" where
  "memcpy dst off src = take off dst @ src @ drop (off + length src) dst"

text \<open>With a full buffer the source's loop would copy nothing and never end, hence \<open>option\<close>.\<close>

partial_function (option) update_loop :: "Sha256 \<Rightarrow> byte list \<Rightarrow> Sha256 option" where
  [code]: "update_loop s bytes =
     (if bytes = [] then Some s
      else let n = min (length bytes) (64 - sha_buffer_len s);
               s1 = s\<lparr>sha_buffer := memcpy (sha_buffer s) (sha_buffer_len s) (take n bytes),
                      sha_buffer_len := sha_buffer_len s + n\<rparr>;
               s2 = (if sha_buffer_len s1 = 64
                     then (process_block s1 (sha_buffer s1))\<lparr>sha_buffer_len := 0\<rparr> else s1)
           in update_loop s2 (drop n bytes))"

definition update :: "Sha256 \<Rightarrow> byte list \<Rightarrow> Sha256 option" where
  "update s bytes =
     update_loop (s\<lparr>sha_bit_len := sha_bit_len s + of_nat (length bytes) * 8\<rparr>) bytes"

partial_function (option) pad_loop :: "Sha256 \<Rightarrow> Sha256 option" where
  [code]: "pad_loop s =
     (if sha_buffer_len s = 56 then Some s
      else Option.bind (update s [0x00]) pad_loop)"

definition len_be :: "64 word \<Rightarrow> byte list" where
  "len_be total_bits = map (\<lambda>i. ucast (drop_bit (56 - i * 8) total_bits AND 0xff)) [0..<8]"

definition hex_digits :: string where
  "hex_digits = ''0123456789abcdef''"

text \<open>\<^verbatim>\<open>%08x\<close>: eight lower-case hexadecimal digits, most significant first.\<close>

definition hex8 :: "32 word \<Rightarrow> string" where
  "hex8 w = map (\<lambda>i. hex_digits ! unat (drop_bit (28 - i * 4) w AND 0xf)) [0..<8]"

definition hex_digest :: "Sha256 \<Rightarrow> (string \<times> Sha256) option" where
  "hex_digest s =
     do {
       let total_bits = sha_bit_len s;
       s1 \<leftarrow> update s [0x80];
       s2 \<leftarrow> pad_loop s1;
       s3 \<leftarrow> update s2 (len_be total_bits);
       Some (concat (map hex8 (sha_state s3)), reset s3)
     }"

definition bytes_of :: "string \<Rightarrow> byte list" where
  "bytes_of t = map of_char t"

definition digest_pieces :: "byte list list \<Rightarrow> string option" where
  "digest_pieces pieces =
     do {
       s \<leftarrow> foldl (\<lambda>os p. Option.bind os (\<lambda>s. update s p)) (Some Sha256_new) pieces;
       (d, _) \<leftarrow> hex_digest s;
       Some d
     }"

definition sha256_hex :: "string \<Rightarrow> string" where
  "sha256_hex txt = the (digest_pieces [bytes_of txt])"

text \<open>
  \<^verbatim>\<open>sha256_file\<close>: the file is \<^term>\<open>None\<close> when it cannot be opened; otherwise the pieces the
  reads returned and whether the stream ended in an error.
\<close>

definition sha256_file :: "(byte list list \<times> bool) option \<Rightarrow> string option" where
  "sha256_file f =
     (case f of
        None \<Rightarrow> None
      | Some (pieces, read_error) \<Rightarrow> if read_error then None else Some (the (digest_pieces pieces)))"

section \<open>The standard's definition\<close>

text \<open>The 64-byte blocks of a byte string, without an incomplete last one.\<close>

definition full_blocks :: "byte list \<Rightarrow> byte list list" where
  "full_blocks bs = map (\<lambda>i. take 64 (drop (64 * i) bs)) [0..<length bs div 64]"

definition zeros_needed :: "nat \<Rightarrow> nat" where
  "zeros_needed n = (119 - n mod 64) mod 64"

definition pad_message :: "byte list \<Rightarrow> byte list" where
  "pad_message m =
     m @ [0x80] @ replicate (zeros_needed (length m)) 0 @ len_be (of_nat (8 * length m))"

definition sha256_spec :: "byte list \<Rightarrow> string" where
  "sha256_spec m = concat (map hex8 (foldl compress sha_initial (full_blocks (pad_message m))))"

section \<open>Streaming equals the standard\<close>

text \<open>Block arithmetic: adding \<open>x\<close> bytes inside the current block, or exactly up to its end.\<close>

lemma block_inside:
  fixes a x :: nat
  assumes "a mod 64 + x < 64"
  shows "(a + x) div 64 = a div 64" "(a + x) mod 64 = a mod 64 + x"
proof -
  have "a + x = (a mod 64 + x) + 64 * (a div 64)" by simp
  then show "(a + x) div 64 = a div 64" "(a + x) mod 64 = a mod 64 + x"
    using assms by (metis add.right_neutral div_less div_mult_self2 add.commute zero_neq_numeral,
        metis assms mod_less mod_mult_self2)
qed

lemma block_end:
  fixes a x :: nat
  assumes "a mod 64 + x = 64"
  shows "(a + x) div 64 = Suc (a div 64)" "(a + x) mod 64 = 0" "64 * Suc (a div 64) = a + x"
proof -
  have "a + x = 64 * (a div 64) + (a mod 64 + x)" by (simp flip: add.assoc)
  then have e: "a + x = 64 * Suc (a div 64)" unfolding assms by simp
  show "(a + x) div 64 = Suc (a div 64)" unfolding e by (rule nonzero_mult_div_cancel_left) simp
  show "(a + x) mod 64 = 0" unfolding e by simp
  show "64 * Suc (a div 64) = a + x" using e by simp
qed

lemma full_blocks_partial:
  assumes "length m mod 64 + length xs < 64"
  shows "full_blocks (m @ xs) = full_blocks m"
proof -
  have "(length m + length xs) div 64 = length m div 64" by (rule block_inside(1) [OF assms])
  moreover have "take 64 (drop (64 * i) (m @ xs)) = take 64 (drop (64 * i) m)"
    if "i < length m div 64" for i
    using that by simp
  ultimately show ?thesis by (simp add: full_blocks_def)
qed

lemma full_blocks_complete:
  assumes "length m mod 64 + length xs = 64"
  shows "full_blocks (m @ xs) = full_blocks m @ [drop (64 * (length m div 64)) m @ xs]"
proof -
  let ?k = "length m div 64"
  have k: "(length m + length xs) div 64 = Suc ?k" by (rule block_end(1) [OF assms])
  have "take 64 (drop (64 * i) (m @ xs)) = take 64 (drop (64 * i) m)" if "i < ?k" for i
    using that by simp
  moreover have "64 * ?k \<le> length m" by simp
  moreover have "take 64 (drop (64 * ?k) m @ xs) = drop (64 * ?k) m @ xs"
    using assms by (simp add: minus_mult_div_eq_mod)
  ultimately show ?thesis unfolding full_blocks_def length_append k by simp
qed

text \<open>The hash object has absorbed the message \<open>m\<close>.\<close>

definition absorbed :: "Sha256 \<Rightarrow> byte list \<Rightarrow> bool" where
  "absorbed s m \<longleftrightarrow>
     sha_state s = foldl compress sha_initial (full_blocks m) \<and>
     sha_buffer_len s = length m mod 64 \<and> length (sha_buffer s) = 64 \<and>
     take (sha_buffer_len s) (sha_buffer s) = drop (64 * (length m div 64)) m"

lemma absorbed_new: "absorbed Sha256_new []"
  by (simp add: absorbed_def Sha256_new_def reset_def full_blocks_def)

lemma absorbed_len: "absorbed s m \<Longrightarrow> sha_buffer_len s < 64"
  by (simp add: absorbed_def)

lemma absorbed_bit_len [simp]: "absorbed (s\<lparr>sha_bit_len := n\<rparr>) m = absorbed s m"
  by (simp add: absorbed_def)

lemma length_memcpy: "off + length src \<le> length dst \<Longrightarrow> length (memcpy dst off src) = length dst"
  by (simp add: memcpy_def)

lemma take_memcpy:
  "off + length src \<le> length dst \<Longrightarrow> take (off + length src) (memcpy dst off src) = take off dst @ src"
  by (simp add: memcpy_def)

lemma absorbed_partial:
  assumes a: "absorbed s m" and l: "sha_buffer_len s + length xs < 64"
  shows "absorbed (s\<lparr>sha_buffer := memcpy (sha_buffer s) (sha_buffer_len s) xs,
                     sha_buffer_len := sha_buffer_len s + length xs\<rparr>) (m @ xs)"
proof -
  have m: "length m mod 64 + length xs < 64" using a l by (simp add: absorbed_def)
  with a block_inside [OF m] show ?thesis
    by (auto simp: absorbed_def full_blocks_partial length_memcpy take_memcpy)
qed

lemma absorbed_complete:
  assumes a: "absorbed s m" and l: "sha_buffer_len s + length xs = 64"
  defines "buf \<equiv> memcpy (sha_buffer s) (sha_buffer_len s) xs"
  shows "absorbed ((process_block (s\<lparr>sha_buffer := buf, sha_buffer_len := 64\<rparr>) buf)\<lparr>sha_buffer_len := 0\<rparr>)
           (m @ xs)"
proof -
  have m: "length m mod 64 + length xs = 64" using a l by (simp add: absorbed_def)
  have "buf = drop (64 * (length m div 64)) m @ xs"
    using a l unfolding buf_def memcpy_def by (auto simp: absorbed_def)
  with a m l block_end [OF m] show ?thesis
    by (auto simp: absorbed_def process_block_def full_blocks_complete length_memcpy)
qed

lemma update_loop_absorbs:
  "absorbed s m \<Longrightarrow>
   \<exists>s'. update_loop s bs = Some s' \<and> absorbed s' (m @ bs) \<and> sha_bit_len s' = sha_bit_len s"
proof (induction "length bs" arbitrary: s m bs rule: less_induct)
  case less
  show ?case
  proof (cases "bs = []")
    case True
    with less.prems show ?thesis by (simp add: update_loop.simps)
  next
    case False
    let ?n = "min (length bs) (64 - sha_buffer_len s)"
    let ?s1 = "s\<lparr>sha_buffer := memcpy (sha_buffer s) (sha_buffer_len s) (take ?n bs),
                 sha_buffer_len := sha_buffer_len s + ?n\<rparr>"
    let ?s2 = "if sha_buffer_len ?s1 = 64
               then (process_block ?s1 (sha_buffer ?s1))\<lparr>sha_buffer_len := 0\<rparr> else ?s1"
    have n: "0 < ?n" "length (take ?n bs) = ?n" using False absorbed_len [OF less.prems] by auto
    have le: "sha_buffer_len s + ?n \<le> 64" using absorbed_len [OF less.prems] by auto
    have "absorbed ?s2 (m @ take ?n bs)"
    proof (cases "sha_buffer_len s + ?n = 64")
      case True
      with absorbed_complete [OF less.prems, of "take ?n bs"] n show ?thesis by simp
    next
      case ne: False
      then have "sha_buffer_len s + length (take ?n bs) < 64" using le n by linarith
      from absorbed_partial [OF less.prems this] ne show ?thesis unfolding n(2) by simp
    qed
    moreover have "length (drop ?n bs) < length bs" using n(1) False by simp
    ultimately obtain s' where s': "update_loop ?s2 (drop ?n bs) = Some s'"
        "absorbed s' ((m @ take ?n bs) @ drop ?n bs)" "sha_bit_len s' = sha_bit_len ?s2"
      using less.hyps by blast
    have bit: "sha_bit_len ?s2 = sha_bit_len s" by (simp add: process_block_def)
    have "update_loop s bs = update_loop ?s2 (drop ?n bs)"
      by (subst update_loop.simps) (simp only: False if_False Let_def)
    then show ?thesis using s' bit by simp
  qed
qed

lemma update_absorbs:
  assumes "absorbed s m"
  obtains s' where "update s bs = Some s'" "absorbed s' (m @ bs)"
    "sha_bit_len s' = sha_bit_len s + of_nat (length bs) * 8"
  using update_loop_absorbs [of "s\<lparr>sha_bit_len := sha_bit_len s + of_nat (length bs) * 8\<rparr>" m bs] assms
  by (auto simp: update_def)

lemma pad_loop_absorbs:
  assumes "absorbed s m" "(length m + k) mod 64 = 56" "k < 64"
  shows "\<exists>s'. pad_loop s = Some s' \<and> absorbed s' (m @ replicate k 0)"
  using assms
proof (induction k arbitrary: s m)
  case 0
  then have "sha_buffer_len s = 56" by (simp add: absorbed_def)
  with 0 show ?case by (simp add: pad_loop.simps)
next
  case (Suc k)
  have "sha_buffer_len s \<noteq> 56"
  proof
    assume "sha_buffer_len s = 56"
    then have "length m mod 64 = 56" using Suc.prems(1) by (simp add: absorbed_def)
    then have "(56 + Suc k) mod 64 = 56" using Suc.prems(2) by (metis mod_add_left_eq)
    with Suc.prems(3) show False by (auto simp: mod_if split: if_splits)
  qed
  moreover obtain s1 where s1: "update s [0] = Some s1" "absorbed s1 (m @ [0])"
    using update_absorbs [OF Suc.prems(1)] by blast
  moreover have "\<exists>s'. pad_loop s1 = Some s' \<and> absorbed s' ((m @ [0]) @ replicate k 0)"
    using Suc.prems by (intro Suc.IH s1(2)) auto
  ultimately show ?case by (simp add: pad_loop.simps)
qed

lemma zeros_needed_pads: "(Suc n + zeros_needed n) mod 64 = 56" "zeros_needed n < 64"
proof -
  have "(Suc n + zeros_needed n) mod 64 = (Suc (n mod 64) + (119 - n mod 64)) mod 64"
    unfolding zeros_needed_def by (metis mod_Suc_eq mod_add_eq mod_mod_trivial mod_add_left_eq mod_add_right_eq)
  also have "Suc (n mod 64) + (119 - n mod 64) = 120"
    using mod_less_divisor [of 64 n] by simp
  finally show "(Suc n + zeros_needed n) mod 64 = 56" by simp
  show "zeros_needed n < 64" by (simp add: zeros_needed_def)
qed

lemma hex_digest_correct:
  assumes a: "absorbed s m" and b: "sha_bit_len s = of_nat (8 * length m)"
  shows "\<exists>s'. hex_digest s = Some (sha256_spec m, reset s')"
proof -
  obtain s1 where s1: "update s [0x80] = Some s1" "absorbed s1 (m @ [0x80])"
    using update_absorbs [OF a] by blast
  have "(length (m @ [0x80]) + zeros_needed (length m)) mod 64 = 56" "zeros_needed (length m) < 64"
    using zeros_needed_pads [of "length m"] by simp_all
  with pad_loop_absorbs [OF s1(2)] obtain s2 where
    s2: "pad_loop s1 = Some s2" "absorbed s2 ((m @ [0x80]) @ replicate (zeros_needed (length m)) 0)"
    by blast
  obtain s3 where s3: "update s2 (len_be (of_nat (8 * length m))) = Some s3"
      "absorbed s3 (((m @ [0x80]) @ replicate (zeros_needed (length m)) 0) @ len_be (of_nat (8 * length m)))"
    using update_absorbs [OF s2(2)] by blast
  from s3(2) have "sha_state s3 = foldl compress sha_initial (full_blocks (pad_message m))"
    by (simp add: absorbed_def pad_message_def)
  with s1(1) s2(1) s3(1) b show ?thesis by (auto simp: hex_digest_def sha256_spec_def)
qed

lemma updates_absorb:
  "absorbed s m \<Longrightarrow> sha_bit_len s = of_nat (8 * length m) \<Longrightarrow>
   \<exists>s'. foldl (\<lambda>os p. Option.bind os (\<lambda>s. update s p)) (Some s) ps = Some s' \<and>
        absorbed s' (m @ concat ps) \<and> sha_bit_len s' = of_nat (8 * length (m @ concat ps))"
proof (induction ps arbitrary: s m)
  case (Cons p ps)
  obtain s1 where s1: "update s p = Some s1" "absorbed s1 (m @ p)"
      "sha_bit_len s1 = sha_bit_len s + of_nat (length p) * 8"
    using update_absorbs [OF Cons.prems(1)] by blast
  then have "sha_bit_len s1 = of_nat (8 * length (m @ p))" using Cons.prems by (simp add: algebra_simps)
  from Cons.IH [OF s1(2) this] s1(1) show ?case by simp
qed simp

lemma digest_pieces_eq: "digest_pieces ps = Some (sha256_spec (concat ps))"
proof -
  have "sha_bit_len Sha256_new = of_nat (8 * length [])" by (simp add: Sha256_new_def reset_def)
  from updates_absorb [OF absorbed_new this, of ps] obtain s where
    s: "foldl (\<lambda>os p. Option.bind os (\<lambda>s. update s p)) (Some Sha256_new) ps = Some s"
      "absorbed s (concat ps)" "sha_bit_len s = of_nat (8 * length (concat ps))" by auto
  from hex_digest_correct [OF s(2,3)] s(1) show ?thesis by (auto simp: digest_pieces_def)
qed

lemma sha256_hex_eq: "sha256_hex txt = sha256_spec (bytes_of txt)"
  by (simp add: sha256_hex_def digest_pieces_eq)

lemma length_compress: "length (compress st block) = 8"
  by (simp add: compress_def split: prod.splits)

lemma length_foldl_compress: "length st = 8 \<Longrightarrow> length (foldl compress st bs) = 8"
  by (induction bs arbitrary: st) (simp_all add: length_compress)

lemma sha256_spec_length: "length (sha256_spec m) = 64"
proof -
  have "length (foldl compress sha_initial bs) = 8" for bs
    by (rule length_foldl_compress) (simp add: sha_initial_def)
  then show ?thesis
    by (simp add: sha256_spec_def length_concat o_def hex8_def sum_list_triv)
qed

end
