(* ===== verification/Artifacts.thy ===== *)
theory Artifacts
  imports Domain Sha256
begin

text \<open>
  Artifact metadata and path resolution: \<^verbatim>\<open>src/src/core/artifacts/artifact.cpp\<close> and
  \<^verbatim>\<open>artifact_manager.cpp\<close>. The file system is a snapshot, an argument of every
  operation that looks at it. The part of \<^verbatim>\<open>std::filesystem::path\<close> the manager uses
  (absolute paths, \<^verbatim>\<open>operator/\<close>, \<^verbatim>\<open>lexically_normal\<close>) is written out for POSIX paths.
\<close>

section \<open>std::filesystem::path, POSIX\<close>

definition is_absolute :: "string \<Rightarrow> bool" where
  "is_absolute p \<longleftrightarrow> p \<noteq> [] \<and> hd p = CHR ''/''"

definition path_append :: "string \<Rightarrow> string \<Rightarrow> string" where
  "path_append base p =
     (if is_absolute p then p
      else if base \<noteq> [] \<and> last base \<noteq> CHR ''/'' then base @ ''/'' @ p
      else base @ p)"

text \<open>The names of a path; a trailing separator gives an empty last name.\<close>

definition path_names :: "string \<Rightarrow> string list" where
  "path_names p =
     (let names = filter (\<lambda>c. c \<noteq> []) (split p (CHR ''/''))
      in if names \<noteq> [] \<and> last p = CHR ''/'' then names @ [[]] else names)"

text \<open>
  \<^verbatim>\<open>lexically_normal\<close>: the names kept so far (last first) and whether the path written so
  far ends in a separator.
\<close>

fun norm_name :: "bool \<Rightarrow> string list \<times> bool \<Rightarrow> string \<Rightarrow> string list \<times> bool" where
  "norm_name rooted (kept, trail) name =
     (if name = ''..'' then
        (case kept of
           [] \<Rightarrow> if rooted then ([], trail) else ([''..''], False)
         | k # ks \<Rightarrow> if k = ''..'' then (''..'' # kept, False) else (ks, True))
      else if name = ''.'' \<or> name = [] then (kept, True)
      else (name # kept, False))"

definition norm_names :: "bool \<Rightarrow> string list \<Rightarrow> string list \<times> bool" where
  "norm_names rooted names = foldl (norm_name rooted) ([], False) names"

definition path_render :: "bool \<Rightarrow> string list \<times> bool \<Rightarrow> string" where
  "path_render rooted r =
     (case r of (kept, trail) \<Rightarrow>
      let body = (if rooted then ''/'' else []) @ join (rev kept) ''/'' @
                 (if trail \<and> kept \<noteq> [] \<and> hd kept \<noteq> ''..'' then ''/'' else [])
      in if body = [] then ''.'' else body)"

definition lexically_normal :: "string \<Rightarrow> string" where
  "lexically_normal p =
     (if p = [] then [] else path_render (is_absolute p) (norm_names (is_absolute p) (path_names p)))"

section \<open>Artifact\<close>

record Artifact =
  art_logical_name :: string
  art_path :: string
  art_exists :: bool
  art_size_bytes :: int
  art_modified_unix_ms :: int
  art_checksum :: "string option"

definition identity :: "Artifact \<Rightarrow> string" where
  "identity a =
     (let base = art_logical_name a @ ''|'' @ art_path a in
      if \<not> art_exists a then base @ ''|absent''
      else case art_checksum a of
             Some c \<Rightarrow> base @ ''|sha256:'' @ c
           | None \<Rightarrow> base @ ''|size:'' @ to_string_int (art_size_bytes a) @
                     ''|mtime:'' @ to_string_int (art_modified_unix_ms a))"

text \<open>
  What the calls on one path answer: whether it is a regular file, its size and write time
  (\<^term>\<open>None\<close> when the call reports an error), and what reading it gives
  (see \<^const>\<open>sha256_file\<close>). A path whose \<^verbatim>\<open>status\<close> fails has no entry.
\<close>

record FileInfo =
  fi_regular :: bool
  fi_size :: "int option"
  fi_mtime :: "TimePoint option"
  fi_content :: "(byte list list \<times> bool) option"

type_synonym FileSystem = "string \<Rightarrow> FileInfo option"

definition probe_artifact :: "FileSystem \<Rightarrow> string \<Rightarrow> string \<Rightarrow> bool \<Rightarrow> Artifact" where
  "probe_artifact fs logical_name absolute_path want_checksum =
     (let art = \<lparr>art_logical_name = logical_name, art_path = absolute_path, art_exists = False,
                 art_size_bytes = 0, art_modified_unix_ms = 0, art_checksum = None\<rparr>
      in case fs absolute_path of
           None \<Rightarrow> art
         | Some info \<Rightarrow>
             if \<not> fi_regular info then art
             else art\<lparr>art_exists := True,
                      art_size_bytes := (case fi_size info of Some n \<Rightarrow> n | None \<Rightarrow> 0),
                      art_modified_unix_ms :=
                        (case fi_mtime info of Some t \<Rightarrow> to_unix_millis t | None \<Rightarrow> 0),
                      art_checksum := (if want_checksum then sha256_file (fi_content info) else None)\<rparr>)"

section \<open>ArtifactManager\<close>

definition resolve_against :: "string \<Rightarrow> string \<Rightarrow> string" where
  "resolve_against base maybe_relative =
     (if maybe_relative = [] then base
      else if is_absolute maybe_relative then lexically_normal maybe_relative
      else lexically_normal (path_append base maybe_relative))"

definition resolve_working_dir :: "string \<Rightarrow> TaskDefinition \<Rightarrow> string" where
  "resolve_working_dir base_dir task = resolve_against base_dir (td_working_directory task)"

definition resolve_artifact_path :: "string \<Rightarrow> TaskDefinition \<Rightarrow> ArtifactDecl \<Rightarrow> string" where
  "resolve_artifact_path base_dir task decl =
     resolve_against (resolve_working_dir base_dir task) (decl_path decl)"

definition probe :: "FileSystem \<Rightarrow> string \<Rightarrow> TaskDefinition \<Rightarrow> ArtifactDecl \<Rightarrow> bool \<Rightarrow> Artifact" where
  "probe fs base_dir task decl force_checksum =
     probe_artifact fs (decl_name decl) (resolve_artifact_path base_dir task decl)
       (decl_checksum decl \<or> force_checksum)"

definition probe_inputs :: "FileSystem \<Rightarrow> string \<Rightarrow> TaskDefinition \<Rightarrow> bool \<Rightarrow> Artifact list" where
  "probe_inputs fs base_dir task force_checksum =
     map (\<lambda>decl. probe fs base_dir task decl force_checksum) (td_inputs task)"

definition probe_outputs :: "FileSystem \<Rightarrow> string \<Rightarrow> TaskDefinition \<Rightarrow> bool \<Rightarrow> Artifact list" where
  "probe_outputs fs base_dir task force_checksum =
     map (\<lambda>decl. probe fs base_dir task decl force_checksum) (td_outputs task)"

definition missing_decls :: "FileSystem \<Rightarrow> string \<Rightarrow> TaskDefinition \<Rightarrow> ArtifactDecl list \<Rightarrow> string list" where
  "missing_decls fs base_dir task decls =
     map decl_name (filter (\<lambda>decl. \<not> art_exists
       (probe_artifact fs (decl_name decl) (resolve_artifact_path base_dir task decl) False)) decls)"

definition missing_inputs :: "FileSystem \<Rightarrow> string \<Rightarrow> TaskDefinition \<Rightarrow> string list" where
  "missing_inputs fs base_dir task = missing_decls fs base_dir task (td_inputs task)"

definition missing_outputs :: "FileSystem \<Rightarrow> string \<Rightarrow> TaskDefinition \<Rightarrow> string list" where
  "missing_outputs fs base_dir task = missing_decls fs base_dir task (td_outputs task)"

section \<open>Lemmas\<close>

lemma probe_exists_iff:
  "art_exists (probe_artifact fs n p c) \<longleftrightarrow> (\<exists>info. fs p = Some info \<and> fi_regular info)"
  by (auto simp: probe_artifact_def Let_def split: option.splits)

lemma probe_sel [simp]:
  "art_logical_name (probe_artifact fs n p c) = n" "art_path (probe_artifact fs n p c) = p"
  by (auto simp: probe_artifact_def Let_def split: option.splits)

text \<open>Asking for a checksum never changes whether a file counts as present.\<close>

lemma missing_outputs_probe:
  "missing_outputs fs b t = map art_logical_name (filter (\<lambda>a. \<not> art_exists a) (probe_outputs fs b t c))"
  by (simp add: missing_outputs_def missing_decls_def probe_outputs_def filter_map o_def probe_def
      probe_exists_iff)

lemma missing_inputs_probe:
  "missing_inputs fs b t = map art_logical_name (filter (\<lambda>a. \<not> art_exists a) (probe_inputs fs b t c))"
  by (simp add: missing_inputs_def missing_decls_def probe_inputs_def filter_map o_def probe_def
      probe_exists_iff)

text \<open>
  Normalisation. A kept stack is in normal form when its names are proper names, and
  \<^verbatim>\<open>..\<close> occurs only at the front of a relative path.
\<close>

definition proper_name :: "string \<Rightarrow> bool" where
  "proper_name n \<longleftrightarrow> n \<noteq> [] \<and> n \<noteq> ''.'' \<and> CHR ''/'' \<notin> set n"

fun kept_ok :: "bool \<Rightarrow> string list \<Rightarrow> bool" where
  "kept_ok rooted [] \<longleftrightarrow> True"
| "kept_ok rooted (k # ks) \<longleftrightarrow>
     proper_name k \<and> (k = ''..'' \<longrightarrow> \<not> rooted \<and> set ks \<subseteq> {''..''}) \<and> kept_ok rooted ks"

lemma norm_name_ok:
  assumes "kept_ok rooted kept" "CHR ''/'' \<notin> set name"
  shows "kept_ok rooted (fst (norm_name rooted (kept, trail) name))"
  using assms by (cases kept) (auto simp: proper_name_def)

lemma norm_names_ok_gen:
  "kept_ok rooted (fst st) \<Longrightarrow> \<forall>n \<in> set names. CHR ''/'' \<notin> set n \<Longrightarrow>
   kept_ok rooted (fst (foldl (norm_name rooted) st names))"
proof (induction names arbitrary: st)
  case (Cons n ns)
  obtain kept trail where st: "st = (kept, trail)" by (cases st)
  have "kept_ok rooted (fst (norm_name rooted st n))"
    unfolding st using Cons.prems st by (intro norm_name_ok) auto
  with Cons show ?case by simp
qed simp

lemma path_names_no_sep: "n \<in> set (path_names p) \<Longrightarrow> CHR ''/'' \<notin> set n"
  using split_parts_no_delim [of _ p "CHR ''/''"]
  by (auto simp: path_names_def Let_def split: if_splits)

lemma norm_names_ok: "kept_ok rooted (fst (norm_names rooted (path_names p)))"
  unfolding norm_names_def by (rule norm_names_ok_gen) (auto dest: path_names_no_sep)

lemma kept_ok_append: "kept_ok rooted (xs @ ys) \<Longrightarrow> kept_ok rooted ys"
  by (induction xs) auto

text \<open>Names already in normal form are kept as they are.\<close>

lemma norm_names_stable_gen:
  "kept_ok rooted (rev names @ kept) \<Longrightarrow>
   foldl (norm_name rooted) (kept, trail) names = (rev names @ kept, if names = [] then trail else False)"
proof (induction names arbitrary: kept trail)
  case (Cons n ns)
  have ok: "kept_ok rooted (n # kept)"
    using Cons.prems kept_ok_append [of rooted "rev ns" "n # kept"] by simp
  have "norm_name rooted (kept, trail) n = (n # kept, False)"
    using ok by (cases kept) (auto simp: proper_name_def)
  with Cons.IH [of "n # kept" False] Cons.prems show ?case by simp
qed simp

text \<open>Reading a rendered path back gives the names it was rendered from.\<close>

lemma join_snoc_empty: "ns \<noteq> [] \<Longrightarrow> join ns sep @ sep = join (ns @ [[]]) sep"
  by (cases ns) (simp_all add: join_Cons)

lemma proper_split:
  assumes "\<forall>n \<in> set ns. proper_name n" "ns \<noteq> []"
  shows "filter (\<lambda>c. c \<noteq> []) (split (join ns ''/'' @ (if t then ''/'' else [])) (CHR ''/'')) = ns"
proof -
  have ne: "filter (\<lambda>c. c \<noteq> []) ns = ns" using assms(1) by (simp add: proper_name_def)
  show ?thesis
  proof (cases t)
    case True
    have "split (join (ns @ [[]]) [CHR ''/'']) (CHR ''/'') = ns @ [[]]"
      using assms by (intro split_join) (auto simp: proper_name_def)
    then show ?thesis using True ne assms(2) by (simp add: join_snoc_empty)
  next
    case False
    have "split (join ns [CHR ''/'']) (CHR ''/'') = ns"
      using assms by (intro split_join) (auto simp: proper_name_def)
    then show ?thesis using False ne by simp
  qed
qed

lemma kept_ok_proper: "kept_ok rooted ks \<Longrightarrow> n \<in> set ks \<Longrightarrow> proper_name n"
  by (induction ks) auto

lemma join_hd: "ns \<noteq> [] \<Longrightarrow> hd ns \<noteq> [] \<Longrightarrow> join ns sep \<noteq> [] \<and> hd (join ns sep) = hd (hd ns)"
  by (cases ns) (simp_all add: join_Cons)

lemma join_last: "ns \<noteq> [] \<Longrightarrow> last ns \<noteq> [] \<Longrightarrow> last (join ns sep) = last (last ns)"
proof (induction ns rule: rev_induct)
  case (snoc n ns)
  then show ?case by (cases ns) (simp_all add: join_Cons)
qed simp

lemma path_names_render:
  fixes rooted t :: bool
  assumes ns: "\<forall>n \<in> set ns. proper_name n" "ns \<noteq> []"
  defines "body \<equiv> (if rooted then ''/'' else []) @ join ns ''/'' @ (if t then ''/'' else [])"
  shows "path_names body = ns @ (if t then [[]] else [])" "is_absolute body = rooted" "body \<noteq> []"
proof -
  have hl: "proper_name (hd ns)" "proper_name (last ns)" using ns by simp_all
  have j: "join ns ''/'' \<noteq> []" "hd (join ns ''/'') = hd (hd ns)" "last (join ns ''/'') = last (last ns)"
    using join_hd [OF ns(2)] join_last [OF ns(2)] hl by (auto simp: proper_name_def)
  have hd_ne: "hd (hd ns) \<noteq> CHR ''/''" and last_ne: "last (last ns) \<noteq> CHR ''/''"
    using hl by (auto simp: proper_name_def dest: hd_in_set last_in_set)
  show "body \<noteq> []" using j by (simp add: body_def)
  show "is_absolute body = rooted" using j hd_ne by (simp add: body_def is_absolute_def)
  have "filter (\<lambda>c. c \<noteq> []) (split body (CHR ''/'')) = ns"
    using proper_split [OF ns, of t] split_delim [of "CHR ''/''" "[]"] by (simp add: body_def)
  moreover have "last body = CHR ''/'' \<longleftrightarrow> t" using j last_ne by (simp add: body_def)
  ultimately show "path_names body = ns @ (if t then [[]] else [])"
    using ns(2) by (simp add: path_names_def)
qed

lemma path_render_normal:
  assumes "kept_ok rooted kept"
  shows "lexically_normal (path_render rooted (kept, trail)) = path_render rooted (kept, trail)"
proof (cases "kept = []")
  case True
  have "split ''.'' (CHR ''/'') = [''.'']" by (rule split_no_delim) simp
  moreover have "split ''/'' (CHR ''/'') = [[], []]"
    using split_delim [of "CHR ''/''" "[]" "[]"] split_no_delim [of "CHR ''/''" "[]"] by simp
  ultimately show ?thesis
    using True by (simp add: path_render_def lexically_normal_def path_names_def norm_names_def is_absolute_def)
next
  case False
  let ?t = "trail \<and> hd kept \<noteq> ''..''"
  let ?body = "(if rooted then ''/'' else []) @ join (rev kept) ''/'' @ (if ?t then ''/'' else [])"
  have body: "path_names ?body = rev kept @ (if ?t then [[]] else [])" "is_absolute ?body = rooted" "?body \<noteq> []"
    using path_names_render [of "rev kept" rooted ?t] False kept_ok_proper [OF assms] by auto
  have r: "path_render rooted (kept, trail) = ?body" using body(3) False by (auto simp: path_render_def)
  have n: "norm_names rooted (rev kept @ (if ?t then [[]] else [])) = (kept, ?t)"
    unfolding norm_names_def using norm_names_stable_gen [of rooted "rev kept" "[]" False] assms False by simp
  have "lexically_normal ?body = path_render rooted (kept, ?t)"
    unfolding lexically_normal_def body(1,2) n using body(3) by (simp only: if_False)
  also have "\<dots> = path_render rooted (kept, trail)" by (auto simp: path_render_def)
  finally show ?thesis unfolding r by simp
qed

lemma lexically_normal_idem: "lexically_normal (lexically_normal p) = lexically_normal p"
proof (cases "p = []")
  case False
  obtain kept trail where n: "norm_names (is_absolute p) (path_names p) = (kept, trail)" by fastforce
  with norm_names_ok [of "is_absolute p" p] have "kept_ok (is_absolute p) kept" by simp
  from path_render_normal [OF this] n False show ?thesis by (simp add: lexically_normal_def)
qed (simp add: lexically_normal_def)

lemma lexically_normal_absolute: "is_absolute (lexically_normal p) \<longleftrightarrow> is_absolute p"
proof (cases "p = []")
  case False
  obtain kept trail where n: "norm_names (is_absolute p) (path_names p) = (kept, trail)" by fastforce
  with norm_names_ok [of "is_absolute p" p] have ok: "kept_ok (is_absolute p) kept" by simp
  show ?thesis
  proof (cases "kept = []")
    case True
    with n False show ?thesis by (simp add: lexically_normal_def path_render_def) (simp add: is_absolute_def)
  next
    case ne: False
    have "is_absolute (path_render (is_absolute p) (kept, trail)) = is_absolute p"
      using path_names_render(2,3) [of "rev kept" "is_absolute p" "trail \<and> hd kept \<noteq> ''..''"]
        ne kept_ok_proper [OF ok] by (auto simp: path_render_def is_absolute_def)
    with n False show ?thesis by (simp add: lexically_normal_def)
  qed
qed (simp add: lexically_normal_def)

text \<open>An absolute base directory makes every resolved path absolute: nothing depends on the process's cwd.\<close>

lemma path_append_absolute: "is_absolute base \<Longrightarrow> is_absolute (path_append base p)"
  by (auto simp: path_append_def is_absolute_def)

lemma resolve_against_absolute: "is_absolute base \<Longrightarrow> is_absolute (resolve_against base p)"
  by (simp add: resolve_against_def lexically_normal_absolute path_append_absolute)

lemma resolve_artifact_path_absolute:
  "is_absolute base \<Longrightarrow> is_absolute (resolve_artifact_path base t d)"
  by (simp add: resolve_artifact_path_def resolve_working_dir_def resolve_against_absolute)

end
