(* ===== verification/Json.thy ===== *)
theory Json
  imports Domain
begin

text \<open>
  JSON values as the program handles them. Parsing and printing texts is the job of the
  third-party library \<^verbatim>\<open>nlohmann::json\<close>, which is not part of the sources: a codec is an
  argument of the operations that use it. The one law they rely on, that a printed value
  parses back to itself, is a named hypothesis of the lemmas that need it.
\<close>

datatype Json =
    JNull
  | JBool bool
  | JInt int
  | JFloat rat
  | JStr string
  | JArr "Json list"
  | JObj "(string \<times> Json) list"   \<comment> \<open>one pair per key, in key order\<close>

record JsonCodec =
  dump :: "Json \<Rightarrow> string"
  parse :: "string \<Rightarrow> Json option"   \<comment> \<open>\<^term>\<open>None\<close>: a discarded value\<close>

definition prints_back :: "JsonCodec \<Rightarrow> Json \<Rightarrow> bool" where
  "prints_back codec j \<longleftrightarrow> parse codec (dump codec j) = Some j"

section \<open>Access\<close>

text \<open>Assignment \<open>j[key] = v\<close> on an object: replace the member or insert it in key order.\<close>

fun obj_set :: "string \<Rightarrow> Json \<Rightarrow> (string \<times> Json) list \<Rightarrow> (string \<times> Json) list" where
  "obj_set k v [] = [(k, v)]"
| "obj_set k v ((k', v') # kvs) =
     (if k < k' then (k, v) # (k', v') # kvs
      else if k = k' then (k, v) # kvs
      else (k', v') # obj_set k v kvs)"

fun jfind :: "Json \<Rightarrow> string \<Rightarrow> Json option" where
  "jfind (JObj kvs) k = map_of kvs k"
| "jfind _ k = None"

text \<open>
  \<^verbatim>\<open>j.value(key, default)\<close> throws on a value that is not an object, and when the member
  has the wrong type.
\<close>

datatype JsonError = NotAnObject | WrongType

fun jvalue :: "(Json \<Rightarrow> 'a option) \<Rightarrow> Json \<Rightarrow> string \<Rightarrow> 'a \<Rightarrow> JsonError + 'a" where
  "jvalue get (JObj kvs) k dflt =
     (case map_of kvs k of
        None \<Rightarrow> Inr dflt
      | Some j \<Rightarrow> (case get j of None \<Rightarrow> Inl WrongType | Some v \<Rightarrow> Inr v))"
| "jvalue get _ k dflt = Inl NotAnObject"

fun get_string :: "Json \<Rightarrow> string option" where
  "get_string (JStr s) = Some s"
| "get_string _ = None"

text \<open>\<^verbatim>\<open>get<std::int64_t>\<close> accepts every number and truncates a floating-point one.\<close>

fun get_int :: "Json \<Rightarrow> int option" where
  "get_int (JInt i) = Some i"
| "get_int (JFloat x) = Some (cpp_trunc x)"
| "get_int _ = None"

section \<open>Sequencing of calls that throw\<close>

definition sum_bind :: "'e + 'a \<Rightarrow> ('a \<Rightarrow> 'e + 'b) \<Rightarrow> 'e + 'b" where
  "sum_bind r f = (case r of Inl e \<Rightarrow> Inl e | Inr a \<Rightarrow> f a)"

lemma sum_bind_simps [simp]: "sum_bind (Inl e) f = Inl e" "sum_bind (Inr a) f = f a"
  by (simp_all add: sum_bind_def)

fun sum_map :: "('a \<Rightarrow> 'e + 'b) \<Rightarrow> 'a list \<Rightarrow> 'e + 'b list" where
  "sum_map f [] = Inr []"
| "sum_map f (x # xs) = sum_bind (f x) (\<lambda>y. sum_bind (sum_map f xs) (\<lambda>ys. Inr (y # ys)))"

lemma sum_map_inverse: "(\<And>x. x \<in> set xs \<Longrightarrow> f (g x) = Inr x) \<Longrightarrow> sum_map f (map g xs) = Inr xs"
  by (induction xs) auto

end
