(* ===== verification/Cache.thy ===== *)
theory Cache
  imports Artifacts Json
begin

text \<open>
  The task cache: the key of \<^verbatim>\<open>src/src/core/cache/cache_key.cpp\<close>, the store of
  \<^verbatim>\<open>cache_store.cpp\<close> and the table operations of \<^verbatim>\<open>CacheRepository\<close> in
  \<^verbatim>\<open>src/src/core/storage/repositories.cpp\<close>, whose SQL statements are written as
  operations on the table's rows.
\<close>

section \<open>compute_cache_key\<close>

definition kCacheKeyPrefix :: string where "kCacheKeyPrefix = ''ffcache1''"

definition blob_line :: "string \<Rightarrow> string \<Rightarrow> string" where
  "blob_line tag v = tag @ [CHR 0x09] @ v @ [CHR 0x0A]"

text \<open>The lines of the blob, as tag and value, in the order they are written.\<close>

definition blob_fields :: "TaskDefinition \<Rightarrow> Artifact list \<Rightarrow> (string \<times> string) list" where
  "blob_fields task inputs =
     [(''v'', kCacheKeyPrefix), (''type'', to_string_TaskType (td_type task)),
      (''program'', td_program task), (''script'', td_script task)]
     @ map (Pair ''arg'') (td_arguments task)
     @ map (Pair ''env'') (sort (map (\<lambda>(k, v). k @ ''='' @ v) (td_environment task)))
     @ [(''cwd'', td_working_directory task)]
     @ map (Pair ''in'') (sort (map identity inputs))"

definition cache_blob :: "TaskDefinition \<Rightarrow> Artifact list \<Rightarrow> string" where
  "cache_blob task inputs = concat (map (\<lambda>(tag, v). blob_line tag v) (blob_fields task inputs))"

definition compute_cache_key :: "TaskDefinition \<Rightarrow> Artifact list \<Rightarrow> string" where
  "compute_cache_key task inputs = kCacheKeyPrefix @ '':'' @ sha256_hex (cache_blob task inputs)"

section \<open>CacheRepository\<close>

record CacheRow =
  row_id :: int
  row_cache_key :: string
  row_task_id :: string
  row_exit_code :: int
  row_outputs_json :: string
  row_created_at :: int
  row_last_used_at :: int
  row_hit_count :: int

type_synonym CacheTable = "CacheRow list"

definition repo_lookup :: "CacheTable \<Rightarrow> string \<Rightarrow> CacheRow option" where
  "repo_lookup t key = List.find (\<lambda>r. row_cache_key r = key) t"

text \<open>A new row gets the next \<^verbatim>\<open>INTEGER PRIMARY KEY\<close>, one more than the largest in use.\<close>

definition next_row_id :: "CacheTable \<Rightarrow> int" where
  "next_row_id t = Max (set (0 # map row_id t)) + 1"

definition repo_store :: "CacheTable \<Rightarrow> string \<Rightarrow> string \<Rightarrow> int \<Rightarrow> string \<Rightarrow> int \<Rightarrow> CacheTable" where
  "repo_store t key task_id exit_code outputs_json now =
     (if repo_lookup t key = None
      then t @ [\<lparr>row_id = next_row_id t, row_cache_key = key, row_task_id = task_id,
                 row_exit_code = exit_code, row_outputs_json = outputs_json, row_created_at = now,
                 row_last_used_at = now, row_hit_count = 0\<rparr>]
      else map (\<lambda>r. if row_cache_key r = key
                    then r\<lparr>row_exit_code := exit_code, row_outputs_json := outputs_json,
                           row_last_used_at := now\<rparr> else r) t)"

definition repo_touch :: "CacheTable \<Rightarrow> string \<Rightarrow> int \<Rightarrow> CacheTable" where
  "repo_touch t key now =
     map (\<lambda>r. if row_cache_key r = key
              then r\<lparr>row_last_used_at := now, row_hit_count := row_hit_count r + 1\<rparr> else r) t"

definition repo_remove :: "CacheTable \<Rightarrow> string \<Rightarrow> CacheTable" where
  "repo_remove t key = filter (\<lambda>r. row_cache_key r \<noteq> key) t"

definition repo_clear_all :: "CacheTable \<Rightarrow> int \<times> CacheTable" where
  "repo_clear_all t = (int (length t), [])"

definition repo_prune_older_than :: "CacheTable \<Rightarrow> int \<Rightarrow> int \<times> CacheTable" where
  "repo_prune_older_than t cutoff =
     (int (length (filter (\<lambda>r. row_last_used_at r < cutoff) t)),
      filter (\<lambda>r. \<not> row_last_used_at r < cutoff) t)"

definition repo_count :: "CacheTable \<Rightarrow> int" where
  "repo_count t = int (length t)"

section \<open>CacheStore\<close>

record CachedArtifact =
  ca_logical_name :: string
  ca_path :: string
  ca_size_bytes :: int
  ca_modified_unix_ms :: int
  ca_checksum :: "string option"

record CachedOutcome =
  co_exit_code :: int
  co_outputs :: "CachedArtifact list"

definition artifact_json :: "CachedArtifact \<Rightarrow> Json" where
  "artifact_json a =
     (let o1 = obj_set ''name'' (JStr (ca_logical_name a)) [];
          o2 = obj_set ''path'' (JStr (ca_path a)) o1;
          o3 = obj_set ''size'' (JInt (ca_size_bytes a)) o2;
          o4 = obj_set ''mtime'' (JInt (ca_modified_unix_ms a)) o3
      in JObj (case ca_checksum a of None \<Rightarrow> o4 | Some c \<Rightarrow> obj_set ''sha256'' (JStr c) o4))"

definition outputs_doc :: "CachedArtifact list \<Rightarrow> Json" where
  "outputs_doc outputs = JObj [(''outputs'', JArr (map artifact_json outputs))]"

definition serialize_outputs :: "JsonCodec \<Rightarrow> CachedArtifact list \<Rightarrow> string" where
  "serialize_outputs codec outputs =
     dump codec (outputs_doc outputs)"

definition parse_artifact :: "Json \<Rightarrow> JsonError + CachedArtifact" where
  "parse_artifact j =
     sum_bind (jvalue get_string j ''name'' []) (\<lambda>name.
     sum_bind (jvalue get_string j ''path'' []) (\<lambda>path.
     sum_bind (jvalue get_int j ''size'' 0) (\<lambda>size.
     sum_bind (jvalue get_int j ''mtime'' 0) (\<lambda>mtime.
       Inr \<lparr>ca_logical_name = name, ca_path = path, ca_size_bytes = size, ca_modified_unix_ms = mtime,
            ca_checksum = (case jfind j ''sha256'' of Some (JStr c) \<Rightarrow> Some c | _ \<Rightarrow> None)\<rparr>))))"

definition parse_outputs :: "JsonCodec \<Rightarrow> string \<Rightarrow> JsonError + CachedArtifact list" where
  "parse_outputs codec json_text =
     (case parse codec json_text of
        None \<Rightarrow> Inr []
      | Some doc \<Rightarrow>
          (case jfind doc ''outputs'' of
             Some (JArr js) \<Rightarrow> sum_map parse_artifact js
           | _ \<Rightarrow> Inr []))"

definition output_still_valid :: "FileSystem \<Rightarrow> CachedArtifact \<Rightarrow> bool" where
  "output_still_valid fs snap =
     (let probed = probe_artifact fs (ca_logical_name snap) (ca_path snap) (ca_checksum snap \<noteq> None) in
      if \<not> art_exists probed then False
      else case ca_checksum snap of
             Some c \<Rightarrow> art_checksum probed = Some c
           | None \<Rightarrow> art_size_bytes probed = ca_size_bytes snap)"

record CacheStore =
  cs_repo :: CacheTable
  cs_enabled :: bool

definition cache_lookup ::
    "JsonCodec \<Rightarrow> FileSystem \<Rightarrow> CacheStore \<Rightarrow> string \<Rightarrow> int \<Rightarrow> JsonError + CachedOutcome option \<times> CacheStore" where
  "cache_lookup codec fs cs cache_key now_ms =
     (if \<not> cs_enabled cs then Inr (None, cs)
      else case repo_lookup (cs_repo cs) cache_key of
        None \<Rightarrow> Inr (None, cs)
      | Some rec \<Rightarrow>
          sum_bind (parse_outputs codec (row_outputs_json rec)) (\<lambda>outputs.
            if \<exists>snap \<in> set outputs. \<not> output_still_valid fs snap
            then Inr (None, cs\<lparr>cs_repo := repo_remove (cs_repo cs) cache_key\<rparr>)
            else Inr (Some \<lparr>co_exit_code = row_exit_code rec, co_outputs = outputs\<rparr>,
                      cs\<lparr>cs_repo := repo_touch (cs_repo cs) cache_key now_ms\<rparr>)))"

definition cache_store :: "JsonCodec \<Rightarrow> CacheStore \<Rightarrow> string \<Rightarrow> string \<Rightarrow> CachedOutcome \<Rightarrow> int \<Rightarrow> CacheStore" where
  "cache_store codec cs cache_key task_id outcome now_ms =
     (if \<not> cs_enabled cs \<or> co_exit_code outcome \<noteq> 0 then cs
      else cs\<lparr>cs_repo := repo_store (cs_repo cs) cache_key task_id (co_exit_code outcome)
                          (serialize_outputs codec (co_outputs outcome)) now_ms\<rparr>)"

section \<open>The table\<close>

text \<open>What the store relies on: a table keyed by the cache key.\<close>

locale keyed_table =
  fixes look :: "'t \<Rightarrow> 'k \<Rightarrow> 'r option"
    and put :: "'t \<Rightarrow> 'k \<Rightarrow> 'v \<Rightarrow> 't"
    and del :: "'t \<Rightarrow> 'k \<Rightarrow> 't"
    and val_of :: "'r \<Rightarrow> 'v"
  assumes look_put: "map_option val_of (look (put t k v) k') = (if k' = k then Some v else map_option val_of (look t k'))"
    and look_del: "look (del t k) k' = (if k' = k then None else look t k')"
begin

lemma put_same: "\<exists>r. look (put t k v) k = Some r \<and> val_of r = v"
  using look_put [of t k v k] by (cases "look (put t k v) k") auto

lemma put_put: "map_option val_of (look (put (put t k v) k w) k') = map_option val_of (look (put t k w) k')"
  by (simp add: look_put)

lemma del_put: "k' \<noteq> k \<Longrightarrow> map_option val_of (look (del (put t k v) k) k') = map_option val_of (look t k')"
  by (simp add: look_del look_put)

lemma put_del_same: "look (del (put t k v) k) k = None"
  by (simp add: look_del)

end

lemma find_append: "List.find P (xs @ ys) = (case List.find P xs of None \<Rightarrow> List.find P ys | Some x \<Rightarrow> Some x)"
  by (induction xs) auto

lemma find_map_key:
  "(\<And>r. row_cache_key (f r) = row_cache_key r) \<Longrightarrow>
   repo_lookup (map f t) k = map_option f (repo_lookup t k)"
  by (induction t) (auto simp: repo_lookup_def)

lemma repo_lookup_key: "repo_lookup t k = Some r \<Longrightarrow> row_cache_key r = k"
  by (auto simp: repo_lookup_def find_Some_iff)

definition row_payload :: "CacheRow \<Rightarrow> int \<times> string" where
  "row_payload r = (row_exit_code r, row_outputs_json r)"

lemma repo_lookup_store:
  "map_option row_payload (repo_lookup (repo_store t k tid ec js now) k') =
     (if k' = k then Some (ec, js) else map_option row_payload (repo_lookup t k'))"
proof (cases "repo_lookup t k")
  case None
  then show ?thesis
    by (auto simp: repo_store_def repo_lookup_def find_append row_payload_def split: option.splits)
next
  case (Some r)
  then have "repo_lookup (repo_store t k tid ec js now) k' =
      map_option (\<lambda>r. if row_cache_key r = k
                    then r\<lparr>row_exit_code := ec, row_outputs_json := js, row_last_used_at := now\<rparr> else r)
        (repo_lookup t k')"
    by (simp add: repo_store_def find_map_key)
  with Some show ?thesis
    by (cases "repo_lookup t k'") (auto simp: row_payload_def dest: repo_lookup_key)
qed

lemma repo_lookup_remove: "repo_lookup (repo_remove t k) k' = (if k' = k then None else repo_lookup t k')"
  by (induction t) (auto simp: repo_remove_def repo_lookup_def)

lemma repo_lookup_touch:
  "map_option row_payload (repo_lookup (repo_touch t k now) k') = map_option row_payload (repo_lookup t k')"
  by (cases "repo_lookup t k'") (auto simp: repo_touch_def find_map_key row_payload_def)

interpretation rows: keyed_table repo_lookup "\<lambda>t k v. repo_store t k tid (fst v) (snd v) now" repo_remove row_payload
  by unfold_locales (simp_all add: repo_lookup_store repo_lookup_remove)

text \<open>\<^verbatim>\<open>cache_key\<close> is \<^verbatim>\<open>UNIQUE\<close>, and every operation keeps it so.\<close>

definition table_ok :: "CacheTable \<Rightarrow> bool" where
  "table_ok t \<longleftrightarrow> distinct (map row_cache_key t)"

lemma table_ok_store: "table_ok t \<Longrightarrow> table_ok (repo_store t k tid ec js now)"
  by (auto simp: table_ok_def repo_store_def repo_lookup_def find_None_iff o_def if_distrib cong: if_cong)

lemma table_ok_touch: "table_ok t \<Longrightarrow> table_ok (repo_touch t k now)"
  by (simp add: table_ok_def repo_touch_def o_def if_distrib cong: if_cong)

lemma table_ok_remove: "table_ok t \<Longrightarrow> table_ok (repo_remove t k)"
  by (simp add: table_ok_def repo_remove_def distinct_map_filter)

section \<open>Payload round trip\<close>

lemma parse_artifact_json: "parse_artifact (artifact_json a) = Inr a"
  by (cases "ca_checksum a") (simp_all add: parse_artifact_def artifact_json_def Let_def less_char_def)

lemma outputs_roundtrip:
  "prints_back codec (outputs_doc os) \<Longrightarrow> parse_outputs codec (serialize_outputs codec os) = Inr os"
  by (simp add: parse_outputs_def serialize_outputs_def prints_back_def sum_map_inverse
      parse_artifact_json outputs_doc_def)

section \<open>Lookup and store\<close>

lemma cache_store_other:
  "k' \<noteq> k \<Longrightarrow>
   map_option row_payload (repo_lookup (cs_repo (cache_store codec cs k tid oc now)) k')
   = map_option row_payload (repo_lookup (cs_repo cs) k')"
  by (simp add: cache_store_def repo_lookup_store)

lemma lookup_after_store:
  assumes "cs_enabled cs" "co_exit_code oc = 0" "prints_back codec (outputs_doc (co_outputs oc))"
    and valid: "\<And>a. a \<in> set (co_outputs oc) \<Longrightarrow> output_still_valid fs a"
  shows "\<exists>cs'. cache_lookup codec fs (cache_store codec cs k tid oc now) k now' = Inr (Some oc, cs')"
proof -
  let ?t = "repo_store (cs_repo cs) k tid 0 (serialize_outputs codec (co_outputs oc)) now"
  from rows.put_same [of "cs_repo cs" k tid "(0, serialize_outputs codec (co_outputs oc))" now]
  obtain r where r: "repo_lookup ?t k = Some r"
      "row_payload r = (0, serialize_outputs codec (co_outputs oc))" by auto
  then show ?thesis
    using assms by (simp add: cache_lookup_def cache_store_def row_payload_def outputs_roundtrip)
qed

lemma lookup_hit_recorded:
  assumes "cache_lookup codec fs cs k now = Inr (Some oc, cs')"
  shows "\<exists>r. repo_lookup (cs_repo cs) k = Some r \<and> row_exit_code r = co_exit_code oc \<and>
             parse_outputs codec (row_outputs_json r) = Inr (co_outputs oc)"
    and "\<forall>a \<in> set (co_outputs oc). output_still_valid fs a"
    and "cs' = cs\<lparr>cs_repo := repo_touch (cs_repo cs) k now\<rparr>"
  using assms
  by (auto simp: cache_lookup_def sum_bind_def split: if_splits option.splits sum.splits)

text \<open>A stale entry is dropped: it misses, and no later lookup finds the row again.\<close>

lemma lookup_stale:
  assumes "cs_enabled cs" "repo_lookup (cs_repo cs) k = Some r"
    "parse_outputs codec (row_outputs_json r) = Inr os" "\<exists>a \<in> set os. \<not> output_still_valid fs a"
  shows "\<exists>cs'. cache_lookup codec fs cs k now = Inr (None, cs') \<and> repo_lookup (cs_repo cs') k = None"
  using assms by (simp add: cache_lookup_def repo_lookup_remove)

lemma lookup_keeps_table: "table_ok (cs_repo cs) \<Longrightarrow> cache_lookup codec fs cs k now = Inr (res, cs') \<Longrightarrow>
   table_ok (cs_repo cs')"
  by (auto simp: cache_lookup_def sum_bind_def table_ok_remove table_ok_touch
      split: if_splits option.splits sum.splits)

section \<open>What the key determines\<close>

lemma lines_inj:
  assumes "concat (map (\<lambda>x. x @ [nl]) xs) = concat (map (\<lambda>x. x @ [nl]) ys)"
    "\<forall>x \<in> set xs. nl \<notin> set x" "\<forall>y \<in> set ys. nl \<notin> set y"
  shows "xs = ys"
  using assms
proof (induction xs arbitrary: ys)
  case Nil
  then show ?case by (cases ys) auto
next
  case (Cons x xs)
  obtain y ys' where ys: "ys = y # ys'" using Cons.prems(1) by (cases ys) auto
  have "x @ nl # concat (map (\<lambda>x. x @ [nl]) xs) = y @ nl # concat (map (\<lambda>x. x @ [nl]) ys')"
    using Cons.prems(1) ys by simp
  then have "x = y \<and> concat (map (\<lambda>x. x @ [nl]) xs) = concat (map (\<lambda>x. x @ [nl]) ys')"
    using Cons.prems(2,3) ys sep_split_unique by (metis list.set_intros(1))
  with Cons ys show ?case by auto
qed

definition field_line :: "string \<times> string \<Rightarrow> string" where
  "field_line f = fst f @ [CHR 0x09] @ snd f"

lemma cache_blob_lines: "cache_blob t i = concat (map (\<lambda>x. x @ [CHR 0x0A]) (map field_line (blob_fields t i)))"
  by (simp add: cache_blob_def blob_line_def field_line_def o_def case_prod_unfold)

definition blob_tags :: "string set" where
  "blob_tags = {''v'', ''type'', ''program'', ''script'', ''arg'', ''env'', ''cwd'', ''in''}"

lemma blob_fields_tags: "f \<in> set (blob_fields t i) \<Longrightarrow> fst f \<in> blob_tags"
  by (auto simp: blob_fields_def blob_tags_def)

lemma blob_tag_clean: "tag \<in> blob_tags \<Longrightarrow> CHR 0x09 \<notin> set tag \<and> CHR 0x0A \<notin> set tag"
  by (auto simp: blob_tags_def)

lemma field_line_inj: "fst f \<in> blob_tags \<Longrightarrow> fst g \<in> blob_tags \<Longrightarrow> field_line f = field_line g \<Longrightarrow> f = g"
  using sep_split_unique [of "fst f" "CHR 0x09" "snd f" "fst g" "snd g"] blob_tag_clean [of "fst f"]
    blob_tag_clean [of "fst g"]
  by (simp add: field_line_def prod_eq_iff)

definition newline_free :: "TaskDefinition \<Rightarrow> Artifact list \<Rightarrow> bool" where
  "newline_free t i \<longleftrightarrow> (\<forall>f \<in> set (blob_fields t i). CHR 0x0A \<notin> set (snd f))"

lemma newline_free_lines: "newline_free t i \<Longrightarrow> l \<in> field_line ` set (blob_fields t i) \<Longrightarrow> CHR 0x0A \<notin> set l"
  using blob_tag_clean blob_fields_tags by (fastforce simp: newline_free_def field_line_def)

lemma cache_blob_fields:
  assumes "cache_blob t i = cache_blob t' i'" "newline_free t i" "newline_free t' i'"
  shows "blob_fields t i = blob_fields t' i'"
proof -
  have "map field_line (blob_fields t i) = map field_line (blob_fields t' i')"
    using assms newline_free_lines unfolding cache_blob_lines by (intro lines_inj) auto
  moreover have "f = g" if "f \<in> set (blob_fields t i)" "g \<in> set (blob_fields t' i')" "field_line f = field_line g"
    for f g
    using that blob_fields_tags by (intro field_line_inj) auto
  ultimately show ?thesis by (intro list.inj_map_strong [of _ _ field_line field_line])
qed

definition fields_of :: "string \<Rightarrow> (string \<times> string) list \<Rightarrow> string list" where
  "fields_of tag fs = map snd (filter (\<lambda>f. fst f = tag) fs)"

lemma fields_of_append: "fields_of tag (a @ b) = fields_of tag a @ fields_of tag b"
  by (simp add: fields_of_def)

lemma fields_of_map: "fields_of tag (map (Pair tg) vs) = (if tg = tag then vs else [])"
  by (induction vs) (auto simp: fields_of_def)

lemma fields_of_Cons: "fields_of tag ((tg, v) # fs) = (if tg = tag then v # fields_of tag fs else fields_of tag fs)"
  by (simp add: fields_of_def)

lemma fields_of_Nil: "fields_of tag [] = []"
  by (simp add: fields_of_def)

lemmas fields_of_simps = fields_of_append fields_of_map fields_of_Cons fields_of_Nil

definition env_lines :: "TaskDefinition \<Rightarrow> string list" where
  "env_lines t = map (\<lambda>(k, v). k @ ''='' @ v) (td_environment t)"

lemma blob_fields_of:
  "fields_of ''type'' (blob_fields t i) = [to_string_TaskType (td_type t)]"
  "fields_of ''program'' (blob_fields t i) = [td_program t]"
  "fields_of ''script'' (blob_fields t i) = [td_script t]"
  "fields_of ''arg'' (blob_fields t i) = td_arguments t"
  "fields_of ''env'' (blob_fields t i) = sort (env_lines t)"
  "fields_of ''cwd'' (blob_fields t i) = [td_working_directory t]"
  "fields_of ''in'' (blob_fields t i) = sort (map identity i)"
  by (simp_all add: blob_fields_def fields_of_simps env_lines_def)

lemma mset_of_sort_eq: "sort xs = sort ys \<Longrightarrow> mset xs = mset ys"
  by (metis mset_sort)

lemma to_string_TaskType_inj: "to_string_TaskType a = to_string_TaskType b \<Longrightarrow> a = b"
  by (cases a; cases b) simp_all

lemma cache_blob_determines:
  assumes "cache_blob t i = cache_blob t' i'" "newline_free t i" "newline_free t' i'"
  shows "td_type t = td_type t'" "td_program t = td_program t'" "td_script t = td_script t'"
    "td_arguments t = td_arguments t'" "mset (env_lines t) = mset (env_lines t')"
    "td_working_directory t = td_working_directory t'" "mset (map identity i) = mset (map identity i')"
  using cache_blob_fields [OF assms] blob_fields_of [of t i] blob_fields_of [of t' i']
  by (auto intro!: mset_of_sort_eq to_string_TaskType_inj simp del: mset_map)

text \<open>Equal ingredients, in any order of the environment and the inputs, give the same key.\<close>

lemma cache_blob_order_free:
  assumes "td_type t = td_type t'" "td_program t = td_program t'" "td_script t = td_script t'"
    "td_arguments t = td_arguments t'" "mset (env_lines t) = mset (env_lines t')"
    "td_working_directory t = td_working_directory t'" "mset (map identity i) = mset (map identity i')"
  shows "cache_blob t i = cache_blob t' i'"
proof -
  have "sort (env_lines t) = sort (env_lines t')" "sort (map identity i) = sort (map identity i')"
    using assms by (simp_all add: properties_for_sort)
  then have "blob_fields t i = blob_fields t' i'"
    using assms by (simp add: blob_fields_def env_lines_def)
  then show ?thesis by (simp add: cache_blob_def)
qed

lemma cache_key_order_free:
  assumes "td_type t = td_type t'" "td_program t = td_program t'" "td_script t = td_script t'"
    "td_arguments t = td_arguments t'" "mset (env_lines t) = mset (env_lines t')"
    "td_working_directory t = td_working_directory t'" "mset (map identity i) = mset (map identity i')"
  shows "compute_cache_key t i = compute_cache_key t' i'"
  using cache_blob_order_free [OF assms] by (simp add: compute_cache_key_def)

end
