(* ===== verification/Process_Spec.thy ===== *)
theory Process_Spec
  imports Domain
begin

text \<open>
  How a child process is described and how its end is reported:
  \<^verbatim>\<open>src/src/core/process/process_spec.cpp\<close> with \<^verbatim>\<open>process_spec.hpp\<close> and
  \<^verbatim>\<open>process_result.hpp\<close>. The environment of the calling process, read from
  \<^verbatim>\<open>environ\<close>, is an argument.
\<close>

section \<open>Outcomes and results\<close>

datatype ProcessOutcome = poExited | poSignalled | poTimedOut | poCancelled | poSpawnFailed

fun to_string_ProcessOutcome :: "ProcessOutcome \<Rightarrow> string" where
  "to_string_ProcessOutcome poExited = ''exited''"
| "to_string_ProcessOutcome poSignalled = ''signalled''"
| "to_string_ProcessOutcome poTimedOut = ''timed_out''"
| "to_string_ProcessOutcome poCancelled = ''cancelled''"
| "to_string_ProcessOutcome poSpawnFailed = ''spawn_failed''"

record ProcessResult =
  pr_outcome :: ProcessOutcome
  pr_exit_code :: int
  pr_term_signal :: int
  pr_pid :: "int option"
  pr_spawn_error :: string
  pr_duration :: Millis

definition ProcessResult_default :: ProcessResult where
  "ProcessResult_default =
     \<lparr>pr_outcome = poSpawnFailed, pr_exit_code = -1, pr_term_signal = 0, pr_pid = None,
      pr_spawn_error = [], pr_duration = 0\<rparr>"

definition pr_succeeded :: "ProcessResult \<Rightarrow> bool" where
  "pr_succeeded r \<longleftrightarrow> pr_outcome r = poExited \<and> pr_exit_code r = 0"

type_synonym ProcessHandle = nat

definition kInvalidHandle :: ProcessHandle where "kInvalidHandle = 0"

section \<open>ProcessSpec\<close>

record ProcessSpec =
  sp_program :: string
  sp_argv :: "string list"
  sp_environment :: "EnvVar list"
  sp_inherit_environment :: bool
  sp_working_directory :: string
  sp_timeout :: "Millis option"

definition validate :: "ProcessSpec \<Rightarrow> string option" where
  "validate sp =
     (if sp_program sp = [] then Some ''process spec has an empty program''
      else if sp_argv sp = [] then Some ''process spec has an empty argv (argv[0] is required)''
      else case sp_timeout sp of
             Some t \<Rightarrow> if t < 0 then Some ''process spec has a negative timeout'' else None
           | None \<Rightarrow> None)"

section \<open>build_environment_block\<close>

type_synonym env_acc = "string list \<times> (string \<rightharpoonup> string)"

definition put :: "env_acc \<Rightarrow> string \<Rightarrow> string \<Rightarrow> env_acc" where
  "put acc key v =
     (case acc of (ks, vals) \<Rightarrow>
      (if vals key = None then ks @ [key] else ks, vals(key \<mapsto> v)))"

definition put_inherited :: "env_acc \<Rightarrow> string \<Rightarrow> env_acc" where
  "put_inherited acc entry =
     (case find_char (CHR ''='') entry of
        None \<Rightarrow> acc
      | Some eq \<Rightarrow> put acc (take eq entry) (drop (Suc eq) entry))"

definition put_override :: "env_acc \<Rightarrow> EnvVar \<Rightarrow> env_acc" where
  "put_override acc kv =
     (case kv of (key, v) \<Rightarrow>
      if key = [] \<or> CHR ''='' \<in> set key then acc else put acc key v)"

definition env_table :: "string list \<Rightarrow> EnvVar list \<Rightarrow> bool \<Rightarrow> env_acc" where
  "env_table environ overrides inherit_current =
     foldl put_override
       (foldl put_inherited ([], Map.empty) (if inherit_current then environ else [])) overrides"

definition build_environment_block :: "string list \<Rightarrow> EnvVar list \<Rightarrow> bool \<Rightarrow> string list" where
  "build_environment_block environ overrides inherit_current =
     (case env_table environ overrides inherit_current of (ks, vals) \<Rightarrow>
      map (\<lambda>key. key @ ''='' @ (case vals key of Some v \<Rightarrow> v | None \<Rightarrow> [])) ks)"

section \<open>The block is a map\<close>

text \<open>The keys are the map's domain, each once, and none contains the separator.\<close>

definition env_acc_ok :: "env_acc \<Rightarrow> bool" where
  "env_acc_ok acc \<longleftrightarrow> distinct (fst acc) \<and> set (fst acc) = dom (snd acc) \<and>
     (\<forall>k \<in> set (fst acc). CHR ''='' \<notin> set k)"

lemma put_ok: "env_acc_ok acc \<Longrightarrow> CHR ''='' \<notin> set k \<Longrightarrow> env_acc_ok (put acc k v)"
  by (auto simp: env_acc_ok_def put_def split: prod.splits)

lemma put_inherited_ok: "env_acc_ok acc \<Longrightarrow> env_acc_ok (put_inherited acc e)"
  by (auto simp: put_inherited_def split: option.splits intro!: put_ok dest!: find_char_Some [THEN iffD1])

lemma put_override_ok: "env_acc_ok acc \<Longrightarrow> env_acc_ok (put_override acc kv)"
  by (auto simp: put_override_def split: prod.splits intro!: put_ok)

lemma foldl_ok: "(\<And>acc x. env_acc_ok acc \<Longrightarrow> env_acc_ok (f acc x)) \<Longrightarrow> env_acc_ok acc \<Longrightarrow> env_acc_ok (foldl f acc xs)"
  by (induction xs arbitrary: acc) auto

lemma env_table_ok: "env_acc_ok (env_table environ overrides inh)"
  unfolding env_table_def
  by (intro foldl_ok put_inherited_ok put_override_ok) (simp_all add: env_acc_ok_def)

definition well_formed_key :: "string \<Rightarrow> bool" where
  "well_formed_key k \<longleftrightarrow> k \<noteq> [] \<and> CHR ''='' \<notin> set k"

lemma put_override_lookup:
  "snd (put_override acc (k', v)) k = (if k' = k \<and> well_formed_key k then Some v else snd acc k)"
  by (auto simp: put_override_def put_def well_formed_key_def split: prod.splits)

lemma overrides_lookup:
  "snd (foldl put_override acc os) k =
     (case map_of (rev os) k of
        Some v \<Rightarrow> if well_formed_key k then Some v else snd acc k
      | None \<Rightarrow> snd acc k)"
proof (induction os rule: rev_induct)
  case (snoc o1 os)
  obtain k' v where o1: "o1 = (k', v)" by (cases o1)
  show ?case using snoc unfolding o1 by (auto simp: put_override_lookup split: option.splits)
qed simp

lemma block_lookup:
  "k @ ''='' @ v \<in> set (build_environment_block environ os inh) \<and> CHR ''='' \<notin> set k \<longleftrightarrow>
   snd (env_table environ os inh) k = Some v"
proof -
  obtain ks vals where t: "env_table environ os inh = (ks, vals)" by fastforce
  have ok: "set ks = dom vals" "\<forall>k \<in> set ks. CHR ''='' \<notin> set k"
    using env_table_ok [of environ os inh] by (auto simp: t env_acc_ok_def)
  show ?thesis
  proof
    assume a: "k @ ''='' @ v \<in> set (build_environment_block environ os inh) \<and> CHR ''='' \<notin> set k"
    then obtain k' where k': "k' \<in> set ks" and e: "k @ ''='' @ v = k' @ ''='' @ (case vals k' of Some v \<Rightarrow> v | None \<Rightarrow> [])"
      by (auto simp: build_environment_block_def t)
    have "k = k' \<and> v = (case vals k' of Some v \<Rightarrow> v | None \<Rightarrow> [])"
      using sep_split_unique [of k "CHR ''=''" v k'] e a ok(2) k' by simp
    with k' ok(1) show "snd (env_table environ os inh) k = Some v" by (auto simp: t)
  next
    assume v: "snd (env_table environ os inh) k = Some v"
    then have "k \<in> set ks" using ok(1) by (auto simp: t)
    with v ok(2) show "k @ ''='' @ v \<in> set (build_environment_block environ os inh) \<and> CHR ''='' \<notin> set k"
      by (force simp: build_environment_block_def t)
  qed
qed

end
