(* ===== verification/Scheduler.thy ===== *)
theory Scheduler
  imports Dag_Build Ready_Queue Resource_Pool Cache Process_Spec
begin

text \<open>
  The scheduler of \<^verbatim>\<open>src/src/core/scheduler/scheduler.cpp\<close>: the state that
  \<^verbatim>\<open>run()\<close> owns and every operation on it. What the scheduler asks of the outside is
  collected in a record of the run's environment: the pipeline and its graph, the
  configuration, the ordering policy, the JSON codec of the cache, and what the clock, the
  file system and \<^verbatim>\<open>ProcessRunner::launch\<close> answer at each reading. Every reading advances a
  tick counter, so two readings may differ. Calls to the observer and to the runner are
  recorded in the order they are made.
\<close>

section \<open>State\<close>

record NodeState =
  ns_state :: TaskState
  ns_remaining_deps :: nat
  ns_attempts_made :: int
  ns_handle :: ProcessHandle
  ns_retry_not_before :: TimePoint
  ns_waiting_for_retry :: bool
  ns_reserved :: ResourceRequirements
  ns_has_reservation :: bool
  ns_attempt_started :: TimePoint

definition NodeState_default :: NodeState where
  "NodeState_default =
     \<lparr>ns_state = tsPending, ns_remaining_deps = 0, ns_attempts_made = 0, ns_handle = kInvalidHandle,
      ns_retry_not_before = 0, ns_waiting_for_retry = False, ns_reserved = single_core,
      ns_has_reservation = False, ns_attempt_started = 0\<rparr>"

datatype Event =
    kProcessFinished (ev_node: nat) (ev_result: ProcessResult) (ev_attempt: int)
  | kLogLine (ev_node: nat) (ev_stream: string) (ev_line: string) (ev_attempt: int)
  | kCancel

text \<open>Calls on \<^verbatim>\<open>SchedulerObserver\<close> and on \<^verbatim>\<open>ProcessRunner\<close>.\<close>

datatype Notice =
    on_run_started PipelineRun
  | on_task_state_changed TaskRun TaskState
  | on_task_attempt_recorded TaskRun TaskAttempt
  | on_task_log TaskId int string string
  | on_run_finished PipelineRun

datatype RunnerCall =
    launch_call ProcessHandle nat int ProcessSpec
  | request_terminate_call ProcessHandle bool

record SchedulerConfig =
  cfg_max_concurrency :: int
  cfg_resource_capacity :: ResourceCapacity
  cfg_verify_outputs :: bool
  cfg_force_checksums :: bool

record RunEnv =
  e_pipeline :: PipelineDefinition
  e_graph :: Dag
  e_config :: SchedulerConfig
  e_has_cache :: bool   \<comment> \<open>\<^verbatim>\<open>cache_ != nullptr\<close>\<close>
  e_prefer :: policy
  e_codec :: JsonCodec
  e_now :: "nat \<Rightarrow> TimePoint"
  e_fs :: "nat \<Rightarrow> FileSystem"
  e_launch :: "nat \<Rightarrow> ProcessHandle"

record Sched =
  s_nodes :: "nat \<Rightarrow> NodeState"   \<comment> \<open>indices below \<^verbatim>\<open>graph_.size()\<close>\<close>
  s_ready :: "ReadyEntry list"
  s_pool :: ResourcePool
  s_running_count :: nat
  s_run :: PipelineRun
  s_events :: "Event list"
  s_cancel_requested :: bool
  s_cancelling :: bool
  s_started :: bool
  s_cache :: CacheStore
  s_tick :: nat
  s_notices :: "Notice list"
  s_calls :: "RunnerCall list"
  s_callbacks :: "(ProcessHandle \<times> nat \<times> int) list"   \<comment> \<open>\<^verbatim>\<open>on_exit\<close> closures the runner still holds\<close>
  s_threw :: bool   \<comment> \<open>an exception is leaving \<^verbatim>\<open>run()\<close>\<close>

definition now :: "RunEnv \<Rightarrow> Sched \<Rightarrow> TimePoint \<times> Sched" where
  "now E s = (e_now E (s_tick s), s\<lparr>s_tick := Suc (s_tick s)\<rparr>)"

definition look_fs :: "RunEnv \<Rightarrow> Sched \<Rightarrow> FileSystem \<times> Sched" where
  "look_fs E s = (e_fs E (s_tick s), s\<lparr>s_tick := Suc (s_tick s)\<rparr>)"

definition set_node :: "nat \<Rightarrow> (NodeState \<Rightarrow> NodeState) \<Rightarrow> Sched \<Rightarrow> Sched" where
  "set_node i f s = s\<lparr>s_nodes := (s_nodes s)(i := f (s_nodes s i))\<rparr>"

definition notify :: "Notice \<Rightarrow> Sched \<Rightarrow> Sched" where
  "notify x s = s\<lparr>s_notices := s_notices s @ [x]\<rparr>"

section \<open>Construction\<close>

definition max_concurrency :: "RunEnv \<Rightarrow> int" where
  "max_concurrency E = (if cfg_max_concurrency (e_config E) < 1 then 1 else cfg_max_concurrency (e_config E))"

definition e_size :: "RunEnv \<Rightarrow> nat" where
  "e_size E = dag_size (e_graph E)"

definition base_dir :: "RunEnv \<Rightarrow> string" where
  "base_dir E = (if pd_base_directory (e_pipeline E) = [] then ''.'' else pd_base_directory (e_pipeline E))"

definition task_of :: "RunEnv \<Rightarrow> nat \<Rightarrow> TaskDefinition" where
  "task_of E i = the (find_task (e_pipeline E) (id_at (e_graph E) i))"

definition new_task_run :: "TaskId \<Rightarrow> TaskRun" where
  "new_task_run v = \<lparr>tr_task_id = v, tr_state = tsPending, tr_ready_at = None, tr_started_at = None,
                     tr_finished_at = None, tr_attempts = []\<rparr>"

definition missing_task_message :: "TaskId \<Rightarrow> string" where
  "missing_task_message v =
     ''scheduler: graph node '' @ [CHR 0x27] @ v @ [CHR 0x27] @ '' has no matching task definition''"

definition Scheduler_new :: "RunEnv \<Rightarrow> CacheStore \<Rightarrow> string + Sched" where
  "Scheduler_new E cache =
     (case List.find (\<lambda>v. find_task (e_pipeline E) v = None) (g_nodes (e_graph E)) of
        Some v \<Rightarrow> Inl (missing_task_message v)
      | None \<Rightarrow> Inr
         \<lparr>s_nodes = (\<lambda>i. NodeState_default\<lparr>ns_remaining_deps :=
                       (if i < e_size E then g_in_degree (e_graph E) ! i else 0)\<rparr>),
          s_ready = [],
          s_pool = mk_ResourcePool (cfg_resource_capacity (e_config E)),
          s_running_count = 0,
          s_run = \<lparr>run_id = 0, run_pipeline_id = 0, run_pipeline_name = pd_name (e_pipeline E),
                   run_state = psCreated, run_created_at = e_now E 0, run_started_at = None,
                   run_finished_at = None, run_max_concurrency = max_concurrency E,
                   run_task_runs = foldl (\<lambda>m v. map_emplace v (new_task_run v) m) [] (g_nodes (e_graph E))\<rparr>,
          s_events = [], s_cancel_requested = False, s_cancelling = False, s_started = False,
          s_cache = cache, s_tick = 1, s_notices = [], s_calls = [], s_callbacks = [], s_threw = False\<rparr>)"

section \<open>Helpers\<close>

definition run_of :: "RunEnv \<Rightarrow> Sched \<Rightarrow> nat \<Rightarrow> TaskRun" where
  "run_of E s i = the (run_task (s_run s) (id_at (e_graph E) i))"

definition set_run_of :: "RunEnv \<Rightarrow> nat \<Rightarrow> (TaskRun \<Rightarrow> TaskRun) \<Rightarrow> Sched \<Rightarrow> Sched" where
  "set_run_of E i f s =
     s\<lparr>s_run := (s_run s)\<lparr>run_task_runs := map_modify (id_at (e_graph E) i) f (run_task_runs (s_run s))\<rparr>\<rparr>"

definition stamp_run :: "TaskState \<Rightarrow> TimePoint \<Rightarrow> TaskRun \<Rightarrow> TaskRun" where
  "stamp_run nxt stamp tr =
     tr\<lparr>tr_state := nxt,
        tr_ready_at := (if nxt = tsReady \<and> tr_ready_at tr = None then Some stamp else tr_ready_at tr),
        tr_started_at := (if nxt = tsRunning \<and> tr_started_at tr = None then Some stamp else tr_started_at tr),
        tr_finished_at := (if is_terminal_task nxt \<and> tr_finished_at tr = None then Some stamp
                           else tr_finished_at tr)\<rparr>"

definition mark_state :: "RunEnv \<Rightarrow> nat \<Rightarrow> TaskState \<Rightarrow> Sched \<Rightarrow> Sched" where
  "mark_state E i nxt s =
     (let prev = ns_state (s_nodes s i) in
      if prev = nxt then s
      else let s1 = set_node i (\<lambda>ns. ns\<lparr>ns_state := nxt\<rparr>) s;
               (stamp, s2) = now E s1;
               s3 = set_run_of E i (stamp_run nxt stamp) s2
           in notify (on_task_state_changed (run_of E s3 i) prev) s3)"

definition record_attempt :: "RunEnv \<Rightarrow> nat \<Rightarrow> TaskState \<Rightarrow> TaskResult \<Rightarrow> int option \<Rightarrow> Sched \<Rightarrow> Sched" where
  "record_attempt E i final_state result pid s =
     (let ns = s_nodes s i;
          (started, s1) = (if ns_attempt_started ns \<noteq> 0 then (ns_attempt_started ns, s) else now E s);
          (finished, s2) = now E s1;
          att = \<lparr>att_number = max 1 (ns_attempts_made ns), att_final_state = final_state, att_pid = pid,
                 att_started_at = Some started, att_finished_at = Some finished, att_result = result\<rparr>;
          s3 = set_run_of E i (\<lambda>tr. tr\<lparr>tr_attempts := tr_attempts tr @ [att]\<rparr>) s2
      in notify (on_task_attempt_recorded (run_of E s3 i) att) s3)"

definition release_reservation :: "nat \<Rightarrow> Sched \<Rightarrow> Sched" where
  "release_reservation i s =
     (if ns_has_reservation (s_nodes s i)
      then set_node i (\<lambda>ns. ns\<lparr>ns_has_reservation := False\<rparr>)
             (s\<lparr>s_pool := release (s_pool s) (ns_reserved (s_nodes s i))\<rparr>)
      else s)"

definition all_settled :: "RunEnv \<Rightarrow> Sched \<Rightarrow> bool" where
  "all_settled E s \<longleftrightarrow>
     s_running_count s = 0 \<and> s_ready s = [] \<and>
     (\<forall>i \<in> set [0..<e_size E]. \<not> ns_waiting_for_retry (s_nodes s i))"

definition TimePoint_max :: TimePoint where "TimePoint_max = 2 ^ 63 - 1"

definition earliest_retry_deadline :: "RunEnv \<Rightarrow> Sched \<Rightarrow> TimePoint" where
  "earliest_retry_deadline E s =
     foldl (\<lambda>earliest i. let ns = s_nodes s i in
              if ns_waiting_for_retry ns \<and> ns_retry_not_before ns < earliest
              then ns_retry_not_before ns else earliest)
       TimePoint_max [0..<e_size E]"

definition mk_entry :: "RunEnv \<Rightarrow> nat \<Rightarrow> TimePoint \<Rightarrow> ReadyEntry" where
  "mk_entry E i since =
     \<lparr>re_node = i, re_task_id = id_at (e_graph E) i, re_priority = td_priority (task_of E i),
      re_ready_since = since\<rparr>"

definition push_ready :: "RunEnv \<Rightarrow> nat \<Rightarrow> TimePoint \<Rightarrow> Sched \<Rightarrow> Sched" where
  "push_ready E i since s = s\<lparr>s_ready := push (e_prefer E) (mk_entry E i since) (s_ready s)\<rparr>"

definition push_now :: "RunEnv \<Rightarrow> nat \<Rightarrow> Sched \<Rightarrow> Sched" where
  "push_now E i s = (let (t, s1) = now E s in push_ready E i t s1)"

definition promote_one :: "RunEnv \<Rightarrow> TimePoint \<Rightarrow> Sched \<Rightarrow> nat \<Rightarrow> Sched" where
  "promote_one E stamp s i =
     (if ns_waiting_for_retry (s_nodes s i) \<and> ns_retry_not_before (s_nodes s i) \<le> stamp
      then push_ready E i stamp (set_node i (\<lambda>ns. ns\<lparr>ns_waiting_for_retry := False\<rparr>) s)
      else s)"

definition promote_backoff_ready :: "RunEnv \<Rightarrow> Sched \<Rightarrow> Sched" where
  "promote_backoff_ready E s =
     (if s_cancelling s then s
      else let (stamp, s1) = now E s in foldl (promote_one E stamp) s1 [0..<e_size E])"

section \<open>Propagation to dependents\<close>

subsection \<open>skip_downstream\<close>

definition skip_one :: "RunEnv \<Rightarrow> Sched \<times> nat list \<Rightarrow> TaskId \<Rightarrow> Sched \<times> nat list" where
  "skip_one E st dep_id =
     (case st of (s, stack) \<Rightarrow>
      case index_of (e_graph E) dep_id of
        None \<Rightarrow> (s, stack)
      | Some d \<Rightarrow>
          if is_terminal_task (ns_state (s_nodes s d)) \<or> ns_state (s_nodes s d) = tsRunning
          then (s, stack)
          else (mark_state E d tsSkipped
                  (set_node d (\<lambda>ns. ns\<lparr>ns_waiting_for_retry := False\<rparr>)
                    (s\<lparr>s_ready := snd (remove_id dep_id (s_ready s))\<rparr>)),
                d # stack))"

text \<open>What \<open>mark_state\<close> and the record updates leave unchanged.\<close>

lemma set_node_sel [simp]:
  "s_nodes (set_node i f s) = (s_nodes s)(i := f (s_nodes s i))"
  "s_ready (set_node i f s) = s_ready s" "s_pool (set_node i f s) = s_pool s"
  "s_running_count (set_node i f s) = s_running_count s" "s_run (set_node i f s) = s_run s"
  "s_events (set_node i f s) = s_events s" "s_cancel_requested (set_node i f s) = s_cancel_requested s"
  "s_cancelling (set_node i f s) = s_cancelling s" "s_started (set_node i f s) = s_started s"
  "s_cache (set_node i f s) = s_cache s" "s_notices (set_node i f s) = s_notices s"
  "s_calls (set_node i f s) = s_calls s" "s_callbacks (set_node i f s) = s_callbacks s"
  "s_threw (set_node i f s) = s_threw s"
  by (simp_all add: set_node_def)

lemma mark_state_sel [simp]:
  "s_nodes (mark_state E i x s) = (s_nodes s)(i := (s_nodes s i)\<lparr>ns_state := x\<rparr>)"
  "s_ready (mark_state E i x s) = s_ready s" "s_pool (mark_state E i x s) = s_pool s"
  "s_running_count (mark_state E i x s) = s_running_count s"
  "s_events (mark_state E i x s) = s_events s" "s_cancel_requested (mark_state E i x s) = s_cancel_requested s"
  "s_cancelling (mark_state E i x s) = s_cancelling s" "s_started (mark_state E i x s) = s_started s"
  "s_cache (mark_state E i x s) = s_cache s"
  "s_calls (mark_state E i x s) = s_calls s" "s_callbacks (mark_state E i x s) = s_callbacks s"
  "s_threw (mark_state E i x s) = s_threw s"
  by (auto simp: mark_state_def Let_def now_def set_run_of_def notify_def fun_eq_iff)

definition index_range :: "Dag \<Rightarrow> nat set" where
  "index_range g = snd ` set (g_index g)"

lemma finite_index_range [simp]: "finite (index_range g)"
  by (simp add: index_range_def)

lemma index_of_range: "index_of g v = Some i \<Longrightarrow> i \<in> index_range g"
  unfolding index_of_def index_range_def by (force dest: map_of_SomeD)

definition open_count :: "RunEnv \<Rightarrow> Sched \<Rightarrow> nat" where
  "open_count E s = card {i \<in> index_range (e_graph E). \<not> is_terminal_task (ns_state (s_nodes s i))}"

lemma skip_one_measure:
  assumes eq: "skip_one E (s, stack) v = (s', stack')"
  shows "2 * open_count E s' + length stack' \<le> 2 * open_count E s + length stack"
proof (cases "index_of (e_graph E) v")
  case None
  with eq show ?thesis by (simp add: skip_one_def)
next
  case (Some d)
  show ?thesis
  proof (cases "is_terminal_task (ns_state (s_nodes s d)) \<or> ns_state (s_nodes s d) = tsRunning")
    case True
    with Some eq show ?thesis by (simp add: skip_one_def)
  next
    case False
    have s': "s' = mark_state E d tsSkipped (set_node d (\<lambda>ns. ns\<lparr>ns_waiting_for_retry := False\<rparr>)
        (s\<lparr>s_ready := snd (remove_id v (s_ready s))\<rparr>))" and stack': "stack' = d # stack"
      using eq Some False by (simp_all add: skip_one_def)
    have "ns_state (s_nodes s' i) = (if i = d then tsSkipped else ns_state (s_nodes s i))" for i
      by (simp add: s')
    then have "open_count E s' < open_count E s"
      unfolding open_count_def using Some False index_of_range
      by (intro card_filter_less [where i = d]) (auto split: if_splits)
    with stack' show ?thesis by simp
  qed
qed

lemma foldl_skip_one_measure:
  "foldl (skip_one E) (s, stack) vs = (s', stack') \<Longrightarrow>
   2 * open_count E s' + length stack' \<le> 2 * open_count E s + length stack"
proof (induction vs arbitrary: s stack)
  case (Cons v vs)
  obtain s1 stack1 where 1: "skip_one E (s, stack) v = (s1, stack1)" by fastforce
  with Cons.prems have "foldl (skip_one E) (s1, stack1) vs = (s', stack')" by simp
  from Cons.IH [OF this] skip_one_measure [OF 1] show ?case by linarith
qed auto

function skip_loop :: "RunEnv \<Rightarrow> Sched \<Rightarrow> nat list \<Rightarrow> Sched" where
  "skip_loop E s [] = s"
| "skip_loop E s (cur # stack) =
     (let (s', stack') = foldl (skip_one E) (s, stack) (dependents (e_graph E) (id_at (e_graph E) cur))
      in skip_loop E s' stack')"
  by pat_completeness auto
termination
proof (relation "measure (\<lambda>(E, s, stack). 2 * open_count E s + length stack)", goal_cases)
  case (2 E s cur stack x s' stack')
  then have "2 * open_count E s' + length stack' \<le> 2 * open_count E s + length stack"
    using foldl_skip_one_measure [of E s stack _ s' stack'] by metis
  then show ?case by simp
qed simp

declare skip_loop.simps(2) [simp del]

definition skip_downstream :: "RunEnv \<Rightarrow> nat \<Rightarrow> Sched \<Rightarrow> Sched" where
  "skip_downstream E i s = skip_loop E s [i]"

subsection \<open>on_task_succeeded\<close>

definition snapshot :: "Artifact \<Rightarrow> CachedArtifact" where
  "snapshot art =
     \<lparr>ca_logical_name = art_logical_name art, ca_path = art_path art, ca_size_bytes = art_size_bytes art,
      ca_modified_unix_ms = art_modified_unix_ms art, ca_checksum = art_checksum art\<rparr>"

definition save_outcome :: "RunEnv \<Rightarrow> nat \<Rightarrow> Sched \<Rightarrow> Sched" where
  "save_outcome E i s =
     (let task = task_of E i;
          force = cfg_force_checksums (e_config E);
          (fs1, s1) = look_fs E s;
          outcome = \<lparr>co_exit_code = 0, co_outputs = map snapshot (probe_outputs fs1 (base_dir E) task force)\<rparr>;
          (fs2, s2) = look_fs E s1;
          key = compute_cache_key task (probe_inputs fs2 (base_dir E) task force);
          (t, s3) = now E s2
      in s3\<lparr>s_cache := cache_store (e_codec E) (s_cache s3) key (td_id task) outcome (to_unix_millis t)\<rparr>)"

definition use_cache :: "RunEnv \<Rightarrow> nat \<Rightarrow> Sched \<Rightarrow> bool" where
  "use_cache E i s \<longleftrightarrow> e_has_cache E \<and> cs_enabled (s_cache s) \<and> td_cache_enabled (task_of E i)"

definition propagate_one :: "RunEnv \<Rightarrow> Sched \<Rightarrow> TaskId \<Rightarrow> Sched" where
  "propagate_one E s dep_id =
     (case index_of (e_graph E) dep_id of
        None \<Rightarrow> s
      | Some d \<Rightarrow>
          let s1 = set_node d (\<lambda>ns. if 0 < ns_remaining_deps ns
                                   then ns\<lparr>ns_remaining_deps := ns_remaining_deps ns - 1\<rparr> else ns) s
          in if ns_remaining_deps (s_nodes s1 d) = 0 \<and> ns_state (s_nodes s1 d) = tsPending \<and> \<not> s_cancelling s1
             then push_now E d (mark_state E d tsReady s1)
             else s1)"

definition on_task_succeeded :: "RunEnv \<Rightarrow> nat \<Rightarrow> bool \<Rightarrow> Sched \<Rightarrow> Sched" where
  "on_task_succeeded E i from_cache s =
     foldl (propagate_one E) (if \<not> from_cache \<and> use_cache E i s then save_outcome E i s else s)
       (dependents (e_graph E) (id_at (e_graph E) i))"

subsection \<open>on_task_failed\<close>

definition on_task_failed :: "RunEnv \<Rightarrow> nat \<Rightarrow> TaskResult \<Rightarrow> Sched \<Rightarrow> Sched" where
  "on_task_failed E i result s =
     (let task = task_of E i; made = ns_attempts_made (s_nodes s i) in
      if res_retryable result \<and> should_retry (td_retry task) made
      then let next_attempt = made + 1;
               (t, s1) = now E s;
               s2 = set_node i (\<lambda>ns. ns\<lparr>
                      ns_retry_not_before := t + delay_before (td_retry task) next_attempt * ticks_per_ms,
                      ns_waiting_for_retry := True\<rparr>) s1
           in promote_backoff_ready E (mark_state E i tsReady s2)
      else skip_downstream E i (mark_state E i tsFailed s))"

section \<open>Completion\<close>

definition result_of :: "ResultKind \<Rightarrow> string \<Rightarrow> TaskResult" where
  "result_of kind msg =
     \<lparr>res_kind = kind, res_exit_code = None, res_term_signal = None, res_message = msg, res_detail = []\<rparr>"

definition classify :: "ProcessResult \<Rightarrow> TaskResult" where
  "classify pr =
     (case pr_outcome pr of
        poExited \<Rightarrow>
          if pr_exit_code pr = 0 then (result_of rkSucceeded [])\<lparr>res_exit_code := Some 0\<rparr>
          else (result_of rkFailedExit (''process exited with code '' @ to_string_int (pr_exit_code pr)))
                 \<lparr>res_exit_code := Some (pr_exit_code pr)\<rparr>
      | poSignalled \<Rightarrow>
          (result_of rkCrashed (''process terminated by signal '' @ to_string_int (pr_term_signal pr)))
            \<lparr>res_term_signal := Some (pr_term_signal pr)\<rparr>
      | poTimedOut \<Rightarrow>
          (result_of rkTimeout ''task exceeded its timeout'')\<lparr>res_term_signal := Some (pr_term_signal pr)\<rparr>
      | poCancelled \<Rightarrow>
          (result_of rkCancelled ''task cancelled'')\<lparr>res_term_signal := Some (pr_term_signal pr)\<rparr>
      | poSpawnFailed \<Rightarrow>
          result_of rkStartFailure
            (if pr_spawn_error pr = [] then ''process failed to start'' else pr_spawn_error pr))"

definition missing_output_message :: "string \<Rightarrow> string" where
  "missing_output_message name =
     ''task exited 0 but declared output '' @ [CHR 0x27] @ name @ [CHR 0x27] @ '' was not produced''"

text \<open>The result after checking the declared outputs of a task that exited 0.\<close>

definition check_outputs :: "RunEnv \<Rightarrow> nat \<Rightarrow> TaskResult \<Rightarrow> Sched \<Rightarrow> TaskResult \<times> Sched" where
  "check_outputs E i result s =
     (if res_ok result \<and> cfg_verify_outputs (e_config E)
      then let (fs, s1) = look_fs E s
           in case missing_outputs fs (base_dir E) (task_of E i) of
                [] \<Rightarrow> (result, s1)
              | name # _ \<Rightarrow> (result_of rkMissingOutput (missing_output_message name), s1)
      else (result, s))"

definition handle_process_finished :: "RunEnv \<Rightarrow> nat \<Rightarrow> ProcessResult \<Rightarrow> Sched \<Rightarrow> Sched" where
  "handle_process_finished E i pr s =
     (let s1 = s\<lparr>s_running_count := (if 0 < s_running_count s then s_running_count s - 1 else s_running_count s)\<rparr>;
          s2 = release_reservation i s1;
          (result, s3) = check_outputs E i (classify pr) s2;
          ok = res_ok result;
          s4 = record_attempt E i (if ok then tsSucceeded else tsFailed) result (pr_pid pr) s3
      in if ok then on_task_succeeded E i False (mark_state E i tsSucceeded s4)
         else if s_cancelling s4 \<or> res_kind result = rkCancelled then mark_state E i tsCancelled s4
         else on_task_failed E i result s4)"

section \<open>Launching\<close>

datatype StartOutcome = kLaunched | kResolvedInline | kResourceBlocked | kThrew

definition start_process :: "RunEnv \<Rightarrow> nat \<Rightarrow> Sched \<Rightarrow> Sched" where
  "start_process E i s =
     (let task = task_of E i;
          (t, s1) = now E s;
          s2 = set_node i (\<lambda>ns. ns\<lparr>ns_attempts_made := ns_attempts_made ns + 1, ns_attempt_started := t\<rparr>) s1;
          attempt = ns_attempts_made (s_nodes s2 i);
          s3 = (if attempt = 1 then set_run_of E i (\<lambda>tr. tr\<lparr>tr_started_at := Some t\<rparr>) s2 else s2);
          s4 = mark_state E i tsRunning s3;
          cmd = resolve_command task;
          spec = \<lparr>sp_program = cmd_program cmd, sp_argv = cmd_argv cmd, sp_environment = td_environment task,
                  sp_inherit_environment = True, sp_working_directory = resolve_working_dir (base_dir E) task,
                  sp_timeout = td_timeout task\<rparr>;
          h = e_launch E (s_tick s4);
          s5 = s4\<lparr>s_tick := Suc (s_tick s4), s_calls := s_calls s4 @ [launch_call h i attempt spec],
                  s_callbacks := (if h = kInvalidHandle then s_callbacks s4
                                  else s_callbacks s4 @ [(h, i, attempt)])\<rparr>;
          s6 = set_node i (\<lambda>ns. ns\<lparr>ns_handle := h\<rparr>) s5
      in s6\<lparr>s_running_count := Suc (s_running_count s6)\<rparr>)"

definition missing_input_message :: "string \<Rightarrow> string" where
  "missing_input_message name =
     ''required input '' @ [CHR 0x27] @ name @ [CHR 0x27] @ '' does not exist''"

text \<open>A task that fails without having been launched.\<close>

definition fail_inline :: "RunEnv \<Rightarrow> nat \<Rightarrow> TaskResult \<Rightarrow> Sched \<Rightarrow> Sched" where
  "fail_inline E i r s =
     skip_downstream E i (mark_state E i tsFailed (record_attempt E i tsFailed r None s))"

text \<open>The cache part of \<^verbatim>\<open>try_start\<close>: a hit, a miss, or an exception from the stored text.\<close>

definition consult_cache :: "RunEnv \<Rightarrow> nat \<Rightarrow> Artifact list \<Rightarrow> Sched \<Rightarrow> JsonError + CachedOutcome option \<times> Sched" where
  "consult_cache E i inputs s =
     (if use_cache E i s
      then let key = compute_cache_key (task_of E i) inputs;
               (t, s1) = now E s;
               (fs, s2) = look_fs E s1
           in sum_bind (cache_lookup (e_codec E) fs (s_cache s2) key (to_unix_millis t))
                (\<lambda>(hit, cs). Inr (hit, s2\<lparr>s_cache := cs\<rparr>))
      else Inr (None, s))"

definition try_start :: "RunEnv \<Rightarrow> nat \<Rightarrow> Sched \<Rightarrow> StartOutcome \<times> Sched" where
  "try_start E i s =
     (let task = task_of E i;
          (fs, s0) = look_fs E s;
          probed_inputs = probe_inputs fs (base_dir E) task (cfg_force_checksums (e_config E));
          missing = map art_logical_name (filter (\<lambda>art. \<not> art_exists art) probed_inputs)
      in case missing of
           name # _ \<Rightarrow> (kResolvedInline, fail_inline E i (result_of rkMissingInput (missing_input_message name)) s0)
         | [] \<Rightarrow>
           (case consult_cache E i probed_inputs s0 of
              Inl e \<Rightarrow> (kThrew, s0\<lparr>s_threw := True\<rparr>)
            | Inr (Some hit, s1) \<Rightarrow>
                (kResolvedInline,
                 on_task_succeeded E i True
                   (mark_state E i tsCached
                     (record_attempt E i tsCached
                       (TaskResult_success\<lparr>res_exit_code := Some (co_exit_code hit)\<rparr>) None s1)))
            | Inr (None, s1) \<Rightarrow>
                (case try_reserve (s_pool s1) (td_resources task) of
                   (False, _) \<Rightarrow> (kResourceBlocked, s1)
                 | (True, pool) \<Rightarrow>
                     (kLaunched,
                      start_process E i
                        (set_node i (\<lambda>ns. ns\<lparr>ns_reserved := td_resources task, ns_has_reservation := True\<rparr>)
                          (s1\<lparr>s_pool := pool\<rparr>))))))"

subsection \<open>What the operations leave unchanged\<close>

lemma now_sel [simp]: "fst (now E s) = e_now E (s_tick s)" "snd (now E s) = s\<lparr>s_tick := Suc (s_tick s)\<rparr>"
  by (simp_all add: now_def)

lemma look_fs_sel [simp]:
  "fst (look_fs E s) = e_fs E (s_tick s)" "snd (look_fs E s) = s\<lparr>s_tick := Suc (s_tick s)\<rparr>"
  by (simp_all add: look_fs_def)

text \<open>The operations that only write the run record, the cache, the tick and the notices.\<close>

definition same_core :: "Sched \<Rightarrow> Sched \<Rightarrow> bool" where
  "same_core s s' \<longleftrightarrow>
     s_nodes s' = s_nodes s \<and> s_ready s' = s_ready s \<and> s_pool s' = s_pool s \<and>
     s_running_count s' = s_running_count s \<and> s_events s' = s_events s \<and>
     s_cancel_requested s' = s_cancel_requested s \<and> s_cancelling s' = s_cancelling s \<and>
     s_started s' = s_started s \<and> s_calls s' = s_calls s \<and> s_callbacks s' = s_callbacks s \<and>
     s_threw s' = s_threw s"

lemma same_coreD:
  assumes "same_core s s'"
  shows "s_nodes s' = s_nodes s" "s_ready s' = s_ready s" "s_pool s' = s_pool s"
    "s_running_count s' = s_running_count s" "s_events s' = s_events s"
    "s_cancel_requested s' = s_cancel_requested s" "s_cancelling s' = s_cancelling s"
    "s_started s' = s_started s" "s_calls s' = s_calls s" "s_callbacks s' = s_callbacks s"
    "s_threw s' = s_threw s"
  using assms by (simp_all add: same_core_def)

lemma same_core_refl: "same_core s s"
  by (simp add: same_core_def)

lemma record_attempt_core [frame]: "same_core s (record_attempt E i x r p s)"
  by (simp add: same_core_def record_attempt_def Let_def now_def set_run_of_def notify_def split_beta)

lemma save_outcome_core [frame]: "same_core s (save_outcome E i s)"
  by (simp add: same_core_def save_outcome_def Let_def now_def look_fs_def)

lemma check_outputs_core [frame]: "same_core s (snd (check_outputs E i r s))"
  by (simp add: same_core_def check_outputs_def Let_def look_fs_def split: list.splits)

lemma consult_cache_core [frame]: "consult_cache E i inputs s = Inr (hit, s1) \<Longrightarrow> same_core s s1"
  by (auto simp: same_core_def consult_cache_def Let_def now_def look_fs_def sum_bind_def
      split: if_splits sum.splits prod.splits)

lemmas record_attempt_sel [simp] = same_coreD [OF record_attempt_core]
lemmas save_outcome_sel [simp] = same_coreD [OF save_outcome_core]
lemmas check_outputs_sel [simp] = same_coreD [OF check_outputs_core]

lemma push_now_sel [simp]:
  "s_nodes (push_now E i s) = s_nodes s"
  "s_ready (push_now E i s) = push (e_prefer E) (mk_entry E i (e_now E (s_tick s))) (s_ready s)"
  "s_pool (push_now E i s) = s_pool s" "s_running_count (push_now E i s) = s_running_count s"
  "s_run (push_now E i s) = s_run s" "s_events (push_now E i s) = s_events s"
  "s_cancel_requested (push_now E i s) = s_cancel_requested s"
  "s_cancelling (push_now E i s) = s_cancelling s" "s_started (push_now E i s) = s_started s"
  "s_notices (push_now E i s) = s_notices s"
  "s_calls (push_now E i s) = s_calls s" "s_callbacks (push_now E i s) = s_callbacks s"
  "s_threw (push_now E i s) = s_threw s"
  by (simp_all add: push_now_def push_ready_def now_def)

text \<open>The handle the runner returns for a launch made in state \<open>s\<close>.\<close>

definition launch_state :: "RunEnv \<Rightarrow> nat \<Rightarrow> Sched \<Rightarrow> Sched" where
  "launch_state E i s =
     (let (t, s1) = now E s;
          s2 = set_node i (\<lambda>ns. ns\<lparr>ns_attempts_made := ns_attempts_made ns + 1, ns_attempt_started := t\<rparr>) s1;
          s3 = (if ns_attempts_made (s_nodes s2 i) = 1
                then set_run_of E i (\<lambda>tr. tr\<lparr>tr_started_at := Some t\<rparr>) s2 else s2)
      in mark_state E i tsRunning s3)"

definition launch_handle :: "RunEnv \<Rightarrow> nat \<Rightarrow> Sched \<Rightarrow> ProcessHandle" where
  "launch_handle E i s = e_launch E (s_tick (launch_state E i s))"

lemma start_process_sel [simp]:
  "s_nodes (start_process E i s) = (s_nodes s)(i := (s_nodes s i)\<lparr>
     ns_state := tsRunning, ns_attempts_made := ns_attempts_made (s_nodes s i) + 1,
     ns_attempt_started := e_now E (s_tick s), ns_handle := launch_handle E i s\<rparr>)"
  "s_ready (start_process E i s) = s_ready s" "s_pool (start_process E i s) = s_pool s"
  "s_running_count (start_process E i s) = Suc (s_running_count s)"
  "s_events (start_process E i s) = s_events s"
  "s_cancel_requested (start_process E i s) = s_cancel_requested s"
  "s_cancelling (start_process E i s) = s_cancelling s" "s_started (start_process E i s) = s_started s"
  "s_callbacks (start_process E i s) =
     (if launch_handle E i s = kInvalidHandle then s_callbacks s
      else s_callbacks s @ [(launch_handle E i s, i, ns_attempts_made (s_nodes s i) + 1)])"
  "s_threw (start_process E i s) = s_threw s"
  "s_run (start_process E i s) = s_run (launch_state E i s)"
  "s_notices (start_process E i s) = s_notices (launch_state E i s)"
  by (simp_all add: start_process_def launch_handle_def launch_state_def Let_def now_def set_run_of_def fun_eq_iff)

subsection \<open>The launch loop ends\<close>

definition pend_count :: "RunEnv \<Rightarrow> Sched \<Rightarrow> nat" where
  "pend_count E s = card {i \<in> index_range (e_graph E). ns_state (s_nodes s i) = tsPending}"

definition launch_measure :: "RunEnv \<Rightarrow> Sched \<Rightarrow> nat" where
  "launch_measure E s = 2 * pend_count E s + length (s_ready s)"

lemma pend_count_mono:
  "(\<And>i. ns_state (s_nodes s' i) = tsPending \<Longrightarrow> ns_state (s_nodes s i) = tsPending) \<Longrightarrow>
   pend_count E s' \<le> pend_count E s"
  unfolding pend_count_def by (intro card_filter_le) auto

definition dec_deps :: "nat \<Rightarrow> Sched \<Rightarrow> Sched" where
  "dec_deps d s = set_node d (\<lambda>ns. if 0 < ns_remaining_deps ns
                                 then ns\<lparr>ns_remaining_deps := ns_remaining_deps ns - 1\<rparr> else ns) s"

lemma dec_deps_sel [simp]:
  "s_nodes (dec_deps d s) = (s_nodes s)(d := (s_nodes s d)\<lparr>ns_remaining_deps := ns_remaining_deps (s_nodes s d) - 1\<rparr>)"
  "s_ready (dec_deps d s) = s_ready s" "s_pool (dec_deps d s) = s_pool s"
  "s_running_count (dec_deps d s) = s_running_count s" "s_run (dec_deps d s) = s_run s"
  "s_events (dec_deps d s) = s_events s" "s_cancel_requested (dec_deps d s) = s_cancel_requested s"
  "s_cancelling (dec_deps d s) = s_cancelling s" "s_started (dec_deps d s) = s_started s"
  "s_cache (dec_deps d s) = s_cache s" "s_notices (dec_deps d s) = s_notices s"
  "s_calls (dec_deps d s) = s_calls s" "s_callbacks (dec_deps d s) = s_callbacks s"
  "s_threw (dec_deps d s) = s_threw s"
  by (auto simp: dec_deps_def fun_eq_iff)

lemma propagate_one_eq:
  "propagate_one E s v =
     (case index_of (e_graph E) v of
        None \<Rightarrow> s
      | Some d \<Rightarrow>
          if ns_remaining_deps (s_nodes s d) \<le> 1 \<and> ns_state (s_nodes s d) = tsPending \<and> \<not> s_cancelling s
          then push_now E d (mark_state E d tsReady (dec_deps d s)) else dec_deps d s)"
  by (simp add: propagate_one_def Let_def flip: dec_deps_def split: option.splits)

lemma propagate_one_measure:
  "launch_measure E (propagate_one E s v) \<le> launch_measure E s \<and>
   set (s_ready s) \<subseteq> set (s_ready (propagate_one E s v))"
proof (cases "index_of (e_graph E) v")
  case None
  then show ?thesis by (simp add: propagate_one_eq)
next
  case (Some d)
  show ?thesis
  proof (cases "ns_remaining_deps (s_nodes s d) \<le> 1 \<and> ns_state (s_nodes s d) = tsPending \<and> \<not> s_cancelling s")
    case True
    let ?s2 = "push_now E d (mark_state E d tsReady (dec_deps d s))"
    have eq: "propagate_one E s v = ?s2" using Some True by (simp add: propagate_one_eq)
    have st: "ns_state (s_nodes ?s2 i) = (if i = d then tsReady else ns_state (s_nodes s i))" for i by simp
    have "pend_count E ?s2 < pend_count E s"
      unfolding pend_count_def st using Some True index_of_range
      by (intro card_filter_less [where i = d]) (auto split: if_splits)
    then show ?thesis unfolding eq by (auto simp: launch_measure_def)
  next
    case False
    then have eq: "propagate_one E s v = dec_deps d s" using Some by (auto simp: propagate_one_eq)
    have "pend_count E (dec_deps d s) \<le> pend_count E s" by (rule pend_count_mono) (simp split: if_splits)
    then show ?thesis unfolding eq by (simp add: launch_measure_def)
  qed
qed

lemma foldl_propagate_measure:
  "launch_measure E (foldl (propagate_one E) s vs) \<le> launch_measure E s \<and>
   set (s_ready s) \<subseteq> set (s_ready (foldl (propagate_one E) s vs))"
proof (induction vs arbitrary: s)
  case (Cons v vs)
  show ?case using Cons.IH [of "propagate_one E s v"] propagate_one_measure [of E s v] by auto
qed simp

lemma remove_id_mset: "mset (snd (remove_id v q)) \<subseteq># mset q"
  by (induction q) (auto simp: split_beta subset_mset.add_increasing)

definition skip_node :: "RunEnv \<Rightarrow> nat \<Rightarrow> TaskId \<Rightarrow> Sched \<Rightarrow> Sched" where
  "skip_node E d v s =
     mark_state E d tsSkipped (set_node d (\<lambda>ns. ns\<lparr>ns_waiting_for_retry := False\<rparr>)
       (s\<lparr>s_ready := snd (remove_id v (s_ready s))\<rparr>))"

lemma skip_one_eq:
  "skip_one E (s, stack) v =
     (case index_of (e_graph E) v of
        None \<Rightarrow> (s, stack)
      | Some d \<Rightarrow>
          if is_terminal_task (ns_state (s_nodes s d)) \<or> ns_state (s_nodes s d) = tsRunning then (s, stack)
          else (skip_node E d v s, d # stack))"
  by (simp add: skip_one_def skip_node_def split: option.splits)

lemma skip_one_ready:
  assumes "skip_one E (s, stack) v = (s', stack')"
  shows "pend_count E s' \<le> pend_count E s \<and> mset (s_ready s') \<subseteq># mset (s_ready s)"
proof -
  consider "s' = s" | d where "s' = skip_node E d v s"
    using assms by (auto simp: skip_one_eq split: option.splits if_splits)
  then show ?thesis
  proof cases
    case 2
    then have "ns_state (s_nodes s' i) = (if i = d then tsSkipped else ns_state (s_nodes s i))" for i
      by (simp add: skip_node_def)
    then have "pend_count E s' \<le> pend_count E s" by (intro pend_count_mono) (simp split: if_splits)
    then show ?thesis using 2 by (simp add: skip_node_def remove_id_mset)
  qed simp
qed

lemma foldl_skip_one_ready:
  "foldl (skip_one E) (s, stack) vs = (s', stack') \<Longrightarrow>
   pend_count E s' \<le> pend_count E s \<and> mset (s_ready s') \<subseteq># mset (s_ready s)"
proof (induction vs arbitrary: s stack)
  case (Cons v vs)
  obtain s1 stack1 where 1: "skip_one E (s, stack) v = (s1, stack1)" by fastforce
  with Cons.prems have "foldl (skip_one E) (s1, stack1) vs = (s', stack')" by simp
  from Cons.IH [OF this] skip_one_ready [OF 1] show ?case
    using subset_mset.order_trans by fastforce
qed auto

lemma skip_loop_ready:
  "pend_count E (skip_loop E s stack) \<le> pend_count E s \<and>
   mset (s_ready (skip_loop E s stack)) \<subseteq># mset (s_ready s)"
proof (induction E s stack rule: skip_loop.induct)
  case (2 E s cur stack)
  obtain s1 stack1 where 1: "foldl (skip_one E) (s, stack) (dependents (e_graph E) (id_at (e_graph E) cur)) = (s1, stack1)"
    by fastforce
  from 2 [OF _ refl, of s1 stack1] 1 foldl_skip_one_ready [OF 1] show ?case
    by (auto simp: skip_loop.simps intro: subset_mset.order_trans)
qed simp

text \<open>
  An attempt to start an entry that does not block either takes it off the queue's measure or
  throws; a blocked attempt leaves the queue as it is.
\<close>

lemma remove_measure:
  assumes "e \<in> set q" "q' = snd (remove_id (re_task_id e) q'')"
    "length q'' \<le> length q" "mset q'' \<subseteq># mset q \<or> e \<in> set q''"
  shows "length q' < length q"
proof (cases "re_task_id e \<in> re_task_id ` set q''")
  case True
  then have "0 < length q''" by (cases q'') auto
  moreover have "length q' = length q'' - 1" using True assms(2) by (simp add: remove_id_length)
  ultimately show ?thesis using assms(3) by linarith
next
  case False
  then have e: "e \<notin> set q''" by blast
  with assms(4) have sub: "mset q'' \<subseteq># mset q" by blast
  have "mset q'' \<noteq> mset q" using e assms(1) by (metis set_mset_mset)
  with sub have "mset q'' \<subset># mset q" by (simp add: subset_mset.less_le)
  then have "size (mset q'') < size (mset q)" by (rule mset_subset_size)
  then show ?thesis using assms(2) False by (simp add: remove_id_absent)
qed

lemma fail_inline_measure:
  "pend_count E (fail_inline E i r s) \<le> pend_count E s \<and>
   mset (s_ready (fail_inline E i r s)) \<subseteq># mset (s_ready s)"
proof -
  let ?s1 = "mark_state E i tsFailed (record_attempt E i tsFailed r None s)"
  have "pend_count E ?s1 \<le> pend_count E s" by (rule pend_count_mono) (simp split: if_splits)
  with skip_loop_ready [of E ?s1 "[i]"] show ?thesis
    by (simp add: fail_inline_def skip_downstream_def)
qed

lemma try_start_cases:
  fixes E :: RunEnv
  obtains (missing) name where "try_start E i s = (kResolvedInline,
        fail_inline E i (result_of rkMissingInput (missing_input_message name)) (snd (look_fs E s)))"
  | (threw) "try_start E i s = (kThrew, (snd (look_fs E s))\<lparr>s_threw := True\<rparr>)"
  | (cached) hit :: CachedOutcome and s1 where "same_core s s1"
      "try_start E i s = (kResolvedInline, on_task_succeeded E i True (mark_state E i tsCached
         (record_attempt E i tsCached (TaskResult_success\<lparr>res_exit_code := Some (co_exit_code hit)\<rparr>) None s1)))"
      "s_run s1 = s_run s" "s_notices s1 = s_notices s"
  | (blocked) s1 where "same_core s s1" "\<not> fst (try_reserve (s_pool s) (td_resources (task_of E i)))"
      "try_start E i s = (kResourceBlocked, s1)" "s_run s1 = s_run s" "s_notices s1 = s_notices s"
  | (launched) s1 where "same_core s s1" "fst (try_reserve (s_pool s) (td_resources (task_of E i)))"
      "try_start E i s = (kLaunched, start_process E i
         (set_node i (\<lambda>ns. ns\<lparr>ns_reserved := td_resources (task_of E i), ns_has_reservation := True\<rparr>)
           (s1\<lparr>s_pool := snd (try_reserve (s_pool s) (td_resources (task_of E i)))\<rparr>)))"
      "s_run s1 = s_run s" "s_notices s1 = s_notices s"
proof -
  let ?s0 = "snd (look_fs E s)"
  let ?probed = "probe_inputs (e_fs E (s_tick s)) (base_dir E) (task_of E i) (cfg_force_checksums (e_config E))"
  let ?missing = "map art_logical_name (filter (\<lambda>art. \<not> art_exists art) ?probed)"
  have core0: "same_core s ?s0" by (simp add: same_core_def)
  show thesis
  proof (cases ?missing)
    case (Cons name rest)
    then show thesis by (intro missing [of name]) (simp add: try_start_def Let_def look_fs_def)
  next
    case Nil
    note ts = try_start_def [of E i s, unfolded Let_def look_fs_def, simplified, unfolded Nil, simplified]
    show thesis
    proof (cases "consult_cache E i ?probed ?s0")
      case (Inl e)
      then show thesis using Nil by (intro threw) (simp add: try_start_def Let_def look_fs_def)
    next
      case (Inr r)
      obtain hit s1 where r: "r = (hit, s1)" by fastforce
      have c1: "same_core s s1"
        using consult_cache_core [OF Inr [unfolded r]] core0 by (simp add: same_core_def)
      have run1: "s_run s1 = s_run s" "s_notices s1 = s_notices s"
        using Inr [unfolded r] by (auto simp: consult_cache_def Let_def now_def look_fs_def sum_bind_def
            split: if_splits sum.splits prod.splits)
      show thesis
      proof (cases hit)
        case (Some h)
        then show thesis using Nil Inr r c1 run1
          by (intro cached [of s1 h]) (simp_all add: try_start_def Let_def look_fs_def)
      next
        case None
        obtain b pool where tr: "try_reserve (s_pool s) (td_resources (task_of E i)) = (b, pool)" by fastforce
        note facts = Nil Inr r c1 run1 None same_coreD(3) [OF c1] tr
        show thesis
        proof (cases b)
          case True
          then show thesis using facts
            by (intro launched [of s1]) (simp_all add: try_start_def Let_def look_fs_def)
        next
          case False
          then show thesis using facts
            by (intro blocked [of s1]) (simp_all add: try_start_def Let_def look_fs_def)
        qed
      qed
    qed
  qed
qed

lemma try_start_measure:
  assumes ts: "try_start E (re_node e) s = (out, s')" and e: "e \<in> set (s_ready s)"
    and out: "out = kLaunched \<or> out = kResolvedInline"
  shows "launch_measure E (s'\<lparr>s_ready := snd (remove_id (re_task_id e) (s_ready s'))\<rparr>) < launch_measure E s"
proof -
  have rm: "length (snd (remove_id (re_task_id e) (s_ready s'))) < length (s_ready s)"
    if "pend_count E s' \<le> pend_count E s" "mset (s_ready s') \<subseteq># mset (s_ready s)"
    using that e size_mset_mono [OF that(2)] by (intro remove_measure [of e]) auto
  have pc: "pend_count E (s'\<lparr>s_ready := q\<rparr>) = pend_count E s'" for q by (simp add: pend_count_def)
  show ?thesis
  proof (cases rule: try_start_cases [where E = E and i = "re_node e" and s = s])
    case (missing name)
    let ?s0 = "snd (look_fs E s)"
    have "pend_count E ?s0 = pend_count E s" by (simp add: pend_count_def)
    with ts missing fail_inline_measure [of E "re_node e" "result_of rkMissingInput (missing_input_message name)" ?s0]
    have "pend_count E s' \<le> pend_count E s" "mset (s_ready s') \<subseteq># mset (s_ready s)" by auto
    with rm pc show ?thesis by (fastforce simp: launch_measure_def)
  next
    case (cached hit s1)
    let ?m = "mark_state E (re_node e) tsCached (record_attempt E (re_node e) tsCached
         (TaskResult_success\<lparr>res_exit_code := Some (co_exit_code hit)\<rparr>) None s1)"
    have p: "pend_count E ?m \<le> pend_count E s"
      by (rule pend_count_mono) (simp add: same_coreD [OF cached(1)] split: if_splits)
    have q: "s_ready ?m = s_ready s" by (simp add: same_coreD [OF cached(1)])
    have "s' = foldl (propagate_one E) ?m (dependents (e_graph E) (id_at (e_graph E) (re_node e)))"
      using ts cached(2) by (simp add: on_task_succeeded_def)
    then have "launch_measure E s' \<le> launch_measure E ?m" and sub: "set (s_ready ?m) \<subseteq> set (s_ready s')"
      using foldl_propagate_measure by blast+
    moreover have "launch_measure E ?m \<le> launch_measure E s" using p q by (simp add: launch_measure_def)
    ultimately have le: "launch_measure E s' \<le> launch_measure E s" by linarith
    have mem: "e \<in> set (s_ready s')" using sub e unfolding q by (rule subsetD)
    have "length (snd (remove_id (re_task_id e) (s_ready s'))) < length (s_ready s')"
      using mem by (intro remove_measure [of e _ _ "s_ready s'"]) auto
    with le pc show ?thesis by (simp add: launch_measure_def)
  next
    case (launched s1)
    have "pend_count E s' \<le> pend_count E s" "s_ready s' = s_ready s"
      using ts launched by (auto simp: same_coreD [OF launched(1)] intro!: pend_count_mono split: if_splits)
    with rm pc show ?thesis by (fastforce simp: launch_measure_def)
  qed (use ts out in auto)
qed

subsection \<open>launch_phase\<close>

text \<open>
  The inner \<^verbatim>\<open>for\<close> loop: try the entries in order until one does not block. A blocked
  attempt does not change the queue, so the entries are those it had at the start of the scan.
\<close>

fun scan :: "RunEnv \<Rightarrow> Sched \<Rightarrow> ReadyEntry list \<Rightarrow> bool \<times> Sched" where
  "scan E s [] = (False, s)"
| "scan E s (e # es) =
     (case try_start E (re_node e) s of
        (kResourceBlocked, s') \<Rightarrow> scan E s' es
      | (kThrew, s') \<Rightarrow> (False, s')
      | (_, s') \<Rightarrow> (True, s'\<lparr>s_ready := snd (remove_id (re_task_id e) (s_ready s'))\<rparr>))"

lemma try_start_blocked_core: "try_start E i s = (kResourceBlocked, s') \<Longrightarrow> same_core s s'"
  by (cases rule: try_start_cases [where E = E and i = i and s = s]) auto

lemma same_core_measure: "same_core s s' \<Longrightarrow> launch_measure E s' = launch_measure E s"
  by (simp add: launch_measure_def pend_count_def same_coreD)

lemma scan_measure:
  "scan E s es = (True, s') \<Longrightarrow> set es \<subseteq> set (s_ready s) \<Longrightarrow> launch_measure E s' < launch_measure E s"
proof (induction es arbitrary: s)
  case (Cons e es)
  obtain out s1 where ts: "try_start E (re_node e) s = (out, s1)" by fastforce
  show ?case
  proof (cases out)
    case kResourceBlocked
    with ts have c: "same_core s s1" using try_start_blocked_core by blast
    from Cons.prems(2) have "set es \<subseteq> set (s_ready s1)" by (simp add: same_coreD [OF c])
    moreover from Cons.prems(1) kResourceBlocked ts have "scan E s1 es = (True, s')" by simp
    ultimately have "launch_measure E s' < launch_measure E s1" by (intro Cons.IH)
    then show ?thesis by (simp add: same_core_measure [OF c])
  qed (use Cons.prems ts try_start_measure [OF ts] in auto)
qed simp

function launch_loop :: "RunEnv \<Rightarrow> Sched \<Rightarrow> Sched" where
  "launch_loop E s =
     (if int (s_running_count s) \<ge> max_concurrency E then s
      else case scan E s (s_ready s) of
             (True, s') \<Rightarrow> launch_loop E s'
           | (False, s') \<Rightarrow> s')"
  by pat_completeness auto
termination
  by (relation "measure (\<lambda>(E, s). launch_measure E s)") (auto intro: scan_measure)

declare launch_loop.simps [simp del]

definition unschedulable_message :: "ResourceRequirements \<Rightarrow> string" where
  "unschedulable_message r =
     ''task cannot be scheduled: resource requirements ('' @ describe r @ '') exceed machine capacity''"

definition fail_stuck :: "RunEnv \<Rightarrow> Sched \<Rightarrow> nat \<Rightarrow> Sched" where
  "fail_stuck E s i =
     fail_inline E i (result_of rkStartFailure (unschedulable_message (td_resources (task_of E i)))) s"

definition launch_phase :: "RunEnv \<Rightarrow> Sched \<Rightarrow> Sched" where
  "launch_phase E s =
     (if s_cancelling s then s
      else let s1 = launch_loop E s in
        if s_threw s1 then s1
        else if \<not> s_cancelling s1 \<and> s_running_count s1 = 0 \<and> s_ready s1 \<noteq> [] \<and>
                earliest_retry_deadline E s1 = TimePoint_max
        then let (q, stuck) = drain (\<lambda>e stuck. stuck @ [re_node e]) (s_ready s1) []
             in foldl (fail_stuck E) (s1\<lparr>s_ready := q\<rparr>) stuck
        else s1)"

section \<open>Cancellation\<close>

definition terminate_one :: "Sched \<Rightarrow> nat \<Rightarrow> Sched" where
  "terminate_one s i =
     (let ns = s_nodes s i in
      if ns_state ns = tsRunning \<and> ns_handle ns \<noteq> kInvalidHandle
      then s\<lparr>s_calls := s_calls s @ [request_terminate_call (ns_handle ns) True]\<rparr> else s)"

definition cancel_one :: "RunEnv \<Rightarrow> Sched \<Rightarrow> nat \<Rightarrow> Sched" where
  "cancel_one E s i =
     (if ns_waiting_for_retry (s_nodes s i)
      then mark_state E i tsCancelled (set_node i (\<lambda>ns. ns\<lparr>ns_waiting_for_retry := False\<rparr>) s)
      else if ns_state (s_nodes s i) = tsPending then mark_state E i tsCancelled s
      else s)"

definition begin_cancel :: "RunEnv \<Rightarrow> Sched \<Rightarrow> Sched" where
  "begin_cancel E s =
     (let s1 = foldl terminate_one (s\<lparr>s_cancelling := True\<rparr>) [0..<e_size E];
          (q, s2) = drain (\<lambda>e s. mark_state E (re_node e) tsCancelled s) (s_ready s1) s1
      in foldl (cancel_one E) (s2\<lparr>s_ready := q\<rparr>) [0..<e_size E])"

section \<open>run()\<close>

definition seed_one :: "RunEnv \<Rightarrow> Sched \<Rightarrow> nat \<Rightarrow> Sched" where
  "seed_one E s i =
     (if ns_remaining_deps (s_nodes s i) = 0 then push_now E i (mark_state E i tsReady s) else s)"

definition seed_ready :: "RunEnv \<Rightarrow> Sched \<Rightarrow> Sched" where
  "seed_ready E s = foldl (seed_one E) s [0..<e_size E]"

definition push_event :: "Event \<Rightarrow> Sched \<Rightarrow> Sched" where
  "push_event ev s = s\<lparr>s_events := s_events s @ [ev]\<rparr>"

definition cancel :: "Sched \<Rightarrow> Sched" where
  "cancel s = push_event kCancel (s\<lparr>s_cancel_requested := True\<rparr>)"

text \<open>From the call of \<^verbatim>\<open>run()\<close> to its loop.\<close>

definition run_begin :: "RunEnv \<Rightarrow> Sched \<Rightarrow> string + Sched" where
  "run_begin E s =
     (if s_started s then Inl ''Scheduler::run() called more than once''
      else let s1 = s\<lparr>s_started := True\<rparr>;
               (t, s2) = now E s1;
               s3 = s2\<lparr>s_run := (s_run s2)\<lparr>run_state := psRunning, run_started_at := Some t\<rparr>\<rparr>
           in Inr (seed_ready E (notify (on_run_started (s_run s3)) s3)))"

text \<open>The loop body before the wait: cancellation request, then the launch phase.\<close>

definition loop_top :: "RunEnv \<Rightarrow> Sched \<Rightarrow> Sched" where
  "loop_top E s =
     launch_phase E (if s_cancel_requested s \<and> \<not> s_cancelling s then begin_cancel E s else s)"

definition log_notice :: "RunEnv \<Rightarrow> nat \<Rightarrow> string \<Rightarrow> string \<Rightarrow> int \<Rightarrow> Notice" where
  "log_notice E i stream line attempt = on_task_log (id_at (e_graph E) i) attempt stream line"

fun handle_event :: "RunEnv \<Rightarrow> Sched \<Rightarrow> Event \<Rightarrow> Sched" where
  "handle_event E s kCancel = (if \<not> s_cancelling s then begin_cancel E s else s)"
| "handle_event E s (kLogLine i stream line attempt) = notify (log_notice E i stream line attempt) s"
| "handle_event E s (kProcessFinished i result attempt) = handle_process_finished E i result s"

definition process_batch :: "RunEnv \<Rightarrow> Sched \<Rightarrow> Sched" where
  "process_batch E s =
     promote_backoff_ready E (foldl (handle_event E) (s\<lparr>s_events := []\<rparr>) (s_events s))"

fun drain_log :: "RunEnv \<Rightarrow> Sched \<Rightarrow> Event \<Rightarrow> Sched" where
  "drain_log E s (kLogLine i stream line attempt) = notify (log_notice E i stream line attempt) s"
| "drain_log E s _ = s"

definition final_state :: "Sched \<Rightarrow> PipelineState" where
  "final_state s =
     (let counts = run_counts (s_run s) in
      if s_cancelling s \<or> s_cancel_requested s then psCancelled
      else if 0 < c_failed counts then psFailed
      else psSucceeded)"

definition run_end :: "RunEnv \<Rightarrow> Sched \<Rightarrow> Sched" where
  "run_end E s =
     (let s1 = foldl (drain_log E) (s\<lparr>s_events := []\<rparr>) (s_events s);
          s2 = s1\<lparr>s_run := (s_run s1)\<lparr>run_state := final_state s1\<rparr>\<rparr>;
          (t, s3) = now E s2;
          s4 = s3\<lparr>s_run := (s_run s3)\<lparr>run_finished_at := Some t\<rparr>\<rparr>
      in notify (on_run_finished (s_run s4)) s4)"

section \<open>The concurrent system\<close>

text \<open>
  Where the scheduler's thread is in \<^verbatim>\<open>run()\<close>. The other threads only append to the event
  queue and set the cancellation flag, which the thread's code between two program points
  below reads at most once at its start, so each stretch is one step.
\<close>

datatype Pc = pcTop | pcWait | pcSettled | pcReturned | pcThrew

type_synonym System = "Pc \<times> Sched"

definition may_wake :: "RunEnv \<Rightarrow> Sched \<Rightarrow> bool" where
  "may_wake E s \<longleftrightarrow>
     s_events s \<noteq> [] \<or> earliest_retry_deadline E s \<noteq> TimePoint_max \<or> s_cancel_requested s"

text \<open>
  What \<^verbatim>\<open>process_runner.hpp\<close> promises about \<^verbatim>\<open>on_exit\<close>: it runs once per launch, and
  reports a cancellation only when one was requested for that handle.
\<close>

definition exit_allowed :: "ProcessHandle \<Rightarrow> ProcessResult \<Rightarrow> Sched \<Rightarrow> bool" where
  "exit_allowed h pr s \<longleftrightarrow>
     pr_outcome pr = poCancelled \<longrightarrow> request_terminate_call h True \<in> set (s_calls s)"

definition deliver_exit :: "ProcessHandle \<times> nat \<times> int \<Rightarrow> ProcessResult \<Rightarrow> Sched \<Rightarrow> Sched" where
  "deliver_exit cb pr s =
     (case cb of (h, i, attempt) \<Rightarrow>
      push_event (kProcessFinished i pr attempt) (s\<lparr>s_callbacks := remove1 cb (s_callbacks s)\<rparr>))"

inductive step :: "RunEnv \<Rightarrow> System \<Rightarrow> System \<Rightarrow> bool" for E where
  step_throw: "s_threw (loop_top E s) \<Longrightarrow> step E (pcTop, s) (pcThrew, loop_top E s)"
| step_settle: "\<not> s_threw (loop_top E s) \<Longrightarrow> all_settled E (loop_top E s) \<Longrightarrow>
    step E (pcTop, s) (pcSettled, loop_top E s)"
| step_wait: "\<not> s_threw (loop_top E s) \<Longrightarrow> \<not> all_settled E (loop_top E s) \<Longrightarrow>
    step E (pcTop, s) (pcWait, loop_top E s)"
| step_wake: "may_wake E s \<Longrightarrow> step E (pcWait, s) (pcTop, process_batch E s)"
| step_return: "step E (pcSettled, s) (pcReturned, run_end E s)"
| step_exit: "(h, i, a) \<in> set (s_callbacks s) \<Longrightarrow> exit_allowed h pr s \<Longrightarrow> pc \<noteq> pcReturned \<Longrightarrow>
    step E (pc, s) (pc, deliver_exit (h, i, a) pr s)"
| step_log: "(h, i, a) \<in> set (s_callbacks s) \<Longrightarrow> pc \<noteq> pcReturned \<Longrightarrow>
    step E (pc, s) (pc, push_event (kLogLine i stream line a) s)"
| step_cancel: "pc \<noteq> pcReturned \<Longrightarrow> step E (pc, s) (pc, cancel s)"

inductive reachable :: "RunEnv \<Rightarrow> CacheStore \<Rightarrow> System \<Rightarrow> bool" for E cache where
  reach_init: "Scheduler_new E cache = Inr s0 \<Longrightarrow> run_begin E s0 = Inr s \<Longrightarrow> reachable E cache (pcTop, s)"
| reach_step: "reachable E cache x \<Longrightarrow> step E x y \<Longrightarrow> reachable E cache y"

inductive_cases step_TopE: "step E (pcTop, s) y"
inductive_cases step_WaitE: "step E (pcWait, s) y"
inductive_simps step_Settled: "step E (pcSettled, s) (pcReturned, s')"

end
