(* ===== verification/Scheduler_Inv.thy ===== *)
theory Scheduler_Inv
  imports Scheduler
begin

text \<open>
  The invariant of the scheduler's state and its preservation by every operation of
  \<^verbatim>\<open>scheduler.cpp\<close>. The parts of the invariant are predicates on the projections of the
  state they speak about. Inside an operation some parts hold up to exceptions, which the
  parameters name: \<open>K\<close>, failed or skipped nodes whose dependents are still to be skipped;
  \<open>H\<close>, nodes whose queue entry is stale; \<open>D\<close>, dependents whose counter is still to be
  decremented; \<open>evs\<close>, events taken from the queue and not yet handled.
\<close>

section \<open>Environment\<close>

definition preds :: "RunEnv \<Rightarrow> nat \<Rightarrow> nat set" where
  "preds E i = set (g_pred (e_graph E) ! i)"

definition succs :: "RunEnv \<Rightarrow> nat \<Rightarrow> nat set" where
  "succs E i = set (g_succ (e_graph E) ! i)"

definition edges :: "RunEnv \<Rightarrow> (nat \<times> nat) set" where
  "edges E = dag_edges (g_succ (e_graph E))"

text \<open>
  What the caller hands to the scheduler: a graph from \<^verbatim>\<open>Dag::build\<close>, a definition for each
  of its nodes, no negative resource request (which pipeline validation rejects), and a
  runner that accepts launches (it refuses them only while shutting down).
\<close>

definition env_ok :: "RunEnv \<Rightarrow> bool" where
  "env_ok E \<longleftrightarrow>
     dag_wf (e_graph E) \<and>
     (\<forall>v \<in> set (g_nodes (e_graph E)). find_task (e_pipeline E) v \<noteq> None) \<and>
     (\<forall>t \<in> set (pd_tasks (e_pipeline E)). 0 \<le> cpu_cores (td_resources t) \<and>
        0 \<le> memory_mb (td_resources t) \<and> 0 \<le> gpu_count (td_resources t)) \<and>
     (\<forall>k. e_launch E k \<noteq> kInvalidHandle)"

lemma env_graph: "env_ok E \<Longrightarrow> dag_wf (e_graph E)"
  by (simp add: env_ok_def)

lemma finite_preds [simp]: "finite (preds E i)" and finite_succs [simp]: "finite (succs E i)"
  by (simp_all add: preds_def succs_def)

lemma succs_range: "env_ok E \<Longrightarrow> i < e_size E \<Longrightarrow> j \<in> succs E i \<Longrightarrow> j < e_size E"
  using dag_wf_lists(3) [OF env_graph, of E i j] by (simp add: succs_def e_size_def)

lemma preds_range: "env_ok E \<Longrightarrow> i < e_size E \<Longrightarrow> j \<in> preds E i \<Longrightarrow> j < e_size E"
  using dag_wf_lists(4) [OF env_graph, of E i j] by (simp add: preds_def e_size_def)

lemma succs_preds: "env_ok E \<Longrightarrow> i < e_size E \<Longrightarrow> j < e_size E \<Longrightarrow> j \<in> succs E i \<longleftrightarrow> i \<in> preds E j"
  using succ_pred_iff [OF env_graph, of E i j] by (simp add: succs_def preds_def e_size_def)

lemma edges_succs: "env_ok E \<Longrightarrow> (i, j) \<in> edges E \<longleftrightarrow> i < e_size E \<and> j \<in> succs E i"
  using dag_edges_nth [OF env_graph, of E i j] by (simp add: edges_def succs_def e_size_def)

lemma edges_acyclic: "env_ok E \<Longrightarrow> acyclic (edges E)"
  using dag_wfD(5) [OF env_graph] by (simp add: edges_def)

lemma not_self_succ: "env_ok E \<Longrightarrow> i < e_size E \<Longrightarrow> i \<notin> succs E i"
  using edges_acyclic [of E] edges_succs [of E i i] by (auto simp: acyclic_def)

lemma dependents_list:
  "env_ok E \<Longrightarrow> i < e_size E \<Longrightarrow>
   dependents (e_graph E) (id_at (e_graph E) i) = map (id_at (e_graph E)) (g_succ (e_graph E) ! i)"
  using dependents_ids [OF env_graph] by (simp add: e_size_def)

lemma distinct_succs: "env_ok E \<Longrightarrow> i < e_size E \<Longrightarrow> distinct (g_succ (e_graph E) ! i)"
  using dag_wf_lists(1) [OF env_graph] by (simp add: e_size_def)

lemma index_of_id [simp]: "env_ok E \<Longrightarrow> i < e_size E \<Longrightarrow> index_of (e_graph E) (id_at (e_graph E) i) = Some i"
  using index_of_id_at [OF env_graph] by (simp add: e_size_def)

lemma id_at_eq: "env_ok E \<Longrightarrow> i < e_size E \<Longrightarrow> j < e_size E \<Longrightarrow>
   id_at (e_graph E) i = id_at (e_graph E) j \<longleftrightarrow> i = j"
  using id_at_inj [OF env_graph, of E i j] by (simp add: e_size_def)

lemma task_of_nonneg:
  assumes "env_ok E" "i < e_size E"
  shows "rp.nonneg (td_resources (task_of E i))"
proof -
  have "id_at (e_graph E) i \<in> set (g_nodes (e_graph E))"
    using assms(2) by (simp add: id_at_def e_size_def dag_size_def)
  with assms(1) obtain t where "find_task (e_pipeline E) (id_at (e_graph E) i) = Some t"
    by (auto simp: env_ok_def)
  then have "task_of E i = t" "t \<in> set (pd_tasks (e_pipeline E))"
    using find_task_Some_id by (fastforce simp: task_of_def)+
  with assms(1) show ?thesis by (simp add: env_ok_def rp.nonneg_def all_Budget)
qed

section \<open>Projections\<close>

definition st_of :: "Sched \<Rightarrow> nat \<Rightarrow> TaskState" where "st_of s i = ns_state (s_nodes s i)"
definition rem_of :: "Sched \<Rightarrow> nat \<Rightarrow> nat" where "rem_of s i = ns_remaining_deps (s_nodes s i)"
definition wait_of :: "Sched \<Rightarrow> nat \<Rightarrow> bool" where "wait_of s i = ns_waiting_for_retry (s_nodes s i)"
definition att_of :: "Sched \<Rightarrow> nat \<Rightarrow> int" where "att_of s i = ns_attempts_made (s_nodes s i)"
definition hold_of :: "Sched \<Rightarrow> nat \<Rightarrow> ResourceRequirements option" where
  "hold_of s i = (if ns_has_reservation (s_nodes s i) then Some (ns_reserved (s_nodes s i)) else None)"

lemmas proj_defs = st_of_def rem_of_def wait_of_def att_of_def hold_of_def

lemma proj_cong:
  "s_nodes s' = s_nodes s \<Longrightarrow> st_of s' = st_of s \<and> rem_of s' = rem_of s \<and> wait_of s' = wait_of s \<and>
   att_of s' = att_of s \<and> hold_of s' = hold_of s"
  by (simp add: fun_eq_iff proj_defs)

lemma proj_same:
  assumes "s_nodes s' = s_nodes s"
  shows "st_of s' = st_of s" "rem_of s' = rem_of s" "wait_of s' = wait_of s" "att_of s' = att_of s" "hold_of s' = hold_of s"
  using proj_cong [OF assms] by simp_all

lemma mark_state_proj [simp]:
  "st_of (mark_state E i x s) = (st_of s)(i := x)" "rem_of (mark_state E i x s) = rem_of s"
  "wait_of (mark_state E i x s) = wait_of s" "att_of (mark_state E i x s) = att_of s"
  "hold_of (mark_state E i x s) = hold_of s"
  by (auto simp: fun_eq_iff proj_defs)

lemma record_attempt_proj [simp]:
  "st_of (record_attempt E i x r p s) = st_of s" "rem_of (record_attempt E i x r p s) = rem_of s"
  "wait_of (record_attempt E i x r p s) = wait_of s" "att_of (record_attempt E i x r p s) = att_of s"
  "hold_of (record_attempt E i x r p s) = hold_of s"
  using proj_cong [OF record_attempt_sel(1)] by simp_all

lemma push_now_proj [simp]:
  "st_of (push_now E i s) = st_of s" "rem_of (push_now E i s) = rem_of s"
  "wait_of (push_now E i s) = wait_of s" "att_of (push_now E i s) = att_of s"
  "hold_of (push_now E i s) = hold_of s"
  using proj_cong [OF push_now_sel(1)] by simp_all

lemma dec_deps_proj [simp]:
  "st_of (dec_deps d s) = st_of s" "rem_of (dec_deps d s) = (rem_of s)(d := rem_of s d - 1)"
  "wait_of (dec_deps d s) = wait_of s" "att_of (dec_deps d s) = att_of s"
  "hold_of (dec_deps d s) = hold_of s"
  by (auto simp: fun_eq_iff proj_defs)

lemma skip_node_proj [simp]:
  "st_of (skip_node E d v s) = (st_of s)(d := tsSkipped)" "rem_of (skip_node E d v s) = rem_of s"
  "wait_of (skip_node E d v s) = (wait_of s)(d := False)" "att_of (skip_node E d v s) = att_of s"
  "hold_of (skip_node E d v s) = hold_of s"
  by (auto simp: skip_node_def fun_eq_iff proj_defs)

section \<open>The parts of the invariant\<close>

definition started :: "TaskState \<Rightarrow> bool" where
  "started x \<longleftrightarrow> x \<in> {tsReady, tsRunning, tsSucceeded, tsFailed, tsCached}"

definition dead :: "TaskState \<Rightarrow> bool" where
  "dead x \<longleftrightarrow> x = tsFailed \<or> x = tsSkipped"

definition unmet :: "RunEnv \<Rightarrow> (nat \<Rightarrow> TaskState) \<Rightarrow> nat \<Rightarrow> nat set" where
  "unmet E st i = {p \<in> preds E i. \<not> is_success_like (st p)}"

definition deps_ok :: "RunEnv \<Rightarrow> nat set \<Rightarrow> (nat \<Rightarrow> TaskState) \<Rightarrow> (nat \<Rightarrow> nat) \<Rightarrow> bool" where
  "deps_ok E D st rem \<longleftrightarrow> (\<forall>i < e_size E. rem i = card (unmet E st i) + (if i \<in> D then 1 else 0))"

definition order_ok :: "RunEnv \<Rightarrow> (nat \<Rightarrow> TaskState) \<Rightarrow> bool" where
  "order_ok E st \<longleftrightarrow> (\<forall>i < e_size E. started (st i) \<longrightarrow> (\<forall>p \<in> preds E i. is_success_like (st p)))"

definition pend_ok :: "RunEnv \<Rightarrow> (nat \<Rightarrow> TaskState) \<Rightarrow> (nat \<Rightarrow> nat) \<Rightarrow> bool" where
  "pend_ok E st rem \<longleftrightarrow> (\<forall>i < e_size E. st i = tsPending \<longrightarrow> 0 < rem i)"

definition queue_ok :: "RunEnv \<Rightarrow> nat set \<Rightarrow> (nat \<Rightarrow> TaskState) \<Rightarrow> (nat \<Rightarrow> bool) \<Rightarrow> ReadyEntry list \<Rightarrow> bool" where
  "queue_ok E H st wait q \<longleftrightarrow>
     distinct (map re_node q) \<and>
     (\<forall>e \<in> set q. re_task_id e = id_at (e_graph E) (re_node e)) \<and>
     re_node ` set q = {i. i < e_size E \<and> st i = tsReady \<and> \<not> wait i} \<union> H \<and>
     (\<forall>i \<in> H. i < e_size E \<and> st i \<noteq> tsPending \<and> st i \<noteq> tsReady) \<and>
     (\<forall>i < e_size E. wait i \<longrightarrow> st i = tsReady)"

definition skip_ok :: "RunEnv \<Rightarrow> nat set \<Rightarrow> (nat \<Rightarrow> TaskState) \<Rightarrow> bool" where
  "skip_ok E K st \<longleftrightarrow>
     (\<forall>i < e_size E. i \<notin> K \<longrightarrow> dead (st i) \<longrightarrow> (\<forall>j \<in> succs E i. st j = tsSkipped))"

definition cause_ok :: "RunEnv \<Rightarrow> (nat \<Rightarrow> TaskState) \<Rightarrow> bool" where
  "cause_ok E st \<longleftrightarrow>
     (\<forall>j < e_size E. st j = tsSkipped \<longrightarrow> (\<exists>a < e_size E. st a = tsFailed \<and> (a, j) \<in> (edges E)\<^sup>+))"

definition running :: "RunEnv \<Rightarrow> (nat \<Rightarrow> TaskState) \<Rightarrow> nat set" where
  "running E st = {i. i < e_size E \<and> st i = tsRunning}"

definition run_ok :: "RunEnv \<Rightarrow> (nat \<Rightarrow> TaskState) \<Rightarrow> nat \<Rightarrow> bool" where
  "run_ok E st rc \<longleftrightarrow> rc = card (running E st) \<and> int rc \<le> max_concurrency E"

definition demand :: "RunEnv \<Rightarrow> (nat \<Rightarrow> TaskState) \<Rightarrow> ResourceRequirements multiset" where
  "demand E st = image_mset (\<lambda>i. td_resources (task_of E i)) (mset_set (running E st))"

definition pool_ok :: "RunEnv \<Rightarrow> (nat \<Rightarrow> TaskState) \<Rightarrow> (nat \<Rightarrow> ResourceRequirements option) \<Rightarrow> ResourcePool \<Rightarrow> bool" where
  "pool_ok E st hold pool \<longleftrightarrow>
     (\<forall>i < e_size E. hold i = (if st i = tsRunning then Some (td_resources (task_of E i)) else None)) \<and>
     rp.accounts pool (demand E st) \<and> rp_capacity pool = cfg_resource_capacity (e_config E) \<and>
     (\<forall>b. used pool b \<le> max 0 (cap pool b))"

definition cancel_ok :: "RunEnv \<Rightarrow> (nat \<Rightarrow> TaskState) \<Rightarrow> bool \<Rightarrow> RunnerCall list \<Rightarrow> bool" where
  "cancel_ok E st cancelling calls \<longleftrightarrow>
     (if cancelling then \<forall>i < e_size E. st i \<noteq> tsPending \<and> st i \<noteq> tsReady
      else (\<forall>i < e_size E. st i \<noteq> tsCancelled) \<and> (\<forall>h. request_terminate_call h True \<notin> set calls))"

definition att_ok :: "RunEnv \<Rightarrow> (nat \<Rightarrow> TaskState) \<Rightarrow> (nat \<Rightarrow> int) \<Rightarrow> bool" where
  "att_ok E st att \<longleftrightarrow>
     (\<forall>i < e_size E. 0 \<le> att i \<and> att i \<le> max_attempts (td_retry (task_of E i)) \<and>
        (st i = tsPending \<or> st i = tsReady \<longrightarrow> att i < max_attempts (td_retry (task_of E i))) \<and>
        (st i = tsRunning \<longrightarrow> 1 \<le> att i))"

definition finished_node :: "Event \<Rightarrow> nat option" where
  "finished_node ev = (case ev of kProcessFinished i _ _ \<Rightarrow> Some i | _ \<Rightarrow> None)"

definition owed :: "(ProcessHandle \<times> nat \<times> int) list \<Rightarrow> Event list \<Rightarrow> nat list" where
  "owed cbs evs = map (\<lambda>(h, i, a). i) cbs @ List.map_filter finished_node evs"

definition owed_ok :: "RunEnv \<Rightarrow> (nat \<Rightarrow> TaskState) \<Rightarrow> (ProcessHandle \<times> nat \<times> int) list \<Rightarrow> Event list \<Rightarrow> bool \<Rightarrow> bool" where
  "owed_ok E st cbs evs cancelling \<longleftrightarrow>
     distinct (owed cbs evs) \<and> set (owed cbs evs) = running E st \<and>
     (\<forall>ev \<in> set evs. \<forall>i pr a. ev = kProcessFinished i pr a \<longrightarrow> pr_outcome pr = poCancelled \<longrightarrow> cancelling)"

definition mirror_ok :: "RunEnv \<Rightarrow> (nat \<Rightarrow> TaskState) \<Rightarrow> (TaskId \<times> TaskRun) list \<Rightarrow> bool" where
  "mirror_ok E st runs \<longleftrightarrow>
     distinct (map fst runs) \<and> set (map fst runs) = set (g_nodes (e_graph E)) \<and>
     (\<forall>i < e_size E. map_option tr_state (map_of runs (id_at (e_graph E) i)) = Some (st i)) \<and>
     (\<forall>v tr. (v, tr) \<in> set runs \<longrightarrow> tr_task_id tr = v)"

text \<open>The changes of state a task run may report: the documented ones, and \<^verbatim>\<open>READY -> FAILED\<close>.\<close>

definition allowed :: "TaskState \<Rightarrow> TaskState \<Rightarrow> bool" where
  "allowed x y \<longleftrightarrow> is_valid_transition x y \<or> x = tsReady \<and> y = tsFailed"

text \<open>The state an observer has last been told for a task.\<close>

fun told_one :: "TaskId \<Rightarrow> TaskState \<Rightarrow> Notice \<Rightarrow> TaskState" where
  "told_one v x (on_task_state_changed tr prev) = (if tr_task_id tr = v then tr_state tr else x)"
| "told_one v x _ = x"

definition last_told :: "TaskId \<Rightarrow> Notice list \<Rightarrow> TaskState" where
  "last_told v ns = foldl (told_one v) tsPending ns"

definition trace_ok :: "RunEnv \<Rightarrow> (nat \<Rightarrow> TaskState) \<Rightarrow> Notice list \<Rightarrow> bool" where
  "trace_ok E st ns \<longleftrightarrow>
     (\<forall>tr prev. on_task_state_changed tr prev \<in> set ns \<longrightarrow> allowed prev (tr_state tr)) \<and>
     (\<forall>i < e_size E. last_told (id_at (e_graph E) i) ns = st i)"

definition sched_inv :: "RunEnv \<Rightarrow> nat set \<Rightarrow> nat set \<Rightarrow> nat set \<Rightarrow> Event list \<Rightarrow> Sched \<Rightarrow> bool" where
  "sched_inv E K H D evs s \<longleftrightarrow>
     deps_ok E D (st_of s) (rem_of s) \<and> order_ok E (st_of s) \<and> pend_ok E (st_of s) (rem_of s) \<and>
     queue_ok E H (st_of s) (wait_of s) (s_ready s) \<and> skip_ok E K (st_of s) \<and> cause_ok E (st_of s) \<and>
     run_ok E (st_of s) (s_running_count s) \<and> pool_ok E (st_of s) (hold_of s) (s_pool s) \<and>
     cancel_ok E (st_of s) (s_cancelling s) (s_calls s) \<and> att_ok E (st_of s) (att_of s) \<and>
     owed_ok E (st_of s) (s_callbacks s) (evs @ s_events s) (s_cancelling s) \<and>
     mirror_ok E (st_of s) (run_task_runs (s_run s)) \<and> trace_ok E (st_of s) (s_notices s)"

section \<open>Changing the state of one node\<close>

lemma success_like_simps [simp]:
  "is_success_like tsSucceeded" "is_success_like tsCached" "\<not> is_success_like tsPending"
  "\<not> is_success_like tsReady" "\<not> is_success_like tsRunning" "\<not> is_success_like tsFailed"
  "\<not> is_success_like tsSkipped" "\<not> is_success_like tsCancelled"
  by (simp_all add: is_success_like_def)

lemma started_simps [simp]:
  "started tsReady" "started tsRunning" "started tsSucceeded" "started tsFailed" "started tsCached"
  "\<not> started tsPending" "\<not> started tsSkipped" "\<not> started tsCancelled"
  by (simp_all add: started_def)

lemma dead_simps [simp]:
  "dead tsFailed" "dead tsSkipped" "\<not> dead tsPending" "\<not> dead tsReady" "\<not> dead tsRunning"
  "\<not> dead tsSucceeded" "\<not> dead tsCached" "\<not> dead tsCancelled"
  by (simp_all add: dead_def)

lemma unmet_upd_same:
  "is_success_like x = is_success_like (st i) \<Longrightarrow> unmet E (st(i := x)) j = unmet E st j"
  by (auto simp: unmet_def)

lemma deps_ok_upd:
  "deps_ok E D st rem \<Longrightarrow> is_success_like x = is_success_like (st i) \<Longrightarrow> deps_ok E D (st(i := x)) rem"
  by (simp add: deps_ok_def unmet_upd_same del: fun_upd_apply)

lemma deps_ok_success:
  assumes E: "env_ok E" and d: "deps_ok E {} st rem" and i: "i < e_size E"
    and x: "\<not> is_success_like (st i)" "is_success_like x"
  shows "deps_ok E (succs E i) (st(i := x)) rem"
  unfolding deps_ok_def
proof (intro allI impI)
  fix j assume j: "j < e_size E"
  have "unmet E (st(i := x)) j = unmet E st j - {i}" using x by (auto simp: unmet_def)
  moreover have "i \<in> unmet E st j \<longleftrightarrow> j \<in> succs E i"
    using succs_preds [OF E i j] x by (simp add: unmet_def)
  moreover have "finite (unmet E st j)" by (simp add: unmet_def)
  moreover have "rem j = card (unmet E st j)" using d j by (simp add: deps_ok_def)
  ultimately show "rem j = card (unmet E (st(i := x)) j) + (if j \<in> succs E i then 1 else 0)"
    using card_Suc_Diff1 [of "unmet E st j" i] by (cases "j \<in> succs E i") simp_all
qed

lemma deps_ok_dec:
  "deps_ok E D st rem \<Longrightarrow> d \<in> D \<Longrightarrow> deps_ok E (D - {d}) st (rem(d := rem d - 1))"
  by (auto simp: deps_ok_def)

lemma order_ok_upd:
  "order_ok E st \<Longrightarrow> is_success_like (st i) \<longrightarrow> is_success_like x \<Longrightarrow>
   (started x \<Longrightarrow> \<forall>p \<in> preds E i. is_success_like (st p)) \<Longrightarrow> order_ok E (st(i := x))"
  by (auto simp: order_ok_def)

lemma pend_ok_upd: "pend_ok E st rem \<Longrightarrow> x \<noteq> tsPending \<Longrightarrow> pend_ok E (st(i := x)) rem"
  by (simp add: pend_ok_def)

lemma skip_ok_upd:
  assumes "skip_ok E K st" "\<not> dead (st i)" "\<not> dead x \<or> i \<in> K"
  shows "skip_ok E K (st(i := x))"
  unfolding skip_ok_def
proof (intro allI impI ballI)
  fix k j assume k: "k < e_size E" "k \<notin> K" "dead ((st(i := x)) k)" and j: "j \<in> succs E k"
  from k assms(2,3) have "dead (st k)" by (cases "k = i") auto
  with k j assms(1) have "st j = tsSkipped" by (simp add: skip_ok_def)
  with assms(2) show "(st(i := x)) j = tsSkipped" by (cases "j = i") simp_all
qed

lemma skip_ok_mono: "skip_ok E K st \<Longrightarrow> K \<subseteq> K' \<Longrightarrow> skip_ok E K' st"
  by (auto simp: skip_ok_def)

lemma cause_ok_upd:
  assumes c: "cause_ok E st" and i: "st i \<noteq> tsFailed"
    and x: "x = tsSkipped \<Longrightarrow> \<exists>a < e_size E. st a = tsFailed \<and> (a, i) \<in> (edges E)\<^sup>+"
  shows "cause_ok E (st(i := x))"
  unfolding cause_ok_def
proof (intro allI impI)
  fix j assume j: "j < e_size E" "(st(i := x)) j = tsSkipped"
  then obtain a where a: "a < e_size E" "st a = tsFailed" "(a, j) \<in> (edges E)\<^sup>+"
    using c x by (cases "j = i") (auto simp: cause_ok_def)
  then have "a \<noteq> i" using i by blast
  with a show "\<exists>a < e_size E. (st(i := x)) a = tsFailed \<and> (a, j) \<in> (edges E)\<^sup>+" by auto
qed

lemma finite_running [simp]: "finite (running E st)"
  by (simp add: running_def)

lemma running_upd:
  "running E (st(i := x)) = (if x = tsRunning \<and> i < e_size E then insert i (running E st) else running E st - {i})"
  by (auto simp: running_def)

lemma running_same: "x \<noteq> tsRunning \<Longrightarrow> st i \<noteq> tsRunning \<Longrightarrow> running E (st(i := x)) = running E st"
  by (auto simp: running_def)

lemma run_ok_same: "run_ok E st rc \<Longrightarrow> x \<noteq> tsRunning \<Longrightarrow> st i \<noteq> tsRunning \<Longrightarrow> run_ok E (st(i := x)) rc"
  by (simp add: run_ok_def running_same del: fun_upd_apply)

lemma pool_ok_same:
  assumes "pool_ok E st hold pool" "x \<noteq> tsRunning" "st i \<noteq> tsRunning"
  shows "pool_ok E (st(i := x)) hold pool"
  using assms unfolding pool_ok_def demand_def running_same [of x st i, OF assms(2,3)] by simp

lemma owed_ok_same:
  "owed_ok E st cbs evs c \<Longrightarrow> x \<noteq> tsRunning \<Longrightarrow> st i \<noteq> tsRunning \<Longrightarrow> owed_ok E (st(i := x)) cbs evs c"
  by (simp add: owed_ok_def running_same del: fun_upd_apply)

lemma att_ok_same:
  "att_ok E st att \<Longrightarrow> x \<noteq> tsRunning \<Longrightarrow> x \<noteq> tsPending \<Longrightarrow> x = tsReady \<longrightarrow> st i = tsPending \<Longrightarrow>
   att_ok E (st(i := x)) att"
  by (auto simp: att_ok_def)

section \<open>Run records and notices\<close>

lemma mirror_ok_upd:
  assumes E: "env_ok E" and m: "mirror_ok E st runs" and i: "i < e_size E"
    and f: "\<And>tr. tr_state (f tr) = x" "\<And>tr. tr_task_id (f tr) = tr_task_id tr"
  shows "mirror_ok E (st(i := x)) (map_modify (id_at (e_graph E) i) f runs)"
  unfolding mirror_ok_def keys_map_modify
proof (intro conjI allI impI)
  fix j assume j: "j < e_size E"
  have st: "map_option tr_state (map_of runs (id_at (e_graph E) j)) = Some (st j)"
    using m j unfolding mirror_ok_def by blast
  show "map_option tr_state (map_of (map_modify (id_at (e_graph E) i) f runs) (id_at (e_graph E) j))
      = Some ((st(i := x)) j)"
  proof (cases "j = i")
    case True
    with st show ?thesis by (auto simp: map_of_map_modify f simp del: map_of_eq_Some_iff)
  next
    case False
    with st id_at_eq [OF E i j] show ?thesis by (simp add: map_of_map_modify)
  qed
next
  fix v tr assume "(v, tr) \<in> set (map_modify (id_at (e_graph E) i) f runs)"
  from map_modify_mem [OF this] m f(2) show "tr_task_id tr = v" unfolding mirror_ok_def by auto
qed (use m in \<open>simp_all add: mirror_ok_def del: set_map\<close>)

lemma mirror_ok_keep:
  assumes m: "mirror_ok E st runs" and f: "\<And>tr. tr_state (f tr) = tr_state tr" "\<And>tr. tr_task_id (f tr) = tr_task_id tr"
  shows "mirror_ok E st (map_modify v f runs)"
  unfolding mirror_ok_def keys_map_modify
proof (intro conjI allI impI)
  fix j assume j: "j < e_size E"
  have "map_option tr_state (map_of runs (id_at (e_graph E) j)) = Some (st j)"
    using m j unfolding mirror_ok_def by blast
  then show "map_option tr_state (map_of (map_modify v f runs) (id_at (e_graph E) j)) = Some (st j)"
    by (auto simp: map_of_map_modify f simp del: map_of_eq_Some_iff)
next
  fix w tr assume "(w, tr) \<in> set (map_modify v f runs)"
  from map_modify_mem [OF this] m f(2) show "tr_task_id tr = w" unfolding mirror_ok_def by auto
qed (use m in \<open>simp_all add: mirror_ok_def del: set_map\<close>)

lemma mark_state_run:
  "st_of s i \<noteq> x \<Longrightarrow> run_task_runs (s_run (mark_state E i x s)) =
     map_modify (id_at (e_graph E) i) (stamp_run x (e_now E (s_tick s))) (run_task_runs (s_run s))"
  by (simp add: mark_state_def Let_def now_def set_run_of_def notify_def st_of_def set_node_def)

lemma mark_state_same: "st_of s i = x \<Longrightarrow> mark_state E i x s = s"
  by (simp add: mark_state_def st_of_def)

lemma mark_state_mirror:
  assumes "env_ok E" "i < e_size E" "mirror_ok E (st_of s) (run_task_runs (s_run s))"
  shows "mirror_ok E ((st_of s)(i := x)) (run_task_runs (s_run (mark_state E i x s)))"
proof (cases "st_of s i = x")
  case True
  then have "(st_of s)(i := x) = st_of s" by auto
  with True assms show ?thesis by (simp add: mark_state_same)
next
  case False
  with assms show ?thesis by (simp add: mark_state_run mirror_ok_upd stamp_run_def)
qed

lemma mark_state_trace:
  assumes E: "env_ok E" "i < e_size E" and m: "mirror_ok E (st_of s) (run_task_runs (s_run s))"
    and t: "trace_ok E (st_of s) (s_notices s)" and a: "st_of s i = x \<or> allowed (st_of s i) x"
  shows "trace_ok E ((st_of s)(i := x)) (s_notices (mark_state E i x s))"
proof (cases "st_of s i = x")
  case True
  then have "(st_of s)(i := x) = st_of s" by auto
  with t True show ?thesis by (simp add: mark_state_same)
next
  case False
  obtain tr where tr: "map_of (run_task_runs (s_run s)) (id_at (e_graph E) i) = Some tr"
    using m E(2) by (auto simp: mirror_ok_def)
  have "tr_task_id tr = id_at (e_graph E) i" using m map_of_SomeD [OF tr] by (simp add: mirror_ok_def)
  then have "last_told (id_at (e_graph E) j) (s_notices s @ [on_task_state_changed (stamp_run x (e_now E (s_tick s)) tr) (st_of s i)])
      = ((st_of s)(i := x)) j" if "j < e_size E" for j
    using t that id_at_eq [OF E(1,2) that] by (auto simp: trace_ok_def last_told_def stamp_run_def)
  moreover from False have "s_notices (mark_state E i x s) = s_notices s @
      [on_task_state_changed (stamp_run x (e_now E (s_tick s)) tr) (st_of s i)]"
    using tr by (simp add: mark_state_def Let_def now_def set_run_of_def notify_def st_of_def set_node_def
        run_of_def run_task_def map_of_map_modify)
  ultimately show ?thesis using t a False by (auto simp: trace_ok_def stamp_run_def)
qed

section \<open>Skipping downstream\<close>

lemma inv_parts:
  assumes "sched_inv E K H D evs s"
  shows "deps_ok E D (st_of s) (rem_of s)" "order_ok E (st_of s)" "pend_ok E (st_of s) (rem_of s)"
    "queue_ok E H (st_of s) (wait_of s) (s_ready s)" "skip_ok E K (st_of s)" "cause_ok E (st_of s)"
    "run_ok E (st_of s) (s_running_count s)" "pool_ok E (st_of s) (hold_of s) (s_pool s)"
    "cancel_ok E (st_of s) (s_cancelling s) (s_calls s)" "att_ok E (st_of s) (att_of s)"
    "owed_ok E (st_of s) (s_callbacks s) (evs @ s_events s) (s_cancelling s)"
    "mirror_ok E (st_of s) (run_task_runs (s_run s))" "trace_ok E (st_of s) (s_notices s)"
  using assms unfolding sched_inv_def by blast+

lemma queue_idle:
  assumes "queue_ok E H st wait q" "i < e_size E" "st i = tsPending"
  shows "i \<notin> re_node ` set q" "\<not> wait i"
  using assms by (auto simp: queue_ok_def)

lemma queue_ids:
  assumes E: "env_ok E" and q: "queue_ok E H st wait q" and i: "i < e_size E"
  shows "id_at (e_graph E) i \<in> re_task_id ` set q \<longleftrightarrow> i \<in> re_node ` set q"
proof -
  have "re_node e < e_size E \<and> re_task_id e = id_at (e_graph E) (re_node e)" if "e \<in> set q" for e
  proof -
    have "re_node e \<in> {i. i < e_size E \<and> st i = tsReady \<and> \<not> wait i} \<union> H"
      using q that unfolding queue_ok_def by blast
    with q that show ?thesis unfolding queue_ok_def by blast
  qed
  then show ?thesis using id_at_eq [OF E] i by (auto simp: image_iff)
qed

lemma queue_ok_idle_upd:
  assumes q: "queue_ok E H st wait q" and i: "st i = tsPending" and x: "x \<noteq> tsPending" "x \<noteq> tsReady"
  shows "queue_ok E H (st(i := x)) wait q"
proof -
  have "{j. j < e_size E \<and> (st(i := x)) j = tsReady \<and> \<not> wait j} = {j. j < e_size E \<and> st j = tsReady \<and> \<not> wait j}"
    using i x by auto
  with q i x show ?thesis unfolding queue_ok_def by auto
qed

lemma dead_path:
  assumes E: "env_ok E" and c: "cause_ok E st" and p: "p < e_size E" "dead (st p)" "d \<in> succs E p"
  shows "\<exists>a < e_size E. st a = tsFailed \<and> (a, d) \<in> (edges E)\<^sup>+"
proof (cases "st p = tsFailed")
  case True
  with p edges_succs [OF E, of p d] show ?thesis by auto
next
  case False
  with p(2) have "st p = tsSkipped" by (simp add: dead_def)
  with c p(1) obtain a where "a < e_size E" "st a = tsFailed" "(a, p) \<in> (edges E)\<^sup>+"
    by (auto simp: cause_ok_def)
  with p edges_succs [OF E, of p d] show ?thesis by (meson trancl.trancl_into_trancl)
qed

lemma skip_node_sel [simp]:
  "s_ready (skip_node E d v s) = snd (remove_id v (s_ready s))" "s_pool (skip_node E d v s) = s_pool s"
  "s_running_count (skip_node E d v s) = s_running_count s" "s_events (skip_node E d v s) = s_events s"
  "s_cancelling (skip_node E d v s) = s_cancelling s" "s_calls (skip_node E d v s) = s_calls s"
  "s_callbacks (skip_node E d v s) = s_callbacks s"
  "s_cancel_requested (skip_node E d v s) = s_cancel_requested s" "s_threw (skip_node E d v s) = s_threw s"
  by (simp_all add: skip_node_def)

lemma skip_node_inv:
  assumes E: "env_ok E" and I: "sched_inv E K H D evs s" and nc: "\<not> s_cancelling s"
    and d: "d < e_size E" "st_of s d = tsPending"
    and p: "p < e_size E" "dead (st_of s p)" "d \<in> succs E p"
  shows "sched_inv E (insert d K) H D evs (skip_node E d (id_at (e_graph E) d) s)"
proof -
  let ?s = "set_node d (\<lambda>ns. ns\<lparr>ns_waiting_for_retry := False\<rparr>)
       (s\<lparr>s_ready := snd (remove_id (id_at (e_graph E) d) (s_ready s))\<rparr>)"
  note P = inv_parts [OF I]
  have q: "snd (remove_id (id_at (e_graph E) d) (s_ready s)) = s_ready s"
    using queue_ids [OF E P(4) d(1)] queue_idle [OF P(4) d] by (intro remove_id_absent) simp
  have w: "(wait_of s)(d := False) = wait_of s" using queue_idle(2) [OF P(4) d] by (intro fun_upd_idem) simp
  have st: "st_of ?s = st_of s" by (auto simp: fun_eq_iff st_of_def)
  have sn: "skip_node E d (id_at (e_graph E) d) s = mark_state E d tsSkipped ?s" by (simp add: skip_node_def)
  have mir: "mirror_ok E (st_of ?s) (run_task_runs (s_run ?s))" using P(12) by (simp add: st)
  have "mirror_ok E ((st_of s)(d := tsSkipped)) (run_task_runs (s_run (skip_node E d (id_at (e_graph E) d) s)))"
    unfolding sn using mark_state_mirror [OF E d(1) mir, of tsSkipped] by (simp only: st)
  moreover have "trace_ok E ((st_of s)(d := tsSkipped)) (s_notices (skip_node E d (id_at (e_graph E) d) s))"
    unfolding sn using P(13) d(2) mark_state_trace [OF E d(1) mir, of tsSkipped]
    by (simp add: st allowed_def is_valid_transition_def)
  moreover have "skip_ok E (insert d K) ((st_of s)(d := tsSkipped))"
    using skip_ok_mono [OF P(5), of "insert d K"] d(2) by (intro skip_ok_upd) auto
  moreover have "cancel_ok E ((st_of s)(d := tsSkipped)) (s_cancelling s) (s_calls s)"
    using P(9) nc by (simp add: cancel_ok_def)
  ultimately show ?thesis
    unfolding sched_inv_def skip_node_proj skip_node_sel q w
    using P d nc dead_path [OF E P(6) p]
    by (intro conjI deps_ok_upd order_ok_upd pend_ok_upd queue_ok_idle_upd cause_ok_upd run_ok_same
        pool_ok_same att_ok_same owed_ok_same) simp_all
qed

text \<open>The worklist: what is on the stack is dead, and only its dependents may still be pending.\<close>

definition skip_inv :: "RunEnv \<Rightarrow> nat set \<Rightarrow> nat set \<Rightarrow> nat set \<Rightarrow> Event list \<Rightarrow> Sched \<Rightarrow> bool" where
  "skip_inv E K H D evs s \<longleftrightarrow>
     sched_inv E K H D evs s \<and> \<not> s_cancelling s \<and> (\<forall>k \<in> K. k < e_size E \<and> dead (st_of s k))"

lemma dead_succ_state:
  assumes E: "env_ok E" and I: "sched_inv E K H D evs s" and nc: "\<not> s_cancelling s"
    and p: "p < e_size E" "dead (st_of s p)" "d \<in> succs E p"
  shows "st_of s d = tsPending \<or> st_of s d = tsSkipped"
proof -
  have d: "d < e_size E" using succs_range [OF E p(1,3)] .
  have "\<not> is_success_like (st_of s p)" using p(2) by (auto simp: dead_def)
  then have "\<not> started (st_of s d)"
    using inv_parts(2) [OF I] d succs_preds [OF E p(1) d] p(3) by (auto simp: order_ok_def)
  moreover have "st_of s d \<noteq> tsCancelled" using inv_parts(9) [OF I] nc d by (simp add: cancel_ok_def)
  ultimately show ?thesis by (cases "st_of s d") auto
qed

text \<open>Skipping touches pending nodes only.\<close>

definition only_pending :: "Sched \<Rightarrow> Sched \<Rightarrow> bool" where
  "only_pending s s' \<longleftrightarrow> (\<forall>j. st_of s j \<noteq> tsPending \<longrightarrow> st_of s' j = st_of s j \<and> wait_of s' j = wait_of s j)"

lemma only_pending_refl: "only_pending s s"
  by (simp add: only_pending_def)

lemma only_pending_trans: "only_pending s s1 \<Longrightarrow> only_pending s1 s2 \<Longrightarrow> only_pending s s2"
  by (simp add: only_pending_def)

lemma skip_one_inv:
  assumes E: "env_ok E" and I: "skip_inv E (insert cur (set stack)) H D evs s"
    and d: "d \<in> succs E cur" and so: "skip_one E (s, stack) (id_at (e_graph E) d) = (s', stack')"
  shows "skip_inv E (insert cur (set stack')) H D evs s'" "st_of s' d = tsSkipped" "only_pending s s'"
proof -
  have i: "sched_inv E (insert cur (set stack)) H D evs s" and nc: "\<not> s_cancelling s"
    and cur: "cur < e_size E" "dead (st_of s cur)" using I by (auto simp: skip_inv_def)
  have dn: "d < e_size E" using succs_range [OF E cur(1) d] .
  consider (skipped) "st_of s d = tsSkipped" | (pending) "st_of s d = tsPending"
    using dead_succ_state [OF E i nc cur d] by blast
  then have "skip_inv E (insert cur (set stack')) H D evs s' \<and> st_of s' d = tsSkipped \<and> only_pending s s'"
  proof cases
    case skipped
    then have "(s', stack') = (s, stack)"
      using so E dn by (simp add: skip_one_eq st_of_def)
    with I skipped show ?thesis by (simp add: only_pending_refl)
  next
    case pending
    then have eq: "s' = skip_node E d (id_at (e_graph E) d) s" "stack' = d # stack"
      using so E dn by (simp_all add: skip_one_eq st_of_def)
    have "sched_inv E (insert d (insert cur (set stack))) H D evs s'"
      unfolding eq using skip_node_inv [OF E i nc dn pending cur d] .
    then have "skip_inv E (insert cur (set stack')) H D evs s'"
      using I dn by (auto simp: skip_inv_def eq insert_commute)
    then show ?thesis using pending by (auto simp: eq only_pending_def)
  qed
  then show "skip_inv E (insert cur (set stack')) H D evs s'" "st_of s' d = tsSkipped" "only_pending s s'"
    by blast+
qed

lemma foldl_skip_inv:
  assumes E: "env_ok E" and "skip_inv E (insert cur (set stack)) H D evs s" and "set ds \<subseteq> succs E cur"
    and "foldl (skip_one E) (s, stack) (map (id_at (e_graph E)) ds) = (s', stack')"
  shows "skip_inv E (insert cur (set stack')) H D evs s' \<and> (\<forall>d \<in> set ds. st_of s' d = tsSkipped) \<and>
     only_pending s s'"
  using assms(2-)
proof (induction ds arbitrary: s stack)
  case (Cons d ds)
  obtain s1 stack1 where 1: "skip_one E (s, stack) (id_at (e_graph E) d) = (s1, stack1)" by fastforce
  have d: "d \<in> succs E cur" using Cons.prems(2) by simp
  note so = skip_one_inv [OF E Cons.prems(1) d 1]
  have "foldl (skip_one E) (s1, stack1) (map (id_at (e_graph E)) ds) = (s', stack')"
    using Cons.prems(3) 1 by simp
  with Cons.IH [OF so(1)] Cons.prems(2)
  have IH: "skip_inv E (insert cur (set stack')) H D evs s'" "\<forall>d \<in> set ds. st_of s' d = tsSkipped" "only_pending s1 s'"
    by auto
  have "st_of s' d = tsSkipped" using IH(3) so(2) by (simp add: only_pending_def)
  with IH only_pending_trans [OF so(3) IH(3)] show ?case by simp
qed (simp add: only_pending_refl)

lemma skip_loop_inv:
  assumes E: "env_ok E"
  shows "skip_inv E (set stack) H D evs s \<Longrightarrow>
    skip_inv E {} H D evs (skip_loop E s stack) \<and> only_pending s (skip_loop E s stack)"
proof (induction "2 * open_count E s + length stack" arbitrary: s stack rule: less_induct)
  case less
  show ?case
  proof (cases stack)
    case Nil
    with less.prems show ?thesis by (simp add: only_pending_refl)
  next
    case (Cons cur rest)
    let ?ds = "g_succ (e_graph E) ! cur"
    have cur: "cur < e_size E" using less.prems Cons by (simp add: skip_inv_def)
    obtain s1 stack1 where 1: "foldl (skip_one E) (s, rest) (map (id_at (e_graph E)) ?ds) = (s1, stack1)" by fastforce
    have f: "skip_inv E (insert cur (set stack1)) H D evs s1" "\<forall>d \<in> set ?ds. st_of s1 d = tsSkipped" "only_pending s s1"
      using foldl_skip_inv [OF E _ _ 1] less.prems Cons by (auto simp: succs_def)
    have "skip_ok E (set stack1) (st_of s1)"
      using inv_parts(5) [of E "insert cur (set stack1)"] f unfolding skip_inv_def skip_ok_def succs_def by blast
    then have "skip_inv E (set stack1) H D evs s1" using f(1) unfolding skip_inv_def sched_inv_def by blast
    moreover have "2 * open_count E s1 + length stack1 < 2 * open_count E s + length stack"
      using foldl_skip_one_measure [OF 1] Cons by simp
    ultimately have "skip_inv E {} H D evs (skip_loop E s1 stack1)" "only_pending s1 (skip_loop E s1 stack1)"
      using less.hyps by blast+
    then show ?thesis
      using 1 only_pending_trans [OF f(3)] by (simp add: Cons skip_loop.simps dependents_list [OF E cur])
  qed
qed

section \<open>Propagating success\<close>

lemma mk_entry_sel [simp]:
  "re_node (mk_entry E i t) = i" "re_task_id (mk_entry E i t) = id_at (e_graph E) i"
  by (simp_all add: mk_entry_def)

lemma mset_map_distinct: "mset xs = mset ys \<Longrightarrow> distinct (map f xs) \<longleftrightarrow> distinct (map f ys)"
  by (metis mset_eq_imp_distinct_iff mset_map)

lemma distinct_map_push: "distinct (map f (push pf e q)) \<longleftrightarrow> f e \<notin> f ` set q \<and> distinct (map f q)"
  using mset_map_distinct [of "push pf e q" "e # q" f] by simp

lemma queue_ok_push:
  assumes q: "queue_ok E H st wait q" and i: "i < e_size E" "i \<notin> re_node ` set q"
    and st: "st' i = tsReady" "\<And>j. j \<noteq> i \<Longrightarrow> st' j = st j" and w: "\<not> wait' i" "\<And>j. j \<noteq> i \<Longrightarrow> wait' j = wait j"
  shows "queue_ok E H st' wait' (push pf (mk_entry E i t) q)"
proof -
  have iH: "i \<notin> H" using q i(2) by (auto simp: queue_ok_def)
  have "{j. j < e_size E \<and> st' j = tsReady \<and> \<not> wait' j} =
      insert i {j. j < e_size E \<and> st j = tsReady \<and> \<not> wait j}"
    using i(1) st w by (auto simp: set_eq_iff) (metis st(2) w(2))+
  moreover have "\<forall>j \<in> H. st' j = st j" using iH st(2) by metis
  moreover have "\<forall>j < e_size E. wait' j \<longrightarrow> st' j = tsReady"
  proof (intro allI impI)
    fix j assume "j < e_size E" "wait' j"
    then show "st' j = tsReady" using q st w by (cases "j = i") (auto simp: queue_ok_def)
  qed
  ultimately show ?thesis using q i(2) unfolding queue_ok_def by (auto simp: distinct_map_push)
qed

lemma unmet_none: "finite (unmet E st i) \<Longrightarrow> card (unmet E st i) = 0 \<longleftrightarrow> (\<forall>p \<in> preds E i. is_success_like (st p))"
  by (auto simp: unmet_def)

lemma finite_unmet [simp]: "finite (unmet E st i)"
  by (simp add: unmet_def)

lemma propagate_ready_inv:
  assumes E: "env_ok E" and I: "sched_inv E K H D evs s" and d: "d \<in> D" "d < e_size E"
    and r: "rem_of s d \<le> 1" "st_of s d = tsPending" "\<not> s_cancelling s"
  shows "sched_inv E K H (D - {d}) evs (push_now E d (mark_state E d tsReady (dec_deps d s)))"
proof -
  note P = inv_parts [OF I]
  have "rem_of s d = card (unmet E (st_of s) d) + 1" using P(1) d by (simp add: deps_ok_def)
  then have met: "\<forall>p \<in> preds E d. is_success_like (st_of s p)"
    using r(1) unmet_none [OF finite_unmet, of E "st_of s" d] by simp
  have mir: "mirror_ok E (st_of (dec_deps d s)) (run_task_runs (s_run (dec_deps d s)))" using P(12) by simp
  have "trace_ok E ((st_of s)(d := tsReady)) (s_notices (mark_state E d tsReady (dec_deps d s)))"
    using P(13) r(2) mark_state_trace [OF E d(2) mir, of tsReady] by (simp add: allowed_def is_valid_transition_def)
  moreover have "mirror_ok E ((st_of s)(d := tsReady)) (run_task_runs (s_run (mark_state E d tsReady (dec_deps d s))))"
    using mark_state_mirror [OF E d(2) mir, of tsReady] by simp
  moreover have "deps_ok E (D - {d}) ((st_of s)(d := tsReady)) ((rem_of s)(d := rem_of s d - 1))"
    using deps_ok_upd [OF deps_ok_dec [OF P(1) d(1)], of tsReady d] r(2) by simp
  moreover have "queue_ok E H ((st_of s)(d := tsReady)) (wait_of s)
      (push (e_prefer E) (mk_entry E d (e_now E (s_tick (mark_state E d tsReady (dec_deps d s))))) (s_ready s))"
    using queue_idle [OF P(4) d(2) r(2)] d(2) by (intro queue_ok_push [OF P(4)]) simp_all
  moreover have "pend_ok E ((st_of s)(d := tsReady)) ((rem_of s)(d := rem_of s d - 1))"
    using P(3) by (simp add: pend_ok_def)
  moreover have "cancel_ok E ((st_of s)(d := tsReady)) (s_cancelling s) (s_calls s)"
    using P(9) r(3) by (simp add: cancel_ok_def)
  ultimately show ?thesis
    unfolding sched_inv_def push_now_proj push_now_sel mark_state_proj mark_state_sel dec_deps_proj dec_deps_sel
    using P r met
    by (intro conjI order_ok_upd skip_ok_upd cause_ok_upd run_ok_same pool_ok_same att_ok_same owed_ok_same) simp_all
qed

lemma propagate_dec_inv:
  assumes I: "sched_inv E K H D evs s" and d: "d \<in> D" "d < e_size E"
    and r: "\<not> (rem_of s d \<le> 1 \<and> st_of s d = tsPending \<and> \<not> s_cancelling s)"
  shows "sched_inv E K H (D - {d}) evs (dec_deps d s)"
proof -
  note P = inv_parts [OF I]
  have "1 < rem_of s d" if "st_of s d = tsPending"
    using r that P(9) d by (auto simp: cancel_ok_def)
  then have "pend_ok E (st_of s) ((rem_of s)(d := rem_of s d - 1))"
    using P(3) by (simp add: pend_ok_def)
  with P deps_ok_dec [OF P(1) d(1)] show ?thesis
    unfolding sched_inv_def dec_deps_proj dec_deps_sel by blast
qed

lemma propagate_one_inv:
  assumes E: "env_ok E" and I: "sched_inv E K H D evs s" and d: "d \<in> D" "d < e_size E"
  shows "sched_inv E K H (D - {d}) evs (propagate_one E s (id_at (e_graph E) d))"
  using propagate_ready_inv [OF E I d] propagate_dec_inv [OF I d] E d
  by (simp add: propagate_one_eq rem_of_def st_of_def)

lemma foldl_propagate_inv:
  assumes E: "env_ok E"
  shows "sched_inv E K H D evs s \<Longrightarrow> distinct ds \<Longrightarrow> set ds = D \<Longrightarrow> \<forall>d \<in> D. d < e_size E \<Longrightarrow>
    sched_inv E K H {} evs (foldl (propagate_one E) s (map (id_at (e_graph E)) ds))"
proof (induction ds arbitrary: s D)
  case (Cons d ds)
  have "d \<in> D" "d < e_size E" "set ds = D - {d}" using Cons.prems by auto
  with Cons.IH [OF propagate_one_inv [OF E Cons.prems(1)], of d] Cons.prems show ?case by simp
qed simp

lemma same_core_inv:
  assumes I: "sched_inv E K H D evs s" and c: "same_core s s'"
    and m: "mirror_ok E (st_of s) (run_task_runs (s_run s'))" and t: "trace_ok E (st_of s) (s_notices s')"
  shows "sched_inv E K H D evs s'"
proof -
  have "st_of s' = st_of s \<and> rem_of s' = rem_of s \<and> wait_of s' = wait_of s \<and> att_of s' = att_of s \<and> hold_of s' = hold_of s"
    using proj_cong [OF same_coreD(1) [OF c]] .
  with I m t show ?thesis unfolding sched_inv_def same_coreD [OF c] by simp
qed

lemma save_outcome_inv: "sched_inv E K H D evs s \<Longrightarrow> sched_inv E K H D evs (save_outcome E i s)"
proof -
  assume I: "sched_inv E K H D evs s"
  have "s_run (save_outcome E i s) = s_run s" "s_notices (save_outcome E i s) = s_notices s"
    by (simp_all add: save_outcome_def Let_def now_def look_fs_def)
  with I show ?thesis
    by (intro same_core_inv [OF I save_outcome_core]) (simp_all add: inv_parts)
qed

lemma on_task_succeeded_inv:
  assumes E: "env_ok E" and i: "i < e_size E" and I: "sched_inv E K H (succs E i) evs s"
  shows "sched_inv E K H {} evs (on_task_succeeded E i c s)"
proof -
  let ?s = "if \<not> c \<and> use_cache E i s then save_outcome E i s else s"
  have "sched_inv E K H (succs E i) evs ?s" using I save_outcome_inv by simp
  then have "sched_inv E K H {} evs (foldl (propagate_one E) ?s (map (id_at (e_graph E)) (g_succ (e_graph E) ! i)))"
    using foldl_propagate_inv [OF E _ distinct_succs [OF E i]] succs_range [OF E i] by (simp add: succs_def)
  then show ?thesis by (simp add: on_task_succeeded_def dependents_list [OF E i])
qed

end
