(* ===== verification/Scheduler_Steps.thy ===== *)
theory Scheduler_Steps
  imports Scheduler_Inv
begin

text \<open>
  Preservation of the scheduler's invariant by the handlers: a process that finished, a ready
  entry that is started, back-off promotion, cancellation, and the step relation.
\<close>

section \<open>A process finished\<close>

lemma owed_Cons: "owed cbs (kProcessFinished i pr a # evs) = map (\<lambda>(h, i, a). i) cbs @ i # List.map_filter finished_node evs"
  by (simp add: owed_def List.map_filter_def finished_node_def)

lemma owed_finish:
  assumes "owed_ok E st cbs (kProcessFinished i pr a # evs) c" "x \<noteq> tsRunning"
  shows "owed_ok E (st(i := x)) cbs evs c" "i \<in> running E st"
proof -
  have d: "distinct (map (\<lambda>(h, i, a). i) cbs @ i # List.map_filter finished_node evs)"
    and r: "set (map (\<lambda>(h, i, a). i) cbs @ i # List.map_filter finished_node evs) = running E st"
    using assms(1) by (simp_all only: owed_ok_def owed_Cons)
  then show "i \<in> running E st" by auto
  have "running E st = insert i (set (owed cbs evs))" "i \<notin> set (owed cbs evs)"
    using d r by (simp_all add: owed_def)
  then have "set (owed cbs evs) = running E (st(i := x))" using assms(2) by (simp add: running_upd)
  moreover have "distinct (owed cbs evs)" using d by (simp add: owed_def)
  ultimately show "owed_ok E (st(i := x)) cbs evs c" using assms(1) by (simp add: owed_ok_def)
qed

lemma demand_remove:
  assumes "i \<in> running E st" "x \<noteq> tsRunning"
  shows "demand E (st(i := x)) = demand E st - {#td_resources (task_of E i)#}"
    "td_resources (task_of E i) \<in># demand E st"
proof -
  have r: "running E (st(i := x)) = running E st - {i}" using assms(2) by (simp add: running_upd)
  show "td_resources (task_of E i) \<in># demand E st" using assms(1) by (simp add: demand_def)
  have "mset_set (running E st) = add_mset i (mset_set (running E st - {i}))"
    using assms(1) by (simp add: mset_set.remove)
  then show "demand E (st(i := x)) = demand E st - {#td_resources (task_of E i)#}"
    by (simp add: demand_def r)
qed

lemma demand_nonneg: "env_ok E \<Longrightarrow> r \<in># demand E st \<Longrightarrow> rp.nonneg r"
  by (auto simp: demand_def running_def task_of_nonneg)

lemma pool_ok_release:
  assumes E: "env_ok E" and p: "pool_ok E st hold pool" and i: "i \<in> running E st" and x: "x \<noteq> tsRunning"
  shows "pool_ok E (st(i := x)) (hold(i := None)) (release pool (td_resources (task_of E i)))"
proof -
  let ?r = "td_resources (task_of E i)"
  have "rp.accounts (release pool ?r) (demand E (st(i := x)))"
    unfolding demand_remove(1) [OF i x]
    using p demand_remove(2) [OF i x] demand_nonneg [OF E]
    by (intro rp.accounts_give_back) (auto simp: pool_ok_def)
  moreover have "used (release pool ?r) b \<le> max 0 (cap (release pool ?r) b)" for b
  proof -
    have "0 \<le> need ?r b" using task_of_nonneg [OF E, of i] i by (simp add: rp.nonneg_def running_def)
    moreover have "used pool b \<le> max 0 (cap pool b)" using p by (simp add: pool_ok_def)
    ultimately show ?thesis by (simp add: rp.give_back_used rp.give_back_cap)
  qed
  moreover have "rp_capacity (release pool ?r) = rp_capacity pool" by (simp add: release_def)
  ultimately show ?thesis using p x unfolding pool_ok_def by simp
qed

lemma running_run_ok:
  assumes "run_ok E st rc" "i \<in> running E st" "x \<noteq> tsRunning"
  shows "run_ok E (st(i := x)) (rc - 1)" "0 < rc"
proof -
  show "0 < rc" using assms by (auto simp: run_ok_def card_gt_0_iff)
  then show "run_ok E (st(i := x)) (rc - 1)"
    using assms by (simp add: run_ok_def running_upd of_nat_diff)
qed

text \<open>The state before the new task state is decided: accounting undone, attempt recorded.\<close>

definition undo_start :: "RunEnv \<Rightarrow> nat \<Rightarrow> ProcessResult \<Rightarrow> Sched \<Rightarrow> TaskResult \<times> Sched" where
  "undo_start E i pr s =
     (let s2 = release_reservation i (s\<lparr>s_running_count :=
                 (if 0 < s_running_count s then s_running_count s - 1 else s_running_count s)\<rparr>);
          (result, s3) = check_outputs E i (classify pr) s2
      in (result, record_attempt E i (if res_ok result then tsSucceeded else tsFailed) result (pr_pid pr) s3))"

lemma handle_process_finished_eq:
  "handle_process_finished E i pr s =
     (case undo_start E i pr s of (result, s4) \<Rightarrow>
      if res_ok result then on_task_succeeded E i False (mark_state E i tsSucceeded s4)
      else if s_cancelling s4 \<or> res_kind result = rkCancelled then mark_state E i tsCancelled s4
      else on_task_failed E i result s4)"
proof -
  let ?s1 = "s\<lparr>s_running_count := (if 0 < s_running_count s then s_running_count s - 1 else s_running_count s)\<rparr>"
  obtain r s3 where "check_outputs E i (classify pr) (release_reservation i ?s1) = (r, s3)" by fastforce
  then show ?thesis unfolding handle_process_finished_def undo_start_def Let_def by (simp only: prod.case)
qed

lemma release_reservation_sel:
  assumes "hold_of s i = Some r"
  shows "hold_of (release_reservation i s) = (hold_of s)(i := None)" "s_pool (release_reservation i s) = release (s_pool s) r"
    "st_of (release_reservation i s) = st_of s" "rem_of (release_reservation i s) = rem_of s"
    "wait_of (release_reservation i s) = wait_of s" "att_of (release_reservation i s) = att_of s"
    "s_ready (release_reservation i s) = s_ready s" "s_running_count (release_reservation i s) = s_running_count s"
    "s_run (release_reservation i s) = s_run s" "s_events (release_reservation i s) = s_events s"
    "s_cancelling (release_reservation i s) = s_cancelling s" "s_calls (release_reservation i s) = s_calls s"
    "s_callbacks (release_reservation i s) = s_callbacks s" "s_notices (release_reservation i s) = s_notices s"
    "s_cancel_requested (release_reservation i s) = s_cancel_requested s"
    "s_threw (release_reservation i s) = s_threw s"
proof -
  have h: "ns_has_reservation (s_nodes s i)" "ns_reserved (s_nodes s i) = r"
    using assms by (simp_all add: hold_of_def split: if_splits)
  then have eq: "release_reservation i s =
      set_node i (\<lambda>ns. ns\<lparr>ns_has_reservation := False\<rparr>) (s\<lparr>s_pool := release (s_pool s) r\<rparr>)"
    by (simp add: release_reservation_def)
  show "hold_of (release_reservation i s) = (hold_of s)(i := None)"
    "st_of (release_reservation i s) = st_of s" "rem_of (release_reservation i s) = rem_of s"
    "wait_of (release_reservation i s) = wait_of s" "att_of (release_reservation i s) = att_of s"
    unfolding eq by (rule ext, simp add: proj_defs)+
qed (use assms in \<open>simp_all add: release_reservation_def hold_of_def split: if_splits\<close>)

lemma record_attempt_mirror:
  "mirror_ok E st (run_task_runs (s_run s)) \<Longrightarrow> mirror_ok E st (run_task_runs (s_run (record_attempt E i x r p s)))"
  by (simp add: record_attempt_def Let_def now_def set_run_of_def notify_def mirror_ok_keep split_beta)

lemma record_attempt_trace: "trace_ok E st (s_notices s) \<Longrightarrow> trace_ok E st (s_notices (record_attempt E i x r p s))"
  by (auto simp: record_attempt_def Let_def now_def set_run_of_def notify_def trace_ok_def last_told_def split_beta)

lemma check_outputs_run [simp]:
  "s_run (snd (check_outputs E i r s)) = s_run s" "s_notices (snd (check_outputs E i r s)) = s_notices s"
  by (simp_all add: check_outputs_def Let_def look_fs_def split: list.splits)

text \<open>Everything \<open>undo_start\<close> changes in a state where node \<open>i\<close> runs.\<close>

lemma undo_start_spec:
  assumes I: "sched_inv E K H D evs s" and i: "i \<in> running E (st_of s)" and u: "undo_start E i pr s = (result, s4)"
  shows "st_of s4 = st_of s" "rem_of s4 = rem_of s" "wait_of s4 = wait_of s" "att_of s4 = att_of s"
    "hold_of s4 = (hold_of s)(i := None)" "s_pool s4 = release (s_pool s) (td_resources (task_of E i))"
    "s_ready s4 = s_ready s" "s_running_count s4 = s_running_count s - 1" "s_events s4 = s_events s"
    "s_cancelling s4 = s_cancelling s" "s_calls s4 = s_calls s" "s_callbacks s4 = s_callbacks s"
    "mirror_ok E (st_of s) (run_task_runs (s_run s4))" "trace_ok E (st_of s) (s_notices s4)"
    "s_cancel_requested s4 = s_cancel_requested s" "s_threw s4 = s_threw s"
proof -
  let ?s1 = "s\<lparr>s_running_count := (if 0 < s_running_count s then s_running_count s - 1 else s_running_count s)\<rparr>"
  let ?s2 = "release_reservation i ?s1"
  let ?s3 = "snd (check_outputs E i (classify pr) ?s2)"
  note P = inv_parts [OF I]
  have p1: "st_of ?s1 = st_of s" "rem_of ?s1 = rem_of s" "wait_of ?s1 = wait_of s" "att_of ?s1 = att_of s"
    "hold_of ?s1 = hold_of s" by (simp_all add: fun_eq_iff proj_defs)
  have h: "hold_of ?s1 i = Some (td_resources (task_of E i))"
    using P(8) i by (simp add: p1 pool_ok_def running_def)
  note r = release_reservation_sel [OF h]
  have s4: "s4 = record_attempt E i (if res_ok result then tsSucceeded else tsFailed) result (pr_pid pr) ?s3"
    using u by (auto simp: undo_start_def Let_def split: prod.splits)
  have p3: "st_of ?s3 = st_of ?s2 \<and> rem_of ?s3 = rem_of ?s2 \<and> wait_of ?s3 = wait_of ?s2 \<and>
      att_of ?s3 = att_of ?s2 \<and> hold_of ?s3 = hold_of ?s2"
    by (rule proj_cong) simp
  show "st_of s4 = st_of s" "rem_of s4 = rem_of s" "wait_of s4 = wait_of s" "att_of s4 = att_of s"
    "hold_of s4 = (hold_of s)(i := None)"
    by (simp_all only: s4 record_attempt_proj p3 r p1)
  show "s_pool s4 = release (s_pool s) (td_resources (task_of E i))" "s_ready s4 = s_ready s"
    "s_running_count s4 = s_running_count s - 1" "s_events s4 = s_events s"
    "s_cancelling s4 = s_cancelling s" "s_calls s4 = s_calls s" "s_callbacks s4 = s_callbacks s"
    "s_cancel_requested s4 = s_cancel_requested s" "s_threw s4 = s_threw s"
    by (simp_all add: s4 r)
  show "mirror_ok E (st_of s) (run_task_runs (s_run s4))"
    unfolding s4 using P(12) by (intro record_attempt_mirror) (simp add: r)
  show "trace_ok E (st_of s) (s_notices s4)"
    unfolding s4 using P(13) by (intro record_attempt_trace) (simp add: r)
qed

lemma queue_ok_leave_running:
  assumes q: "queue_ok E H st wait q" and i: "st i = tsRunning" "i < e_size E"
    and x: "x \<noteq> tsPending" "x = tsReady \<longrightarrow> w \<and> i \<notin> H" "w \<longrightarrow> x = tsReady"
  shows "queue_ok E H (st(i := x)) (wait(i := w)) q"
proof -
  have "\<not> wait i" using q i by (auto simp: queue_ok_def)
  then have "{j. j < e_size E \<and> (st(i := x)) j = tsReady \<and> \<not> (wait(i := w)) j} =
      {j. j < e_size E \<and> st j = tsReady \<and> \<not> wait j}"
    using i x by auto
  then show ?thesis using q i x unfolding queue_ok_def by auto
qed

text \<open>Node \<open>i\<close> leaves \<^const>\<open>tsRunning\<close> for the state \<open>x\<close>.\<close>

lemma leave_running_inv:
  assumes E: "env_ok E" and I: "sched_inv E {} {} {} (kProcessFinished i pr a # evs) s"
    and u: "undo_start E i pr s = (result, s4)"
    and x: "x \<in> {tsSucceeded, tsFailed, tsCancelled} \<and> \<not> w \<or> x = tsReady \<and> w"
    and c: "x = tsCancelled \<longrightarrow> s_cancelling s" "x = tsFailed \<or> x = tsReady \<longrightarrow> \<not> s_cancelling s"
    and a: "x = tsReady \<longrightarrow> att_of s i < max_attempts (td_retry (task_of E i))"
    and s5: "st_of s5 = st_of s4" "rem_of s5 = rem_of s4" "wait_of s5 = (wait_of s4)(i := w)"
      "att_of s5 = att_of s4" "hold_of s5 = hold_of s4" "s_pool s5 = s_pool s4" "s_ready s5 = s_ready s4"
      "s_running_count s5 = s_running_count s4" "s_events s5 = s_events s4" "s_cancelling s5 = s_cancelling s4"
      "s_calls s5 = s_calls s4" "s_callbacks s5 = s_callbacks s4" "s_run s5 = s_run s4" "s_notices s5 = s_notices s4"
  shows "sched_inv E (if x = tsFailed then {i} else {}) {} (if x = tsSucceeded then succs E i else {}) evs
           (mark_state E i x s5)"
proof -
  note P = inv_parts [OF I]
  have nr: "x \<noteq> tsRunning" using x by auto
  have ow: "owed_ok E ((st_of s)(i := x)) (s_callbacks s) (evs @ s_events s) (s_cancelling s)"
    and i: "i \<in> running E (st_of s)"
    using owed_finish [of E "st_of s" "s_callbacks s" i pr a "evs @ s_events s" "s_cancelling s" x] P(11) nr by simp_all
  note U = undo_start_spec [OF I i u]
  have n: "i < e_size E" "st_of s i = tsRunning" using i by (simp_all add: running_def)
  have st5: "st_of s5 = st_of s" using U s5 by simp
  have mir: "mirror_ok E (st_of s5) (run_task_runs (s_run s5))" using U(13) by (simp add: st5 s5)
  have "mirror_ok E ((st_of s)(i := x)) (run_task_runs (s_run (mark_state E i x s5)))"
    using mark_state_mirror [OF E n(1) mir, of x] by (simp add: st5)
  moreover have "trace_ok E ((st_of s)(i := x)) (s_notices (mark_state E i x s5))"
    using U(14) x n mark_state_trace [OF E n(1) mir, of x] by (auto simp: st5 s5 allowed_def is_valid_transition_def)
  moreover have "deps_ok E (if x = tsSucceeded then succs E i else {}) ((st_of s)(i := x)) (rem_of s)"
    using P(1) deps_ok_upd [OF P(1), of x i] deps_ok_success [OF E P(1) n(1), of x] n x by auto
  moreover have "skip_ok E (if x = tsFailed then {i} else {}) ((st_of s)(i := x))"
    using n x skip_ok_mono [OF P(5)] by (intro skip_ok_upd) auto
  moreover have "cancel_ok E ((st_of s)(i := x)) (s_cancelling s) (s_calls s)"
    using P(9) c x by (auto simp: cancel_ok_def)
  moreover have "att_ok E ((st_of s)(i := x)) (att_of s)"
    using P(10) x a n by (auto simp: att_ok_def)
  moreover have "queue_ok E {} ((st_of s)(i := x)) ((wait_of s)(i := w)) (s_ready s)"
    using x n by (intro queue_ok_leave_running [OF P(4)]) auto
  moreover have "order_ok E ((st_of s)(i := x))"
    using P(2) n x by (intro order_ok_upd) (auto simp: order_ok_def)
  moreover have "pend_ok E ((st_of s)(i := x)) (rem_of s)" using P(3) x by (intro pend_ok_upd) auto
  moreover have "cause_ok E ((st_of s)(i := x))" using P(6) n x by (intro cause_ok_upd) auto
  ultimately show ?thesis
    unfolding sched_inv_def mark_state_proj mark_state_sel s5 U
    using running_run_ok(1) [OF P(7) i nr] pool_ok_release [OF E P(8) i nr] ow by blast
qed

section \<open>Back-off promotion\<close>

lemma promote_one_inv:
  assumes I: "sched_inv E K H D evs s" and i: "i < e_size E"
  shows "sched_inv E K H D evs (promote_one E t s i)"
proof (cases "wait_of s i \<and> ns_retry_not_before (s_nodes s i) \<le> t")
  case True
  let ?s = "push_ready E i t (set_node i (\<lambda>ns. ns\<lparr>ns_waiting_for_retry := False\<rparr>) s)"
  note P = inv_parts [OF I]
  have eq: "promote_one E t s i = ?s" using True by (simp add: promote_one_def wait_of_def)
  have r: "st_of s i = tsReady" using P(4) True i by (simp add: queue_ok_def)
  have "i \<notin> re_node ` set (s_ready s)" using P(4) True r by (auto simp: queue_ok_def)
  then have "queue_ok E H (st_of s) ((wait_of s)(i := False)) (push (e_prefer E) (mk_entry E i t) (s_ready s))"
    using r i by (intro queue_ok_push [OF P(4)]) simp_all
  moreover have "st_of ?s = st_of s" "rem_of ?s = rem_of s" "att_of ?s = att_of s" "hold_of ?s = hold_of s"
    "wait_of ?s = (wait_of s)(i := False)"
    by (rule ext, simp add: proj_defs push_ready_def)+
  ultimately show ?thesis using P unfolding eq sched_inv_def by (simp add: push_ready_def)
next
  case False
  then have "promote_one E t s i = s" by (auto simp: promote_one_def wait_of_def)
  with I show ?thesis by simp
qed

lemma tick_inv:
  assumes I: "sched_inv E K H D evs s"
  shows "sched_inv E K H D evs (s\<lparr>s_tick := t\<rparr>)"
proof -
  have "same_core s (s\<lparr>s_tick := t\<rparr>)" by (simp add: same_core_def)
  with inv_parts(12,13) [OF I] show ?thesis by (intro same_core_inv [OF I]) simp_all
qed

lemma foldl_inv:
  assumes "\<And>s i. i \<in> set xs \<Longrightarrow> P s \<Longrightarrow> P (f s i)"
  shows "P s \<Longrightarrow> P (foldl f s xs)"
  using assms by (induction xs arbitrary: s) auto

lemma promote_backoff_ready_inv:
  assumes "sched_inv E K H D evs s"
  shows "sched_inv E K H D evs (promote_backoff_ready E s)"
proof -
  have "sched_inv E K H D evs (foldl (promote_one E t) s' [0..<e_size E])" if "sched_inv E K H D evs s'" for t s'
    using that by (rule foldl_inv [rotated]) (simp add: promote_one_inv)
  with assms tick_inv show ?thesis by (simp add: promote_backoff_ready_def now_def)
qed

section \<open>handle_process_finished\<close>

lemma classify_cancelled: "res_kind (classify pr) = rkCancelled \<longleftrightarrow> pr_outcome pr = poCancelled"
  by (simp add: classify_def result_of_def split: ProcessOutcome.splits)

lemma check_outputs_cancelled:
  "res_kind (fst (check_outputs E i r s)) = rkCancelled \<Longrightarrow> res_kind r = rkCancelled"
  by (simp add: check_outputs_def Let_def look_fs_def result_of_def split: if_splits list.splits)

lemma undo_start_cancelled:
  assumes "undo_start E i pr s = (result, s4)" "res_kind result = rkCancelled"
  shows "pr_outcome pr = poCancelled"
proof -
  have "\<exists>s'. result = fst (check_outputs E i (classify pr) s')"
    using assms(1) by (auto simp: undo_start_def Let_def split: prod.splits) (metis fst_conv)
  then show ?thesis using assms(2) check_outputs_cancelled classify_cancelled by blast
qed

lemma handle_process_finished_inv:
  assumes E: "env_ok E" and I: "sched_inv E {} {} {} (kProcessFinished i pr a # evs) s"
  shows "sched_inv E {} {} {} evs (handle_process_finished E i pr s)"
proof -
  obtain result s4 where u: "undo_start E i pr s = (result, s4)" by fastforce
  note P = inv_parts [OF I]
  have i: "i \<in> running E (st_of s)"
    using owed_finish(2) [of E "st_of s" "s_callbacks s" i pr a "evs @ s_events s" "s_cancelling s" tsFailed] P(11)
    by simp
  then have n: "i < e_size E" "st_of s i = tsRunning" by (simp_all add: running_def)
  note U = undo_start_spec [OF I i u]
  have w: "wait_of s4 = (wait_of s4)(i := False)" using P(4) n by (intro ext) (auto simp: U queue_ok_def)
  have canc: "pr_outcome pr = poCancelled \<Longrightarrow> s_cancelling s" using P(11) by (simp add: owed_ok_def)
  have ended: "sched_inv E (if x = tsFailed then {i} else {}) {} (if x = tsSucceeded then succs E i else {}) evs
      (mark_state E i x s4)"
    if "x \<in> {tsSucceeded, tsFailed, tsCancelled}" "x = tsCancelled \<longrightarrow> s_cancelling s" "x = tsFailed \<longrightarrow> \<not> s_cancelling s" for x
    using that w by (intro leave_running_inv [OF E I u, where w = False]) auto
  consider (ok) "res_ok result" | (cancelled) "\<not> res_ok result" "s_cancelling s \<or> res_kind result = rkCancelled"
    | (failed) "\<not> res_ok result" "\<not> s_cancelling s" "res_kind result \<noteq> rkCancelled" by blast
  then show ?thesis
  proof cases
    case ok
    then show ?thesis
      using on_task_succeeded_inv [OF E n(1)] ended [of tsSucceeded] by (simp add: handle_process_finished_eq u)
  next
    case cancelled
    then have "s_cancelling s" using canc undo_start_cancelled [OF u] by blast
    with cancelled ended [of tsCancelled] show ?thesis by (simp add: handle_process_finished_eq u U)
  next
    case failed
    have eq: "handle_process_finished E i pr s = on_task_failed E i result s4"
      using failed by (simp add: handle_process_finished_eq u U)
    show ?thesis
    proof (cases "res_retryable result \<and> should_retry (td_retry (task_of E i)) (att_of s i)")
      case True
      let ?s5 = "set_node i (\<lambda>ns. ns\<lparr>
                      ns_retry_not_before := e_now E (s_tick s4) +
                        delay_before (td_retry (task_of E i)) (att_of s i + 1) * ticks_per_ms,
                      ns_waiting_for_retry := True\<rparr>) (s4\<lparr>s_tick := Suc (s_tick s4)\<rparr>)"
      have att4: "ns_attempts_made (s_nodes s4 i) = att_of s i" using U(4) by (metis att_of_def)
      have "on_task_failed E i result s4 = promote_backoff_ready E (mark_state E i tsReady ?s5)"
        using True by (simp add: on_task_failed_def Let_def att4 now_def)
      moreover have "st_of ?s5 = st_of s4" "rem_of ?s5 = rem_of s4" "wait_of ?s5 = (wait_of s4)(i := True)"
        "att_of ?s5 = att_of s4" "hold_of ?s5 = hold_of s4" by (rule ext, simp add: proj_defs)+
      then have "sched_inv E {} {} {} evs (mark_state E i tsReady ?s5)"
        using leave_running_inv [OF E I u, where x = tsReady and w = True and ?s5.0 = ?s5] failed True
        by (simp add: should_retry_def)
      ultimately show ?thesis using promote_backoff_ready_inv eq by simp
    next
      case False
      have att4: "ns_attempts_made (s_nodes s4 i) = att_of s i" using U(4) by (metis att_of_def)
      have "on_task_failed E i result s4 = skip_loop E (mark_state E i tsFailed s4) [i]"
        using False by (auto simp: on_task_failed_def Let_def att4 skip_downstream_def)
      moreover have "skip_inv E (set [i]) {} {} evs (mark_state E i tsFailed s4)"
        using ended [of tsFailed] failed n by (simp add: skip_inv_def U)
      ultimately show ?thesis using skip_loop_inv [OF E] eq by (auto simp: skip_inv_def)
    qed
  qed
qed

section \<open>Starting a ready entry\<close>

lemma queue_entry:
  assumes "queue_ok E {} st wait q" "i \<in> re_node ` set q"
  shows "i < e_size E" "st i = tsReady" "\<not> wait i"
  using assms by (auto simp: queue_ok_def)

lemma queue_ok_stale:
  assumes q: "queue_ok E {} st wait q" and i: "i \<in> re_node ` set q" and x: "x \<noteq> tsPending" "x \<noteq> tsReady"
  shows "queue_ok E {i} (st(i := x)) wait q"
proof -
  note e = queue_entry [OF q i]
  have "{j. j < e_size E \<and> st j = tsReady \<and> \<not> wait j} = {j. j < e_size E \<and> (st(i := x)) j = tsReady \<and> \<not> wait j} \<union> {i}"
    using e x by auto
  then show ?thesis using q e x unfolding queue_ok_def by auto
qed

lemma queue_ok_remove:
  assumes E: "env_ok E" and q: "queue_ok E {i} st wait q" and i: "i < e_size E"
  shows "queue_ok E {} st wait (snd (remove_id (id_at (e_graph E) i) q))"
proof -
  have n: "re_node e < e_size E \<and> re_task_id e = id_at (e_graph E) (re_node e)" if "e \<in> set q" for e
  proof -
    have "re_node e \<in> {j. j < e_size E \<and> st j = tsReady \<and> \<not> wait j} \<union> {i}"
      using q that unfolding queue_ok_def by blast
    with q that i show ?thesis unfolding queue_ok_def by blast
  qed
  have "distinct (map re_node q)" using q by (simp add: queue_ok_def)
  then have "distinct (map re_task_id q)"
    using n id_at_eq [OF E] by (auto simp: distinct_map inj_on_def)
  then have eq: "snd (remove_id (id_at (e_graph E) i) q) = filter (\<lambda>e. re_node e \<noteq> i) q"
    using n id_at_eq [OF E _ i] by (auto simp: remove_id_distinct intro!: filter_cong)
  have "re_node ` set (filter (\<lambda>e. re_node e \<noteq> i) q) = re_node ` set q - {i}" by auto
  also have "\<dots> = {j. j < e_size E \<and> st j = tsReady \<and> \<not> wait j}"
    using q by (auto simp: queue_ok_def)
  finally show ?thesis using q unfolding eq queue_ok_def by (simp add: distinct_map_filter)
qed

lemma remove_entry_inv:
  assumes E: "env_ok E" and I: "sched_inv E {} {i} {} evs s" and i: "i < e_size E"
  shows "sched_inv E {} {} {} evs (s\<lparr>s_ready := snd (remove_id (id_at (e_graph E) i) (s_ready s))\<rparr>)"
proof -
  let ?s = "s\<lparr>s_ready := snd (remove_id (id_at (e_graph E) i) (s_ready s))\<rparr>"
  have "st_of ?s = st_of s \<and> rem_of ?s = rem_of s \<and> wait_of ?s = wait_of s \<and> att_of ?s = att_of s \<and> hold_of ?s = hold_of s"
    by (rule proj_cong) simp
  with inv_parts [OF I] queue_ok_remove [OF E _ i] show ?thesis unfolding sched_inv_def by simp
qed

lemma record_attempt_inv: "sched_inv E K H D evs s \<Longrightarrow> sched_inv E K H D evs (record_attempt E i x r p s)"
  by (rule same_core_inv [OF _ record_attempt_core])
    (auto intro: record_attempt_mirror record_attempt_trace inv_parts)

text \<open>Node \<open>i\<close> is resolved without a process.\<close>

lemma leave_ready_inv:
  assumes E: "env_ok E" and I: "sched_inv E {} {} {} evs s" and i: "i \<in> re_node ` set (s_ready s)"
    and nc: "\<not> s_cancelling s" and x: "x = tsFailed \<or> x = tsCached"
  shows "sched_inv E (if x = tsFailed then {i} else {}) {i} (if x = tsCached then succs E i else {}) evs
           (mark_state E i x s)"
proof -
  note P = inv_parts [OF I]
  have n: "i < e_size E" "st_of s i = tsReady" using queue_entry [OF P(4) i] by simp_all
  have "mirror_ok E ((st_of s)(i := x)) (run_task_runs (s_run (mark_state E i x s)))"
    by (rule mark_state_mirror [OF E n(1) P(12)])
  moreover have "trace_ok E ((st_of s)(i := x)) (s_notices (mark_state E i x s))"
    using P(13) x n by (intro mark_state_trace [OF E n(1) P(12)]) (auto simp: allowed_def is_valid_transition_def)
  moreover have "deps_ok E (if x = tsCached then succs E i else {}) ((st_of s)(i := x)) (rem_of s)"
    using P(1) deps_ok_upd [OF P(1), of x i] deps_ok_success [OF E P(1) n(1), of x] n x by auto
  moreover have "skip_ok E (if x = tsFailed then {i} else {}) ((st_of s)(i := x))"
    using n x skip_ok_mono [OF P(5)] by (intro skip_ok_upd) auto
  moreover have "cancel_ok E ((st_of s)(i := x)) (s_cancelling s) (s_calls s)"
    using P(9) nc x by (auto simp: cancel_ok_def)
  moreover have "queue_ok E {i} ((st_of s)(i := x)) (wait_of s) (s_ready s)"
    using x by (intro queue_ok_stale [OF P(4) i]) auto
  moreover have "order_ok E ((st_of s)(i := x))"
    using P(2) n x by (intro order_ok_upd) (auto simp: order_ok_def)
  moreover have "pend_ok E ((st_of s)(i := x)) (rem_of s)" using P(3) x by (intro pend_ok_upd) auto
  moreover have "cause_ok E ((st_of s)(i := x))" using P(6) n x by (intro cause_ok_upd) auto
  moreover have "run_ok E ((st_of s)(i := x)) (s_running_count s)" using P(7) n x by (intro run_ok_same) auto
  moreover have "pool_ok E ((st_of s)(i := x)) (hold_of s) (s_pool s)" using P(8) n x by (intro pool_ok_same) auto
  moreover have "att_ok E ((st_of s)(i := x)) (att_of s)" using P(10) n x by (intro att_ok_same) auto
  moreover have "owed_ok E ((st_of s)(i := x)) (s_callbacks s) (evs @ s_events s) (s_cancelling s)"
    using P(11) n x by (intro owed_ok_same) auto
  ultimately show ?thesis unfolding sched_inv_def mark_state_proj mark_state_sel by blast
qed

lemma fail_inline_inv:
  assumes E: "env_ok E" and I: "sched_inv E {} {} {} evs s" and i: "i \<in> re_node ` set (s_ready s)"
    and nc: "\<not> s_cancelling s"
  shows "sched_inv E {} {i} {} evs (fail_inline E i r s)" "\<not> s_cancelling (fail_inline E i r s)"
    "only_pending (mark_state E i tsFailed s) (fail_inline E i r s)"
proof -
  let ?r = "record_attempt E i tsFailed r None s"
  let ?m = "mark_state E i tsFailed ?r"
  have n: "i < e_size E" using queue_entry [OF inv_parts(4) [OF I] i] by simp
  have "sched_inv E {i} {i} {} evs ?m"
    using leave_ready_inv [OF E record_attempt_inv [OF I], of i i tsFailed r None tsFailed] i nc by simp
  then have "skip_inv E (set [i]) {i} {} evs ?m" using nc n by (simp add: skip_inv_def)
  from skip_loop_inv [OF E this]
  have "skip_inv E {} {i} {} evs (fail_inline E i r s)" "only_pending ?m (fail_inline E i r s)"
    by (simp_all add: fail_inline_def skip_downstream_def)
  then show "sched_inv E {} {i} {} evs (fail_inline E i r s)" "\<not> s_cancelling (fail_inline E i r s)"
    "only_pending (mark_state E i tsFailed s) (fail_inline E i r s)"
    by (simp_all add: skip_inv_def only_pending_def)
qed

section \<open>Launching\<close>

lemma pool_ok_reserve:
  assumes p: "pool_ok E st hold pool" and i: "i < e_size E" "st i \<noteq> tsRunning"
    and r: "fst (try_reserve pool (td_resources (task_of E i)))"
  shows "pool_ok E (st(i := tsRunning)) (hold(i := Some (td_resources (task_of E i))))
           (snd (try_reserve pool (td_resources (task_of E i))))"
proof -
  let ?r = "td_resources (task_of E i)"
  have "i \<notin> running E st" using i by (simp add: running_def)
  then have d: "demand E (st(i := tsRunning)) = add_mset ?r (demand E st)"
    using i by (simp add: demand_def running_upd)
  have "rp.accounts (snd (try_reserve pool ?r)) (demand E (st(i := tsRunning)))"
    unfolding d using p r by (intro rp.accounts_reserve) (auto simp: pool_ok_def)
  moreover have "used (snd (try_reserve pool ?r)) b \<le> max 0 (cap (snd (try_reserve pool ?r)) b)" for b
    using rp.reserve_within [OF r, of b] by simp
  moreover have "rp_capacity (snd (try_reserve pool ?r)) = rp_capacity pool"
    by (simp add: try_reserve_def Let_def)
  ultimately show ?thesis using p unfolding pool_ok_def by simp
qed

lemma launch_state_mirror:
  assumes E: "env_ok E" "i < e_size E" and m: "mirror_ok E (st_of s) (run_task_runs (s_run s))"
    and t: "trace_ok E (st_of s) (s_notices s)" and r: "st_of s i = tsReady"
  shows "mirror_ok E ((st_of s)(i := tsRunning)) (run_task_runs (s_run (launch_state E i s)))"
    "trace_ok E ((st_of s)(i := tsRunning)) (s_notices (launch_state E i s))"
proof -
  let ?s2 = "set_node i (\<lambda>ns. ns\<lparr>ns_attempts_made := ns_attempts_made ns + 1, ns_attempt_started := e_now E (s_tick s)\<rparr>)
       (s\<lparr>s_tick := Suc (s_tick s)\<rparr>)"
  let ?s3 = "if ns_attempts_made (s_nodes ?s2 i) = 1
             then set_run_of E i (\<lambda>tr. tr\<lparr>tr_started_at := Some (e_now E (s_tick s))\<rparr>) ?s2 else ?s2"
  have eq: "launch_state E i s = mark_state E i tsRunning ?s3" by (simp add: launch_state_def now_def)
  have st: "st_of ?s3 = st_of s" by (rule ext) (simp add: st_of_def set_run_of_def)
  have m3: "mirror_ok E (st_of ?s3) (run_task_runs (s_run ?s3))"
    unfolding st using m by (simp add: set_run_of_def mirror_ok_keep)
  have "trace_ok E (st_of ?s3) (s_notices ?s3)" unfolding st using t by (simp add: set_run_of_def)
  from mark_state_trace [OF E m3 this, of tsRunning]
  show "trace_ok E ((st_of s)(i := tsRunning)) (s_notices (launch_state E i s))"
    unfolding eq st using r by (simp add: allowed_def is_valid_transition_def)
  show "mirror_ok E ((st_of s)(i := tsRunning)) (run_task_runs (s_run (launch_state E i s)))"
    using mark_state_mirror [OF E m3, of tsRunning] unfolding eq st .
qed

lemma owed_ok_launch:
  assumes o1: "owed_ok E st cbs evs c" and i: "i < e_size E" "i \<notin> running E st"
  shows "owed_ok E (st(i := tsRunning)) (cbs @ [(h, i, a)]) evs c"
proof -
  have m: "mset (owed (cbs @ [(h, i, a)]) evs) = mset (i # owed cbs evs)" by (simp add: owed_def)
  have "distinct (owed (cbs @ [(h, i, a)]) evs) \<longleftrightarrow> distinct (i # owed cbs evs)"
    "set (owed (cbs @ [(h, i, a)]) evs) = set (i # owed cbs evs)"
    using mset_eq_imp_distinct_iff [OF m] mset_eq_setD [OF m] by simp_all
  with o1 i show ?thesis by (simp add: owed_ok_def running_upd)
qed

lemma start_process_calls:
  "request_terminate_call h b \<in> set (s_calls (start_process E i s)) \<longleftrightarrow> request_terminate_call h b \<in> set (s_calls s)"
  by (simp add: start_process_def Let_def now_def set_run_of_def)

lemma start_process_inv:
  assumes E: "env_ok E" and I: "sched_inv E {} {} {} evs s" and i: "i \<in> re_node ` set (s_ready s)"
    and nc: "\<not> s_cancelling s" and rc: "int (s_running_count s) < max_concurrency E"
    and r: "fst (try_reserve (s_pool s) (td_resources (task_of E i)))"
  defines "s1 \<equiv> set_node i (\<lambda>ns. ns\<lparr>ns_reserved := td_resources (task_of E i), ns_has_reservation := True\<rparr>)
             (s\<lparr>s_pool := snd (try_reserve (s_pool s) (td_resources (task_of E i)))\<rparr>)"
  shows "sched_inv E {} {i} {} evs (start_process E i s1)"
proof -
  note P = inv_parts [OF I]
  let ?s = "start_process E i s1" and ?st = "(st_of s)(i := tsRunning)"
  have n: "i < e_size E" "st_of s i = tsReady" using queue_entry [OF P(4) i] by simp_all
  have h: "launch_handle E i s1 \<noteq> kInvalidHandle" using E by (simp add: env_ok_def launch_handle_def)
  have pr: "st_of ?s = ?st" "rem_of ?s = rem_of s" "wait_of ?s = wait_of s"
    "att_of ?s = (att_of s)(i := att_of s i + 1)" "hold_of ?s = (hold_of s)(i := Some (td_resources (task_of E i)))"
    by (rule ext, simp add: proj_defs s1_def)+
  have st1: "st_of s1 = st_of s" by (rule ext) (simp add: st_of_def s1_def)
  have mt: "mirror_ok E ?st (run_task_runs (s_run ?s))" "trace_ok E ?st (s_notices ?s)"
    using launch_state_mirror [OF E n(1), of s1] P(12,13) n(2) by (simp_all add: st1) (simp_all add: s1_def)
  have ni: "i \<notin> running E (st_of s)" using n by (simp add: running_def)
  have "deps_ok E {} ?st (rem_of s)" using P(1) n by (intro deps_ok_upd) simp_all
  moreover have "order_ok E ?st" using P(2) n by (intro order_ok_upd) (auto simp: order_ok_def)
  moreover have "pend_ok E ?st (rem_of s)" using P(3) by (intro pend_ok_upd) simp_all
  moreover have "queue_ok E {i} ?st (wait_of s) (s_ready s)" by (intro queue_ok_stale [OF P(4) i]) simp_all
  moreover have "skip_ok E {} ?st" using P(5) n by (intro skip_ok_upd) simp_all
  moreover have "cause_ok E ?st" using P(6) n by (intro cause_ok_upd) simp_all
  moreover have "run_ok E ?st (Suc (s_running_count s))" using P(7) rc n ni by (simp add: run_ok_def running_upd)
  moreover have "pool_ok E ?st ((hold_of s)(i := Some (td_resources (task_of E i))))
      (snd (try_reserve (s_pool s) (td_resources (task_of E i))))"
    using n by (intro pool_ok_reserve [OF P(8) _ _ r]) simp_all
  moreover have "cancel_ok E ?st (s_cancelling s) (s_calls ?s)"
    using P(9) nc by (simp add: cancel_ok_def start_process_calls s1_def)
  moreover have "att_ok E ?st ((att_of s)(i := att_of s i + 1))" using P(10) n by (auto simp: att_ok_def)
  moreover have "owed_ok E ?st (s_callbacks s @ [(launch_handle E i s1, i, att_of s i + 1)]) (evs @ s_events s) (s_cancelling s)"
    using P(11) n ni by (intro owed_ok_launch)
  ultimately show ?thesis
    using mt h unfolding sched_inv_def pr by (simp add: s1_def att_of_def)
qed

lemma succeeded_cancelling: "s_cancelling (on_task_succeeded E i c s) = s_cancelling s"
proof -
  have one: "s_cancelling (propagate_one E s v) = s_cancelling s" for s v
    by (simp add: propagate_one_eq split: option.splits)
  have "s_cancelling (foldl (propagate_one E) s vs) = s_cancelling s" for s vs
    by (induction vs arbitrary: s) (simp_all add: one)
  then show ?thesis by (simp add: on_task_succeeded_def)
qed

text \<open>One round of the launch loop: the entry is started and leaves the queue.\<close>

lemma start_entry_inv:
  assumes E: "env_ok E" and I: "sched_inv E {} {} {} evs s" and e: "e \<in> set (s_ready s)"
    and nc: "\<not> s_cancelling s" and rc: "int (s_running_count s) < max_concurrency E"
    and ts: "try_start E (re_node e) s = (out, s')" and out: "out = kLaunched \<or> out = kResolvedInline"
  defines "s'' \<equiv> s'\<lparr>s_ready := snd (remove_id (re_task_id e) (s_ready s'))\<rparr>"
  shows "sched_inv E {} {} {} evs s'' \<and> \<not> s_cancelling s''"
proof -
  let ?i = "re_node e"
  have i: "?i \<in> re_node ` set (s_ready s)" using e by simp
  note P = inv_parts [OF I]
  have n: "?i < e_size E" using queue_entry [OF P(4) i] by simp
  have id: "re_task_id e = id_at (e_graph E) ?i" using P(4) e by (simp add: queue_ok_def)
  have core: "sched_inv E {} {} {} evs s1" if "same_core s s1" "s_run s1 = s_run s" "s_notices s1 = s_notices s" for s1
    using same_core_inv [OF I that(1)] P(12,13) that(2,3) by simp
  have "sched_inv E {} {?i} {} evs s' \<and> \<not> s_cancelling s'"
  proof (cases rule: try_start_cases [where E = E and i = ?i and s = s])
    case (missing name)
    have I0: "sched_inv E {} {} {} evs (snd (look_fs E s))" using tick_inv [OF I] by simp
    have "s' = fail_inline E ?i (result_of rkMissingInput (missing_input_message name)) (snd (look_fs E s))"
      using ts missing by simp
    then show ?thesis using fail_inline_inv(1,2) [OF E I0, of ?i] i nc by simp
  next
    case (cached hit s1)
    let ?r = "record_attempt E ?i tsCached (TaskResult_success\<lparr>res_exit_code := Some (co_exit_code hit)\<rparr>) None s1"
    have I1: "sched_inv E {} {} {} evs ?r" using record_attempt_inv [OF core [OF cached(1,3,4)]] .
    have "sched_inv E {} {?i} (succs E ?i) evs (mark_state E ?i tsCached ?r)"
      using leave_ready_inv [OF E I1, of ?i tsCached] i nc by (simp add: same_coreD [OF cached(1)])
    then have "sched_inv E {} {?i} {} evs (on_task_succeeded E ?i True (mark_state E ?i tsCached ?r))"
      by (rule on_task_succeeded_inv [OF E n])
    moreover have "s' = on_task_succeeded E ?i True (mark_state E ?i tsCached ?r)" using ts cached(2) by simp
    ultimately show ?thesis using nc by (simp add: succeeded_cancelling same_coreD [OF cached(1)])
  next
    case (launched s1)
    note c = same_coreD [OF launched(1)]
    have "sched_inv E {} {?i} {} evs s'"
      using start_process_inv [OF E core [OF launched(1,4,5)], of ?i] i nc rc launched(2,3) ts by (simp add: c)
    then show ?thesis using ts launched(3) nc by (auto simp: c)
  qed (use ts out in auto)
  with remove_entry_inv [OF E _ n] id show ?thesis by (simp add: s''_def)
qed

lemma try_start_kept_inv:
  assumes I: "sched_inv E {} {} {} evs s" and ts: "try_start E i s = (out, s')"
    and out: "out = kThrew \<or> out = kResourceBlocked"
  shows "sched_inv E {} {} {} evs s' \<and> s_cancelling s' = s_cancelling s \<and> s_ready s' = s_ready s \<and>
    s_running_count s' = s_running_count s \<and> s_pool s' = s_pool s"
proof (cases rule: try_start_cases [where E = E and i = i and s = s])
  case threw
  have "sched_inv E {} {} {} evs ((snd (look_fs E s))\<lparr>s_threw := True\<rparr>)"
    using inv_parts [OF I] proj_cong [of "(snd (look_fs E s))\<lparr>s_threw := True\<rparr>" s] by (simp add: sched_inv_def)
  with ts threw show ?thesis by auto
next
  case (blocked s1)
  have "sched_inv E {} {} {} evs s1"
    using same_core_inv [OF I blocked(1)] inv_parts(12,13) [OF I] blocked(4,5) by simp
  moreover have "s' = s1" using ts blocked(3) by simp
  ultimately show ?thesis by (simp add: same_coreD [OF blocked(1)])
qed (use ts out in auto)

lemma scan_inv:
  assumes E: "env_ok E"
  shows "sched_inv E {} {} {} evs s \<Longrightarrow> \<not> s_cancelling s \<Longrightarrow> int (s_running_count s) < max_concurrency E \<Longrightarrow>
    set es \<subseteq> set (s_ready s) \<Longrightarrow> scan E s es = (b, s') \<Longrightarrow>
    sched_inv E {} {} {} evs s' \<and> \<not> s_cancelling s'"
proof (induction es arbitrary: s)
  case (Cons e es)
  obtain out s1 where ts: "try_start E (re_node e) s = (out, s1)" by fastforce
  have e: "e \<in> set (s_ready s)" using Cons.prems(4) by simp
  show ?case
  proof (cases "out = kLaunched \<or> out = kResolvedInline")
    case True
    from start_entry_inv [OF E Cons.prems(1) e Cons.prems(2,3) ts True] show ?thesis
      using True Cons.prems(5) ts by auto
  next
    case False
    then have out: "out = kThrew \<or> out = kResourceBlocked" by (cases out) auto
    note k = try_start_kept_inv [OF Cons.prems(1) ts out]
    show ?thesis
    proof (cases "out = kThrew")
      case True
      with k Cons.prems ts show ?thesis by auto
    next
      case False
      with out ts Cons.prems(5) have "scan E s1 es = (b, s')" by simp
      with Cons.IH [of s1] k Cons.prems show ?thesis by simp
    qed
  qed
qed auto

lemma launch_loop_inv:
  assumes E: "env_ok E"
  shows "sched_inv E {} {} {} evs s \<Longrightarrow> \<not> s_cancelling s \<Longrightarrow>
    sched_inv E {} {} {} evs (launch_loop E s) \<and> \<not> s_cancelling (launch_loop E s)"
proof (induction "launch_measure E s" arbitrary: s rule: less_induct)
  case less
  show ?case
  proof (cases "int (s_running_count s) \<ge> max_concurrency E")
    case True
    with less.prems show ?thesis by (simp add: launch_loop.simps)
  next
    case False
    obtain b s' where sc: "scan E s (s_ready s) = (b, s')" by fastforce
    have I: "sched_inv E {} {} {} evs s' \<and> \<not> s_cancelling s'"
      using scan_inv [OF E less.prems _ _ sc] False by simp
    show ?thesis
    proof (cases b)
      case True
      then have "launch_measure E s' < launch_measure E s" using scan_measure [of E s "s_ready s" s'] sc by simp
      from less.hyps [OF this] I have "sched_inv E {} {} {} evs (launch_loop E s') \<and> \<not> s_cancelling (launch_loop E s')" by blast
      with True False sc show ?thesis by (subst (1 2) launch_loop.simps) simp
    next
      case b: False
      with I False sc show ?thesis by (subst (1 2) launch_loop.simps) simp
    qed
  qed
qed

section \<open>The safety net\<close>

text \<open>Skipping reads the queue only to remove from it, so it commutes with emptying it.\<close>

lemma mark_state_ready: "mark_state E i x (s\<lparr>s_ready := q\<rparr>) = (mark_state E i x s)\<lparr>s_ready := q\<rparr>"
  by (simp add: mark_state_def Let_def now_def set_run_of_def notify_def set_node_def run_of_def)

lemma set_node_ready: "set_node i f (s\<lparr>s_ready := q\<rparr>) = (set_node i f s)\<lparr>s_ready := q\<rparr>"
  by (simp add: set_node_def)

lemma record_attempt_ready:
  "record_attempt E i x r p (s\<lparr>s_ready := q\<rparr>) = (record_attempt E i x r p s)\<lparr>s_ready := q\<rparr>"
  by (simp add: record_attempt_def Let_def now_def set_run_of_def notify_def run_of_def)

lemma skip_node_empty: "skip_node E d v (s\<lparr>s_ready := []\<rparr>) = (skip_node E d v s)\<lparr>s_ready := []\<rparr>"
  by (simp add: skip_node_def mark_state_ready set_node_ready)

lemma skip_one_empty:
  "skip_one E (s\<lparr>s_ready := []\<rparr>, stack) v =
     (case skip_one E (s, stack) v of (s', stack') \<Rightarrow> (s'\<lparr>s_ready := []\<rparr>, stack'))"
  by (simp add: skip_one_eq skip_node_empty split: option.splits)

lemma foldl_skip_one_empty:
  "foldl (skip_one E) (s\<lparr>s_ready := []\<rparr>, stack) vs =
     (case foldl (skip_one E) (s, stack) vs of (s', stack') \<Rightarrow> (s'\<lparr>s_ready := []\<rparr>, stack'))"
proof (induction vs arbitrary: s stack)
  case (Cons v vs)
  obtain s1 stack1 where "skip_one E (s, stack) v = (s1, stack1)" by fastforce
  with Cons.IH [of s1 stack1] show ?case by (simp add: skip_one_empty)
qed simp

lemma skip_loop_empty: "skip_loop E (s\<lparr>s_ready := []\<rparr>) stack = (skip_loop E s stack)\<lparr>s_ready := []\<rparr>"
proof (induction E s stack rule: skip_loop.induct)
  case (2 E s cur stack)
  obtain s1 stack1 where 1: "foldl (skip_one E) (s, stack) (dependents (e_graph E) (id_at (e_graph E) cur)) = (s1, stack1)"
    by fastforce
  from 2 [OF _ refl, of s1 stack1] 1 show ?case by (simp add: skip_loop.simps foldl_skip_one_empty)
qed simp

lemma fail_inline_empty: "fail_inline E i r (s\<lparr>s_ready := []\<rparr>) = (fail_inline E i r s)\<lparr>s_ready := []\<rparr>"
  by (simp add: fail_inline_def skip_downstream_def record_attempt_ready mark_state_ready skip_loop_empty)

text \<open>
  The queue is emptied first and its nodes failed one by one; the invariant follows the state
  in which the nodes still to be failed are in the queue.
\<close>

lemma fail_stuck_inv:
  assumes E: "env_ok E"
  shows "sched_inv E {} {} {} evs v \<Longrightarrow> \<not> s_cancelling v \<Longrightarrow> distinct stuck \<Longrightarrow>
    set stuck = re_node ` set (s_ready v) \<Longrightarrow>
    sched_inv E {} {} {} evs (foldl (fail_stuck E) (v\<lparr>s_ready := []\<rparr>) stuck)"
proof (induction stuck arbitrary: v)
  case Nil
  then have "v\<lparr>s_ready := []\<rparr> = v" by (cases v) simp
  with Nil.prems(1) show ?case by simp
next
  case (Cons i stuck)
  let ?r = "result_of rkStartFailure (unschedulable_message (td_resources (task_of E i)))"
  let ?f = "fail_inline E i ?r v"
  let ?v = "?f\<lparr>s_ready := snd (remove_id (id_at (e_graph E) i) (s_ready ?f))\<rparr>"
  have i: "i \<in> re_node ` set (s_ready v)" using Cons.prems(4) by auto
  note P = inv_parts [OF Cons.prems(1)]
  have n: "i < e_size E" using queue_entry [OF P(4) i] by simp
  note F = fail_inline_inv [OF E Cons.prems(1) i Cons.prems(2), of ?r]
  have I': "sched_inv E {} {} {} evs ?v" using remove_entry_inv [OF E F(1) n] .
  have p: "st_of ?v = st_of ?f \<and> rem_of ?v = rem_of ?f \<and> wait_of ?v = wait_of ?f \<and> att_of ?v = att_of ?f \<and> hold_of ?v = hold_of ?f"
    by (rule proj_cong) simp
  have qv: "re_node ` set (s_ready v) = {j. j < e_size E \<and> st_of v j = tsReady \<and> \<not> wait_of v j}"
    using P(4) by (simp add: queue_ok_def)
  have q': "re_node ` set (s_ready ?v) = {j. j < e_size E \<and> st_of ?f j = tsReady \<and> \<not> wait_of ?f j}"
    using inv_parts(4) [OF I'] unfolding p [THEN conjunct1] by (simp add: queue_ok_def p)
  have op: "(j \<noteq> i \<longrightarrow> st_of v j \<noteq> tsPending \<longrightarrow> st_of ?f j = st_of v j \<and> wait_of ?f j = wait_of v j) \<and> st_of ?f i = tsFailed" for j
    using F(3) by (auto simp: only_pending_def)
  have "re_node ` set (s_ready ?v) = set stuck"
  proof -
    have mono: "re_node ` set (s_ready ?v) \<subseteq> re_node ` set (s_ready v)"
    proof -
      have "mset (s_ready ?f) \<subseteq># mset (s_ready v)" using fail_inline_measure by blast
      then have "set (s_ready ?f) \<subseteq> set (s_ready v)" by (metis mset_subset_eqD set_mset_mset subsetI)
      then show ?thesis using remove_id_snd_subset [of _ "s_ready ?f"] by fastforce
    qed
    have "i \<notin> re_node ` set (s_ready ?v)" using q' op by auto
    moreover have "j \<in> re_node ` set (s_ready ?v)" if "j \<in> set stuck" for j
    proof -
      have "j \<noteq> i" "j \<in> re_node ` set (s_ready v)" using that Cons.prems(3,4) by auto
      then show ?thesis using qv q' op [of j] by auto
    qed
    ultimately have "set stuck \<subseteq> re_node ` set (s_ready ?v)" "i \<notin> re_node ` set (s_ready ?v)" by blast+
    with mono Cons.prems(4) show ?thesis by (metis insert_subset list.simps(15) subset_antisym subset_insert)
  qed
  then have "sched_inv E {} {} {} evs (foldl (fail_stuck E) (?v\<lparr>s_ready := []\<rparr>) stuck)"
    using Cons.IH [OF I'] Cons.prems(3) F(2) by simp
  moreover have "fail_stuck E (v\<lparr>s_ready := []\<rparr>) i = ?f\<lparr>s_ready := []\<rparr>"
    by (simp add: fail_stuck_def fail_inline_empty)
  ultimately show ?case by simp
qed

lemma drain_nodes: "drain (\<lambda>e stuck. stuck @ [re_node e]) q acc = ([], acc @ map re_node q)"
  by (induction q arbitrary: acc) (simp_all add: drain_def)

lemma launch_phase_inv:
  assumes E: "env_ok E" and I: "sched_inv E {} {} {} evs s"
  shows "sched_inv E {} {} {} evs (launch_phase E s)"
proof (cases "s_cancelling s")
  case True
  with I show ?thesis by (simp add: launch_phase_def)
next
  case False
  have L: "sched_inv E {} {} {} evs (launch_loop E s)" "\<not> s_cancelling (launch_loop E s)"
    using launch_loop_inv [OF E I False] by simp_all
  have "distinct (map re_node (s_ready (launch_loop E s)))"
    using inv_parts(4) [OF L(1)] by (simp add: queue_ok_def)
  then have "sched_inv E {} {} {} evs (foldl (fail_stuck E) ((launch_loop E s)\<lparr>s_ready := []\<rparr>) (map re_node (s_ready (launch_loop E s))))"
    using fail_stuck_inv [OF E L] by simp
  with L False show ?thesis by (simp add: launch_phase_def Let_def drain_nodes)
qed

section \<open>Cancellation\<close>

text \<open>What cancelling leaves unchanged.\<close>

definition cancel_frame :: "Sched \<Rightarrow> Sched \<Rightarrow> bool" where
  "cancel_frame s s' \<longleftrightarrow>
     rem_of s' = rem_of s \<and> att_of s' = att_of s \<and> hold_of s' = hold_of s \<and> s_pool s' = s_pool s \<and>
     s_running_count s' = s_running_count s \<and> s_events s' = s_events s \<and> s_cancelling s' = s_cancelling s \<and>
     s_calls s' = s_calls s \<and> s_callbacks s' = s_callbacks s \<and> s_threw s' = s_threw s"

definition told :: "RunEnv \<Rightarrow> Sched \<Rightarrow> bool" where
  "told E s \<longleftrightarrow> mirror_ok E (st_of s) (run_task_runs (s_run s)) \<and> trace_ok E (st_of s) (s_notices s)"

lemma mark_state_told:
  assumes "env_ok E" "i < e_size E" "told E s" "st_of s i = x \<or> allowed (st_of s i) x"
  shows "told E (mark_state E i x s)"
  using assms mark_state_mirror mark_state_trace unfolding told_def by simp

lemma open_cancellable: "x = tsPending \<or> x = tsReady \<Longrightarrow> allowed x tsCancelled"
  by (auto simp: allowed_def is_valid_transition_def)

lemma drain_cancel:
  assumes E: "env_ok E"
  shows "told E s \<Longrightarrow> distinct (map re_node q) \<Longrightarrow> \<forall>e \<in> set q. re_node e < e_size E \<and> st_of s (re_node e) = tsReady \<Longrightarrow>
    (let s' = foldl (\<lambda>s e. mark_state E (re_node e) tsCancelled s) s q in
     told E s' \<and> cancel_frame s s' \<and> wait_of s' = wait_of s \<and>
     st_of s' = (\<lambda>i. if i \<in> re_node ` set q then tsCancelled else st_of s i))"
proof (induction q arbitrary: s)
  case (Cons e q)
  let ?s1 = "mark_state E (re_node e) tsCancelled s"
  have "told E ?s1" using Cons.prems open_cancellable by (intro mark_state_told [OF E]) auto
  moreover have "\<forall>e' \<in> set q. re_node e' < e_size E \<and> st_of ?s1 (re_node e') = tsReady"
    using Cons.prems by (auto simp: image_iff)
  ultimately have "let s' = foldl (\<lambda>s e. mark_state E (re_node e) tsCancelled s) ?s1 q in
     told E s' \<and> cancel_frame ?s1 s' \<and> wait_of s' = wait_of ?s1 \<and>
     st_of s' = (\<lambda>i. if i \<in> re_node ` set q then tsCancelled else st_of ?s1 i)"
    using Cons.prems(2) by (intro Cons.IH) auto
  then show ?case by (auto simp: Let_def cancel_frame_def fun_eq_iff)
qed (simp add: cancel_frame_def)

lemma cancel_one_spec:
  assumes E: "env_ok E" and i: "i < e_size E" and t: "told E s" and w: "wait_of s i \<longrightarrow> st_of s i = tsReady"
  shows "told E (cancel_one E s i)" "cancel_frame s (cancel_one E s i)"
    "st_of (cancel_one E s i) = (st_of s)(i := (if wait_of s i \<or> st_of s i = tsPending then tsCancelled else st_of s i))"
    "wait_of (cancel_one E s i) = (wait_of s)(i := False)" "s_ready (cancel_one E s i) = s_ready s"
proof -
  let ?w = "set_node i (\<lambda>ns. ns\<lparr>ns_waiting_for_retry := False\<rparr>) s"
  have p: "st_of ?w = st_of s" "rem_of ?w = rem_of s" "wait_of ?w = (wait_of s)(i := False)" "att_of ?w = att_of s"
    "hold_of ?w = hold_of s" by (rule ext, simp add: proj_defs)+
  have tw: "told E ?w" using t by (simp add: told_def p)
  have w0: "(wait_of s)(i := False) = wait_of s" if "\<not> wait_of s i" using that by (intro fun_upd_idem) simp
  consider (wait) "wait_of s i" | (pend) "\<not> wait_of s i" "st_of s i = tsPending" | (else) "\<not> wait_of s i" "st_of s i \<noteq> tsPending" by blast
  then have "told E (cancel_one E s i) \<and> cancel_frame s (cancel_one E s i) \<and>
    st_of (cancel_one E s i) = (st_of s)(i := (if wait_of s i \<or> st_of s i = tsPending then tsCancelled else st_of s i)) \<and>
    wait_of (cancel_one E s i) = (wait_of s)(i := False) \<and> s_ready (cancel_one E s i) = s_ready s"
  proof cases
    case wait
    then have eq: "cancel_one E s i = mark_state E i tsCancelled ?w" by (simp add: cancel_one_def wait_of_def)
    have "told E (mark_state E i tsCancelled ?w)"
      using wait w open_cancellable by (intro mark_state_told [OF E i tw]) (simp add: p)
    then show ?thesis using wait unfolding eq by (simp add: p cancel_frame_def)
  next
    case pend
    then have eq: "cancel_one E s i = mark_state E i tsCancelled s" by (simp add: cancel_one_def wait_of_def st_of_def)
    have "told E (mark_state E i tsCancelled s)" using pend open_cancellable by (intro mark_state_told [OF E i t]) simp
    then show ?thesis using pend unfolding eq by (simp add: cancel_frame_def w0)
  next
    case else
    then have "cancel_one E s i = s" by (simp add: cancel_one_def wait_of_def st_of_def)
    with else t show ?thesis by (simp add: cancel_frame_def w0)
  qed
  then show "told E (cancel_one E s i)" "cancel_frame s (cancel_one E s i)"
    "st_of (cancel_one E s i) = (st_of s)(i := (if wait_of s i \<or> st_of s i = tsPending then tsCancelled else st_of s i))"
    "wait_of (cancel_one E s i) = (wait_of s)(i := False)" "s_ready (cancel_one E s i) = s_ready s" by blast+
qed

lemma foldl_cancel_one:
  assumes E: "env_ok E"
  shows "k \<le> e_size E \<Longrightarrow> told E s \<Longrightarrow> \<forall>i < e_size E. wait_of s i \<longrightarrow> st_of s i = tsReady \<Longrightarrow>
    (let s' = foldl (cancel_one E) s [0..<k] in
     told E s' \<and> cancel_frame s s' \<and> s_ready s' = s_ready s \<and>
     st_of s' = (\<lambda>i. if i < k \<and> (wait_of s i \<or> st_of s i = tsPending) then tsCancelled else st_of s i) \<and>
     wait_of s' = (\<lambda>i. if i < k then False else wait_of s i))"
proof (induction k)
  case (Suc k)
  let ?s' = "foldl (cancel_one E) s [0..<k]"
  have IH: "told E ?s'" "cancel_frame s ?s'" "s_ready ?s' = s_ready s"
     "st_of ?s' = (\<lambda>i. if i < k \<and> (wait_of s i \<or> st_of s i = tsPending) then tsCancelled else st_of s i)"
     "wait_of ?s' = (\<lambda>i. if i < k then False else wait_of s i)"
    using Suc by (simp_all add: Let_def)
  have "wait_of ?s' k \<longrightarrow> st_of ?s' k = tsReady" using IH(4,5) Suc.prems by simp
  note c = cancel_one_spec [OF E _ IH(1) this]
  have "cancel_frame s (cancel_one E ?s' k)" using IH(2) c(2) Suc.prems(1) by (simp add: cancel_frame_def)
  then show ?case using c IH Suc.prems(1) by (auto simp: Let_def fun_eq_iff less_Suc_eq)
qed (simp add: cancel_frame_def)

lemma terminate_frame:
  defines "s' E s \<equiv> foldl terminate_one s [0..<e_size E]"
  shows "s_nodes (s' E s) = s_nodes s" "s_ready (s' E s) = s_ready s" "s_pool (s' E s) = s_pool s"
    "s_running_count (s' E s) = s_running_count s" "s_run (s' E s) = s_run s" "s_events (s' E s) = s_events s"
    "s_cancelling (s' E s) = s_cancelling s" "s_callbacks (s' E s) = s_callbacks s" "s_notices (s' E s) = s_notices s"
    "s_threw (s' E s) = s_threw s" "s_cancel_requested (s' E s) = s_cancel_requested s"
proof -
  have "s_nodes (foldl terminate_one s is) = s_nodes s \<and> s_ready (foldl terminate_one s is) = s_ready s \<and>
    s_pool (foldl terminate_one s is) = s_pool s \<and> s_running_count (foldl terminate_one s is) = s_running_count s \<and>
    s_run (foldl terminate_one s is) = s_run s \<and> s_events (foldl terminate_one s is) = s_events s \<and>
    s_cancelling (foldl terminate_one s is) = s_cancelling s \<and> s_callbacks (foldl terminate_one s is) = s_callbacks s \<and>
    s_notices (foldl terminate_one s is) = s_notices s \<and> s_threw (foldl terminate_one s is) = s_threw s \<and>
    s_cancel_requested (foldl terminate_one s is) = s_cancel_requested s" for s "is"
    by (induction "is" arbitrary: s) (simp_all add: terminate_one_def Let_def)
  then show "s_nodes (s' E s) = s_nodes s" "s_ready (s' E s) = s_ready s" "s_pool (s' E s) = s_pool s"
    "s_running_count (s' E s) = s_running_count s" "s_run (s' E s) = s_run s" "s_events (s' E s) = s_events s"
    "s_cancelling (s' E s) = s_cancelling s" "s_callbacks (s' E s) = s_callbacks s" "s_notices (s' E s) = s_notices s"
    "s_threw (s' E s) = s_threw s" "s_cancel_requested (s' E s) = s_cancel_requested s"
    unfolding s'_def by blast+
qed

text \<open>Every task that has not started becomes cancelled; the others keep their state.\<close>

definition cancelled_st :: "RunEnv \<Rightarrow> (nat \<Rightarrow> TaskState) \<Rightarrow> nat \<Rightarrow> TaskState" where
  "cancelled_st E st i = (if i < e_size E \<and> (st i = tsPending \<or> st i = tsReady) then tsCancelled else st i)"

lemma begin_cancel_spec:
  assumes E: "env_ok E" and I: "sched_inv E {} {} {} evs s"
  defines "s' \<equiv> begin_cancel E s"
  shows "told E s'" "st_of s' = cancelled_st E (st_of s)" "\<forall>i < e_size E. \<not> wait_of s' i" "s_ready s' = []" "s_cancelling s'"
    "rem_of s' = rem_of s" "att_of s' = att_of s" "hold_of s' = hold_of s" "s_pool s' = s_pool s"
    "s_running_count s' = s_running_count s" "s_events s' = s_events s" "s_callbacks s' = s_callbacks s" "s_threw s' = s_threw s"
proof -
  note P = inv_parts [OF I]
  let ?s1 = "foldl terminate_one (s\<lparr>s_cancelling := True\<rparr>) [0..<e_size E]"
  have "s_nodes ?s1 = s_nodes s" by (simp add: terminate_frame)
  note p1 = proj_same [OF this]
  have t1: "told E ?s1" using P(12,13) by (simp add: told_def p1 terminate_frame)
  have q0: "distinct (map re_node (s_ready s))" using P(4) by (simp add: queue_ok_def)
  have q1: "\<forall>e \<in> set (s_ready s). re_node e < e_size E \<and> st_of ?s1 (re_node e) = tsReady"
    using queue_entry(1,2) [OF P(4)] unfolding p1 by blast
  let ?s2 = "foldl (\<lambda>s e. mark_state E (re_node e) tsCancelled s) ?s1 (s_ready s)"
  have d: "told E ?s2" "cancel_frame ?s1 ?s2" "wait_of ?s2 = wait_of ?s1"
     "st_of ?s2 = (\<lambda>i. if i \<in> re_node ` set (s_ready s) then tsCancelled else st_of ?s1 i)"
    using drain_cancel [OF E t1 q0 q1] by (simp_all add: Let_def)
  let ?s3 = "?s2\<lparr>s_ready := []\<rparr>"
  have "s_nodes ?s3 = s_nodes ?s2" by simp
  note p3 = proj_same [OF this]
  have t3: "told E ?s3" using d(1) by (simp add: told_def p3)
  have e3: "wait_of ?s3 = wait_of s" "st_of ?s3 = (\<lambda>i. if i \<in> re_node ` set (s_ready s) then tsCancelled else st_of s i)"
    unfolding p3 d(3,4) p1 by (rule refl)+
  have qn: "re_node ` set (s_ready s) = {i. i < e_size E \<and> st_of s i = tsReady \<and> \<not> wait_of s i}"
    using P(4) by (simp add: queue_ok_def)
  have w: "wait_of s i \<Longrightarrow> i < e_size E \<Longrightarrow> st_of s i = tsReady" for i using P(4) by (simp add: queue_ok_def)
  have w3: "\<forall>i < e_size E. wait_of ?s3 i \<longrightarrow> st_of ?s3 i = tsReady" unfolding e3 qn using w by auto
  have s': "s' = foldl (cancel_one E) ?s3 [0..<e_size E]"
    by (simp add: s'_def begin_cancel_def Let_def drain_def terminate_frame)
  have c: "told E s'" "cancel_frame ?s3 s'" "s_ready s' = []"
     "st_of s' = (\<lambda>i. if i < e_size E \<and> (wait_of ?s3 i \<or> st_of ?s3 i = tsPending) then tsCancelled else st_of ?s3 i)"
     "wait_of s' = (\<lambda>i. if i < e_size E then False else wait_of ?s3 i)"
    using foldl_cancel_one [OF E order_refl t3 w3] by (simp_all add: s' Let_def)
  show "told E s'" "s_ready s' = []" "\<forall>i < e_size E. \<not> wait_of s' i" using c by simp_all
  show "st_of s' = cancelled_st E (st_of s)"
    unfolding c(4) e3 qn by (rule ext) (auto simp: cancelled_st_def w)
  show "s_cancelling s'" "rem_of s' = rem_of s" "att_of s' = att_of s" "hold_of s' = hold_of s" "s_pool s' = s_pool s"
    "s_running_count s' = s_running_count s" "s_events s' = s_events s" "s_callbacks s' = s_callbacks s" "s_threw s' = s_threw s"
    using c(2) d(2) by (simp_all add: cancel_frame_def p3 p1 terminate_frame)
qed

lemma cancelled_st_iff:
  "is_success_like (cancelled_st E st i) \<longleftrightarrow> is_success_like (st i)"
  "cancelled_st E st i = tsRunning \<longleftrightarrow> st i = tsRunning"
  "cancelled_st E st i = tsFailed \<longleftrightarrow> st i = tsFailed"
  "cancelled_st E st i = tsSkipped \<longleftrightarrow> st i = tsSkipped"
  "i < e_size E \<Longrightarrow> cancelled_st E st i \<noteq> tsPending \<and> cancelled_st E st i \<noteq> tsReady"
  "started (cancelled_st E st i) \<Longrightarrow> started (st i)"
  by (auto simp: cancelled_st_def split: if_splits)

lemma begin_cancel_inv:
  assumes E: "env_ok E" and I: "sched_inv E {} {} {} evs s"
  shows "sched_inv E {} {} {} evs (begin_cancel E s)"
proof -
  note P = inv_parts [OF I]
  note B = begin_cancel_spec [OF E I]
  let ?st = "cancelled_st E (st_of s)"
  note c = cancelled_st_iff [where E = E and st = "st_of s"]
  have r: "running E ?st = running E (st_of s)" by (simp add: running_def c)
  have "deps_ok E {} ?st (rem_of s)" using P(1) by (simp add: deps_ok_def unmet_def c(1))
  moreover have "order_ok E ?st" using P(2) c(6) unfolding order_ok_def c(1) by blast
  moreover have "pend_ok E ?st (rem_of s)" unfolding pend_ok_def using c(5) by blast
  moreover have "queue_ok E {} ?st (wait_of (begin_cancel E s)) []"
    using B(3) c(5) unfolding queue_ok_def by simp blast
  moreover have "skip_ok E {} ?st" using P(5) unfolding skip_ok_def dead_def c(3,4) .
  moreover have "cause_ok E ?st" using P(6) unfolding cause_ok_def c(3,4) .
  moreover have "run_ok E ?st (s_running_count s)" using P(7) by (simp add: run_ok_def r)
  moreover have "pool_ok E ?st (hold_of s) (s_pool s)" using P(8) by (simp add: pool_ok_def demand_def r c(2))
  moreover have "cancel_ok E ?st True calls" for calls using c(5) by (simp add: cancel_ok_def)
  moreover have "att_ok E ?st (att_of s)" using P(10) c(2,5) by (simp add: att_ok_def)
  moreover have "owed_ok E ?st (s_callbacks s) (evs @ s_events s) True" using P(11) by (simp add: owed_ok_def r)
  ultimately show ?thesis
    using B(1,5) unfolding sched_inv_def told_def B(2,4,6-13) by simp
qed

end
