(* ===== verification/Scheduler_Reach.thy ===== *)
theory Scheduler_Reach
  imports Scheduler_Steps
begin

text \<open>
  The invariant holds in every reachable state of the concurrent system, and what follows
  from it: no wait without something to wait for, and what holds when \<^verbatim>\<open>run()\<close> returns.
\<close>

section \<open>Events and the outside world\<close>

lemma owed_other: "finished_node ev = None \<Longrightarrow> owed cbs (ev # evs) = owed cbs evs"
  by (simp add: owed_def List.map_filter_def)

lemma owed_append: "owed cbs (evs @ evs') = owed cbs evs @ List.map_filter finished_node evs'"
  by (simp add: owed_def List.map_filter_def)

lemma drop_other_event:
  assumes "sched_inv E K H D (ev # evs) s" "finished_node ev = None"
  shows "sched_inv E K H D evs s"
  using assms by (simp add: sched_inv_def owed_ok_def owed_other)

lemma notify_inv:
  assumes I: "sched_inv E K H D evs s" and x: "\<And>tr prev. x \<noteq> on_task_state_changed tr prev"
  shows "sched_inv E K H D evs (notify x s)"
proof -
  have "same_core s (notify x s)" by (simp add: same_core_def notify_def)
  moreover have "told_one v y x = y" for v y using x by (cases x) auto
  then have "trace_ok E (st_of s) (s_notices (notify x s))"
    using inv_parts(13) [OF I] x by (auto simp: trace_ok_def notify_def last_told_def)
  moreover have "s_run (notify x s) = s_run s" by (simp add: notify_def)
  ultimately show ?thesis using inv_parts(12) [OF I] by (intro same_core_inv [OF I]) simp_all
qed

lemma handle_event_inv:
  assumes E: "env_ok E" and I: "sched_inv E {} {} {} (ev # evs) s"
  shows "sched_inv E {} {} {} evs (handle_event E s ev)"
proof (cases ev)
  case (kProcessFinished i pr a)
  with I show ?thesis using handle_process_finished_inv [OF E] by simp
next
  case (kLogLine i stream line a)
  then have "sched_inv E {} {} {} evs s" using drop_other_event [OF I] by (simp add: finished_node_def)
  then show ?thesis unfolding kLogLine by (simp add: notify_inv log_notice_def)
next
  case kCancel
  then have "sched_inv E {} {} {} evs s" using drop_other_event [OF I] by (simp add: finished_node_def)
  then show ?thesis unfolding kCancel by (simp add: begin_cancel_inv [OF E])
qed

lemma foldl_handle_event_inv:
  assumes E: "env_ok E"
  shows "sched_inv E {} {} {} (evs @ evs') s \<Longrightarrow> sched_inv E {} {} {} evs' (foldl (handle_event E) s evs)"
  by (induction evs arbitrary: s) (simp_all add: handle_event_inv [OF E])

lemma process_batch_inv:
  assumes E: "env_ok E" and I: "sched_inv E {} {} {} [] s"
  shows "sched_inv E {} {} {} [] (process_batch E s)"
proof -
  have "s_nodes (s\<lparr>s_events := []\<rparr>) = s_nodes s" by simp
  then have "sched_inv E {} {} {} (s_events s) (s\<lparr>s_events := []\<rparr>)"
    using I proj_same [of "s\<lparr>s_events := []\<rparr>" s] by (simp add: sched_inv_def)
  then show ?thesis
    unfolding process_batch_def using foldl_handle_event_inv [OF E, of "s_events s" "[]"]
    by (simp add: promote_backoff_ready_inv)
qed

lemma loop_top_inv:
  assumes E: "env_ok E" and I: "sched_inv E {} {} {} [] s"
  shows "sched_inv E {} {} {} [] (loop_top E s)"
  unfolding loop_top_def using launch_phase_inv [OF E] begin_cancel_inv [OF E I] I by simp

lemma push_event_inv:
  assumes I: "sched_inv E {} {} {} [] s" and ev: "finished_node ev = None"
  shows "sched_inv E {} {} {} [] (push_event ev s)"
proof -
  have "owed_ok E (st_of s) (s_callbacks s) (s_events s @ [ev]) (s_cancelling s)"
    using inv_parts(11) [OF I] ev by (auto simp: owed_ok_def owed_append List.map_filter_def finished_node_def)
  then show ?thesis
    using inv_parts [OF I] proj_same [of "push_event ev s" s] by (simp add: sched_inv_def push_event_def)
qed

lemma cancel_inv:
  assumes "sched_inv E {} {} {} [] s"
  shows "sched_inv E {} {} {} [] (cancel s)"
proof -
  have "sched_inv E {} {} {} [] (s\<lparr>s_cancel_requested := True\<rparr>)"
    using assms proj_same [of "s\<lparr>s_cancel_requested := True\<rparr>" s] by (simp add: sched_inv_def)
  then show ?thesis unfolding cancel_def by (rule push_event_inv) (simp add: finished_node_def)
qed

lemma deliver_exit_inv:
  assumes I: "sched_inv E {} {} {} [] s" and cb: "(h, i, a) \<in> set (s_callbacks s)" and ok: "exit_allowed h pr s"
  shows "sched_inv E {} {} {} [] (deliver_exit (h, i, a) pr s)"
proof -
  note P = inv_parts [OF I]
  let ?cbs = "remove1 (h, i, a) (s_callbacks s)" and ?ev = "kProcessFinished i pr a"
  obtain xs ys where xy: "s_callbacks s = xs @ (h, i, a) # ys" "(h, i, a) \<notin> set xs"
    using split_list_first [OF cb] by blast
  then have "?cbs = xs @ ys" by (simp add: remove1_append)
  then have m: "mset (owed ?cbs (s_events s @ [?ev])) = mset (owed (s_callbacks s) (s_events s))"
    by (simp add: xy(1) owed_def List.map_filter_def finished_node_def)
  have "pr_outcome pr = poCancelled \<longrightarrow> s_cancelling s"
    using ok P(9) by (auto simp: exit_allowed_def cancel_ok_def split: if_splits)
  then have "owed_ok E (st_of s) ?cbs (s_events s @ [?ev]) (s_cancelling s)"
    using P(11) mset_eq_imp_distinct_iff [OF m] mset_eq_setD [OF m] by (auto simp: owed_ok_def)
  moreover have "s_nodes (deliver_exit (h, i, a) pr s) = s_nodes s"
    by (simp add: deliver_exit_def push_event_def)
  note pr = proj_same [OF this]
  ultimately show ?thesis
    using P unfolding sched_inv_def pr by (simp add: deliver_exit_def push_event_def)
qed

section \<open>The initial state\<close>

definition seed_st :: "RunEnv \<Rightarrow> nat \<Rightarrow> nat \<Rightarrow> TaskState" where
  "seed_st E k i = (if i < k \<and> preds E i = {} then tsReady else tsPending)"

definition fresh :: "RunEnv \<Rightarrow> nat \<Rightarrow> Sched \<Rightarrow> bool" where
  "fresh E k s \<longleftrightarrow>
     st_of s = seed_st E k \<and> (\<forall>i < e_size E. rem_of s i = card (preds E i)) \<and> (\<forall>i. \<not> wait_of s i) \<and>
     (\<forall>i. att_of s i = 0) \<and> (\<forall>i. hold_of s i = None) \<and>
     s_pool s = mk_ResourcePool (cfg_resource_capacity (e_config E)) \<and> s_running_count s = 0 \<and>
     s_events s = [] \<and> \<not> s_cancelling s \<and> s_calls s = [] \<and> s_callbacks s = [] \<and>
     queue_ok E {} (st_of s) (wait_of s) (s_ready s) \<and> told E s \<and> \<not> s_cancel_requested s"

lemma seed_one_fresh:
  assumes E: "env_ok E" and k: "k < e_size E" and f: "fresh E k s"
  shows "fresh E (Suc k) (seed_one E s k)"
proof -
  have p: "rem_of s k = 0 \<longleftrightarrow> preds E k = {}" using f k by (simp add: fresh_def)
  have st: "st_of s k = tsPending" using f by (simp add: fresh_def seed_st_def)
  show ?thesis
  proof (cases "preds E k = {}")
    case True
    let ?s = "push_now E k (mark_state E k tsReady s)"
    have eq: "seed_one E s k = ?s" using p True by (simp add: seed_one_def rem_of_def)
    have "seed_st E (Suc k) = (seed_st E k)(k := tsReady)" using True by (auto simp: seed_st_def fun_eq_iff)
    then have sts: "st_of ?s = seed_st E (Suc k)" using f by (simp add: fresh_def)
    have q: "queue_ok E {} (st_of s) (wait_of s) (s_ready s)" using f unfolding fresh_def by blast
    have "queue_ok E {} (st_of ?s) (wait_of ?s) (s_ready ?s)"
      using queue_idle [OF q k st] k by (simp, intro queue_ok_push [OF q]) simp_all
    moreover have "told E (mark_state E k tsReady s)"
      using f k st by (intro mark_state_told [OF E]) (simp_all add: fresh_def allowed_def is_valid_transition_def)
    then have "told E ?s" by (simp add: told_def)
    ultimately show ?thesis using f sts unfolding eq fresh_def by simp
  next
    case False
    then have a: "seed_one E s k = s" using p by (simp add: seed_one_def rem_of_def)
    have b: "seed_st E (Suc k) = seed_st E k" using False by (auto simp: seed_st_def fun_eq_iff less_Suc_eq)
    show ?thesis using f unfolding a fresh_def b .
  qed
qed

lemma seed_ready_fresh:
  assumes E: "env_ok E" and f: "fresh E 0 s"
  shows "fresh E (e_size E) (seed_ready E s)"
proof -
  have "k \<le> e_size E \<Longrightarrow> fresh E k (foldl (seed_one E) s [0..<k])" for k
    by (induction k) (simp_all add: f seed_one_fresh [OF E])
  then show ?thesis by (simp add: seed_ready_def)
qed

lemma used_mk [simp]: "used (mk_ResourcePool c) b = 0"
  by (cases b) (simp_all add: mk_ResourcePool_def)

lemma fresh_inv:
  assumes f: "fresh E (e_size E) s"
  shows "sched_inv E {} {} {} [] s"
proof -
  let ?st = "seed_st E (e_size E)"
  have ns: "\<not> is_success_like (?st i)" "?st i \<noteq> tsRunning" "\<not> dead (?st i)" "?st i \<noteq> tsSkipped" "?st i \<noteq> tsCancelled" for i
    by (simp_all add: seed_st_def)
  then have un: "unmet E ?st i = preds E i" for i by (simp add: unmet_def)
  have r: "running E ?st = {}" using ns by (simp add: running_def)
  have "deps_ok E {} ?st (rem_of s)" using f by (simp add: deps_ok_def un fresh_def)
  moreover have "order_ok E ?st" by (simp add: order_ok_def seed_st_def)
  moreover have "pend_ok E ?st (rem_of s)" using f by (auto simp: pend_ok_def seed_st_def fresh_def card_gt_0_iff split: if_splits)
  moreover have "skip_ok E {} ?st" using ns by (simp add: skip_ok_def)
  moreover have "cause_ok E ?st" using ns by (simp add: cause_ok_def)
  moreover have "run_ok E ?st 0" by (simp add: run_ok_def r max_concurrency_def)
  moreover have "pool_ok E ?st (hold_of s) (mk_ResourcePool (cfg_resource_capacity (e_config E)))"
    using f ns accounts_init used_mk by (simp add: pool_ok_def fresh_def demand_def r) (simp add: mk_ResourcePool_def)
  moreover have "cancel_ok E ?st False []" using ns by (simp add: cancel_ok_def)
  moreover have "att_ok E ?st (att_of s)" using f ns by (auto simp: att_ok_def fresh_def max_attempts_def)
  moreover have "owed_ok E ?st [] [] False" by (simp add: owed_ok_def owed_def r List.map_filter_def)
  moreover have "st_of s = ?st" "queue_ok E {} (st_of s) (wait_of s) (s_ready s)" "told E s"
    "s_running_count s = 0" "s_events s = []" "s_cancelling s = False" "s_calls s = []" "s_callbacks s = []"
    "s_pool s = mk_ResourcePool (cfg_resource_capacity (e_config E))"
    using f unfolding fresh_def by blast+
  ultimately show ?thesis unfolding sched_inv_def told_def by simp
qed

lemma emplace_runs:
  defines "add \<equiv> \<lambda>m v. map_emplace v (new_task_run v) m"
  shows "sorted (map fst m) \<Longrightarrow> distinct (map fst m) \<Longrightarrow> \<forall>(v, tr) \<in> set m. tr_state tr = tsPending \<and> tr_task_id tr = v \<Longrightarrow>
    sorted (map fst (foldl add m vs)) \<and> distinct (map fst (foldl add m vs)) \<and>
    set (map fst (foldl add m vs)) = set (map fst m) \<union> set vs \<and>
    (\<forall>(v, tr) \<in> set (foldl add m vs). tr_state tr = tsPending \<and> tr_task_id tr = v)"
proof (induction vs arbitrary: m)
  case (Cons v vs)
  let ?m = "add m v"
  have p: "\<forall>(w, tr) \<in> set ?m. tr_state tr = tsPending \<and> tr_task_id tr = w"
    using Cons.prems(3) unfolding add_def
    by (induction v "new_task_run v" m rule: map_emplace.induct) (auto simp: new_task_run_def split: if_splits)
  have k: "sorted (map fst ?m)" "distinct (map fst ?m)" "set (map fst ?m) = insert v (set (map fst m))"
    unfolding add_def
    by (rule sorted_map_emplace [OF Cons.prems(1)] distinct_map_emplace [OF Cons.prems(1,2)] set_keys_map_emplace)+
  from Cons.IH [OF k(1,2) p] show ?case unfolding k(3) by (simp del: set_map)
qed simp

lemma new_fresh:
  assumes E: "env_ok E" and n: "Scheduler_new E cache = Inr s"
  shows "fresh E 0 s" "\<not> s_started s" "\<not> s_threw s" "run_state (s_run s) = psCreated"
proof -
  let ?runs = "foldl (\<lambda>m v. map_emplace v (new_task_run v) m) [] (g_nodes (e_graph E))"
  have "List.find (\<lambda>v. find_task (e_pipeline E) v = None) (g_nodes (e_graph E)) = None"
    using E by (auto simp: env_ok_def find_None_iff)
  note s = n [unfolded Scheduler_new_def this, simplified, symmetric]
  have r: "distinct (map fst ?runs)" "set (map fst ?runs) = set (g_nodes (e_graph E))"
    "\<forall>(v, tr) \<in> set ?runs. tr_state tr = tsPending \<and> tr_task_id tr = v"
    using emplace_runs [of "[]" "g_nodes (e_graph E)"] by simp_all
  have "mirror_ok E (\<lambda>_. tsPending) ?runs"
    unfolding mirror_ok_def
  proof (intro conjI allI impI r(1,2))
    fix i assume "i < e_size E"
    then have "id_at (e_graph E) i \<in> set (map fst ?runs)"
      unfolding r(2) by (simp add: id_at_def e_size_def dag_size_def)
    then obtain tr where tr: "map_of ?runs (id_at (e_graph E) i) = Some tr"
      by (metis not_None_eq map_of_eq_None_iff set_map)
    with r(3) have "tr_state tr = tsPending" by (auto dest: map_of_SomeD)
    with tr show "map_option tr_state (map_of ?runs (id_at (e_graph E) i)) = Some tsPending"
      by (simp del: map_of_eq_Some_iff)
  qed (use r(3) in blast)
  moreover have "g_in_degree (e_graph E) ! i = card (preds E i)" if "i < e_size E" for i
    using that in_degree_length [OF env_graph [OF E]] dag_wf_lists(2) [OF env_graph [OF E]]
    by (simp add: preds_def e_size_def distinct_card)
  moreover have "seed_st E 0 = (\<lambda>_. tsPending)" by (simp add: seed_st_def fun_eq_iff)
  ultimately show "fresh E 0 s"
    by (simp add: s fresh_def st_of_def [abs_def] rem_of_def wait_of_def att_of_def hold_of_def
        NodeState_default_def queue_ok_def told_def trace_ok_def last_told_def)
  show "\<not> s_started s" "\<not> s_threw s" "run_state (s_run s) = psCreated" by (simp_all add: s)
qed

lemma run_begin_inv:
  assumes E: "env_ok E" and n: "Scheduler_new E cache = Inr s0" and b: "run_begin E s0 = Inr s"
  shows "sched_inv E {} {} {} [] s"
proof -
  note F = new_fresh [OF E n]
  let ?s3 = "s0\<lparr>s_started := True, s_tick := Suc (s_tick s0),
      s_run := (s_run s0)\<lparr>run_state := psRunning, run_started_at := Some (e_now E (s_tick s0))\<rparr>\<rparr>"
  let ?s4 = "notify (on_run_started (s_run ?s3)) ?s3"
  have s: "s = seed_ready E ?s4" using b F(2) by (simp add: run_begin_def now_def)
  have "s_nodes ?s4 = s_nodes s0" by (simp add: notify_def)
  note p = proj_same [OF this]
  have "told E s0" using F(1) unfolding fresh_def by blast
  then have "told E ?s4" unfolding told_def p by (auto simp: notify_def trace_ok_def last_told_def)
  then have "fresh E 0 ?s4" using F(1) unfolding fresh_def p by (elim conjE) (simp add: notify_def)
  then show ?thesis unfolding s using fresh_inv seed_ready_fresh [OF E] by blast
qed

section \<open>Every reachable state\<close>

lemma step_sched_inv:
  assumes E: "env_ok E" and "step E x y" "sched_inv E {} {} {} [] (snd x)" "fst y \<noteq> pcReturned"
  shows "sched_inv E {} {} {} [] (snd y)"
  using assms(2-)
  by (cases rule: step.cases)
    (auto simp: loop_top_inv [OF E] process_batch_inv [OF E] cancel_inv
      intro!: deliver_exit_inv push_event_inv simp: finished_node_def)

lemma no_step_from_returned: "step E (pcReturned, s) y \<Longrightarrow> False"
  by (auto elim: step.cases)

lemma reachable_inv:
  assumes E: "env_ok E" and r: "reachable E cache x" and pc: "fst x \<noteq> pcReturned"
  shows "sched_inv E {} {} {} [] (snd x)"
  using r pc
proof (induction rule: reachable.induct)
  case (reach_init s0 s)
  then show ?case using run_begin_inv [OF E] by simp
next
  case (reach_step x y)
  have "fst x \<noteq> pcReturned" using reach_step.hyps(2) no_step_from_returned by (metis prod.collapse)
  with reach_step show ?case using step_sched_inv [OF E] by blast
qed

text \<open>The outside world changes neither the nodes nor the queue nor the counter.\<close>

definition same_work :: "Sched \<Rightarrow> Sched \<Rightarrow> bool" where
  "same_work s s' \<longleftrightarrow> s_nodes s' = s_nodes s \<and> s_ready s' = s_ready s \<and> s_running_count s' = s_running_count s"

lemma outside_same_work:
  "same_work s (deliver_exit cb pr s)" "same_work s (push_event ev s)" "same_work s (cancel s)"
  by (simp_all add: same_work_def deliver_exit_def push_event_def cancel_def split: prod.splits)

lemma same_work_settled: "same_work s s' \<Longrightarrow> all_settled E s' = all_settled E s"
  by (simp add: same_work_def all_settled_def)

lemma reachable_settled:
  assumes "reachable E cache x" "fst x = pcSettled"
  shows "all_settled E (snd x)"
  using assms
proof (induction rule: reachable.induct)
  case (reach_step x y)
  from reach_step.hyps(2) reach_step.IH reach_step.prems show ?case
    by (cases rule: step.cases) (auto simp: same_work_settled [OF outside_same_work(1)]
        same_work_settled [OF outside_same_work(2)] same_work_settled [OF outside_same_work(3)])
qed simp

lemma reachable_returned:
  assumes "reachable E cache (pcReturned, s)"
  obtains s0 where "reachable E cache (pcSettled, s0)" "s = run_end E s0"
  using assms
proof (cases rule: reachable.cases)
  case (reach_step x)
  from reach_step(2) show ?thesis
  proof (cases rule: step.cases)
    case (step_return s0)
    with reach_step(1) that show ?thesis by blast
  qed auto
qed

section \<open>Nothing to wait for\<close>

lemma earliest_none:
  assumes "\<forall>i < e_size E. \<not> ns_waiting_for_retry (s_nodes s i)"
  shows "earliest_retry_deadline E s = TimePoint_max"
proof -
  have "k \<le> e_size E \<Longrightarrow> foldl (\<lambda>earliest i. let ns = s_nodes s i in
              if ns_waiting_for_retry ns \<and> ns_retry_not_before ns < earliest
              then ns_retry_not_before ns else earliest) t [0..<k] = t" for t k
    using assms by (induction k) (simp_all add: Let_def)
  then show ?thesis by (simp add: earliest_retry_deadline_def)
qed

lemma foldl_fail_stuck_ready: "s_ready s = [] \<Longrightarrow> s_ready (foldl (fail_stuck E) s is) = []"
proof (induction "is" arbitrary: s)
  case (Cons i "is")
  have "mset (s_ready (fail_stuck E s i)) \<subseteq># mset (s_ready s)"
    unfolding fail_stuck_def using fail_inline_measure by blast
  with Cons show ?case by simp
qed simp

lemma launch_phase_post:
  assumes E: "env_ok E" and I: "sched_inv E {} {} {} [] s" and nt: "\<not> s_threw (launch_phase E s)"
    and r: "s_running_count (launch_phase E s) = 0" "s_ready (launch_phase E s) \<noteq> []"
  shows "\<exists>i < e_size E. wait_of (launch_phase E s) i"
proof (cases "s_cancelling s")
  case True
  then have a: "{j. j < e_size E \<and> st_of s j = tsReady \<and> \<not> wait_of s j} = {}"
    using inv_parts(9) [OF I] by (auto simp: cancel_ok_def)
  have "re_node ` set (s_ready s) = {j. j < e_size E \<and> st_of s j = tsReady \<and> \<not> wait_of s j} \<union> {}"
    using inv_parts(4) [OF I] unfolding queue_ok_def by blast
  then have "s_ready s = []" unfolding a by simp
  with r True show ?thesis by (simp add: launch_phase_def)
next
  case False
  let ?s1 = "launch_loop E s"
  have nc: "\<not> s_cancelling ?s1" using launch_loop_inv [OF E I False] by simp
  show ?thesis
  proof (cases "s_threw ?s1")
    case True
    with nt False show ?thesis by (simp add: launch_phase_def Let_def)
  next
    case nt1: False
    show ?thesis
    proof (cases "s_running_count ?s1 = 0 \<and> s_ready ?s1 \<noteq> [] \<and> earliest_retry_deadline E ?s1 = TimePoint_max")
      case True
      have "s_ready (launch_phase E s) = []"
        using False nc nt1 True foldl_fail_stuck_ready [of "?s1\<lparr>s_ready := []\<rparr>" E]
        by (simp add: launch_phase_def Let_def drain_nodes)
      with r show ?thesis by simp
    next
      case f: False
      then have eq: "launch_phase E s = ?s1" using False nt1 nc by (auto simp: launch_phase_def Let_def)
      with f r have "earliest_retry_deadline E ?s1 \<noteq> TimePoint_max" by simp
      then show ?thesis using earliest_none [of E ?s1] unfolding eq by (auto simp: wait_of_def)
    qed
  qed
qed

definition waits_ok :: "RunEnv \<Rightarrow> Sched \<Rightarrow> bool" where
  "waits_ok E s \<longleftrightarrow>
     \<not> all_settled E s \<and> (s_running_count s = 0 \<and> s_ready s \<noteq> [] \<longrightarrow> (\<exists>i < e_size E. wait_of s i))"

lemma same_work_waits:
  assumes "same_work s s'"
  shows "waits_ok E s' = waits_ok E s"
proof -
  have "wait_of s' = wait_of s" using assms by (intro proj_same) (simp add: same_work_def)
  then show ?thesis using assms unfolding waits_ok_def same_work_settled [OF assms] by (simp add: same_work_def)
qed

lemma loop_top_waits:
  assumes E: "env_ok E" and I: "sched_inv E {} {} {} [] s" and "\<not> s_threw (loop_top E s)" "\<not> all_settled E (loop_top E s)"
  shows "waits_ok E (loop_top E s)"
proof -
  let ?s = "if s_cancel_requested s \<and> \<not> s_cancelling s then begin_cancel E s else s"
  have I': "sched_inv E {} {} {} [] ?s" using I begin_cancel_inv [OF E I] by simp
  have eq: "loop_top E s = launch_phase E ?s" by (simp only: loop_top_def)
  show ?thesis using launch_phase_post [OF E I'] assms(3,4) unfolding waits_ok_def eq by blast
qed

lemma reachable_waits:
  assumes E: "env_ok E" and r: "reachable E cache x" and pc: "fst x = pcWait"
  shows "waits_ok E (snd x)"
  using r pc
proof (induction rule: reachable.induct)
  case (reach_step x y)
  from reach_step.hyps(2) show ?case
  proof (cases rule: step.cases)
    case (step_wait s)
    have "sched_inv E {} {} {} [] s" using reachable_inv [OF E reach_step.hyps(1)] step_wait by simp
    then show ?thesis using loop_top_waits [OF E] step_wait by simp
  qed (use reach_step.IH reach_step.prems in \<open>auto simp: same_work_waits [OF outside_same_work(1)]
        same_work_waits [OF outside_same_work(2)] same_work_waits [OF outside_same_work(3)]\<close>)
qed simp

section \<open>When nothing is left to do\<close>

lemma settled_states:
  assumes I: "sched_inv E {} {} {} [] s" and a: "all_settled E s" and i: "i < e_size E"
  shows "st_of s i \<noteq> tsReady" "st_of s i \<noteq> tsRunning"
proof -
  note P = inv_parts [OF I]
  have w: "\<not> wait_of s i" using a i by (simp add: all_settled_def wait_of_def)
  have "{j. j < e_size E \<and> st_of s j = tsReady \<and> \<not> wait_of s j} = {}"
    using P(4) a by (simp add: queue_ok_def all_settled_def)
  with w i show "st_of s i \<noteq> tsReady" by blast
  have "running E (st_of s) = {}" using P(7) a by (simp add: run_ok_def all_settled_def)
  with i show "st_of s i \<noteq> tsRunning" by (auto simp: running_def)
qed

lemma settled_not_pending:
  assumes E: "env_ok E" and I: "sched_inv E {} {} {} [] s" and a: "all_settled E s" and i: "i < e_size E"
  shows "st_of s i \<noteq> tsPending"
proof
  assume "st_of s i = tsPending"
  note P = inv_parts [OF I]
  let ?A = "{j. j < e_size E \<and> st_of s j = tsPending}"
  have nc: "\<not> s_cancelling s" using P(9) i \<open>st_of s i = tsPending\<close> by (auto simp: cancel_ok_def)
  obtain j where j: "j \<in> ?A" "\<forall>p. (p, j) \<in> edges E \<longrightarrow> p \<notin> ?A"
  proof (rule acyclic_minimal [OF _ edges_acyclic [OF E], of i ?A])
    have "edges E \<subseteq> {..<e_size E} \<times> {..<e_size E}" using edges_succs [OF E] succs_range [OF E] by auto
    then show "finite (edges E)" by (rule finite_subset) simp
  qed (use i \<open>st_of s i = tsPending\<close> in blast)+
  then have "0 < rem_of s j" using P(3) by (simp add: pend_ok_def)
  then have "unmet E (st_of s) j \<noteq> {}" using P(1) j by (auto simp: deps_ok_def)
  then obtain p where p: "p \<in> preds E j" "\<not> is_success_like (st_of s p)" by (auto simp: unmet_def)
  have pn: "p < e_size E" using preds_range [OF E _ p(1)] j by simp
  have sp: "j \<in> succs E p" using succs_preds [OF E pn, of j] p(1) j by simp
  then have "p \<notin> ?A" using j(2) edges_succs [OF E] pn by blast
  moreover have "st_of s p \<noteq> tsCancelled" using P(9) nc pn by (simp add: cancel_ok_def)
  ultimately have "dead (st_of s p)"
    using settled_states [OF I a pn] p(2) pn by (cases "st_of s p") auto
  then have "st_of s j = tsSkipped" using P(5) pn sp by (simp add: skip_ok_def)
  with j show False by simp
qed

lemma settled_terminal:
  assumes "env_ok E" "sched_inv E {} {} {} [] s" "all_settled E s" "i < e_size E"
  shows "is_terminal_task (st_of s i)"
  using settled_not_pending [OF assms] settled_states [OF assms(2-)] by (cases "st_of s i") auto

section \<open>What run() returns\<close>

lemma drain_log_run: "s_run (foldl (drain_log E) s evs) = s_run s \<and> s_nodes (foldl (drain_log E) s evs) = s_nodes s \<and>
    s_cancelling (foldl (drain_log E) s evs) = s_cancelling s \<and>
    s_cancel_requested (foldl (drain_log E) s evs) = s_cancel_requested s"
proof (induction evs arbitrary: s)
  case (Cons ev evs)
  have "s_run (drain_log E s ev) = s_run s \<and> s_nodes (drain_log E s ev) = s_nodes s \<and>
      s_cancelling (drain_log E s ev) = s_cancelling s \<and> s_cancel_requested (drain_log E s ev) = s_cancel_requested s"
    by (cases ev) (simp_all add: notify_def)
  with Cons.IH [of "drain_log E s ev"] show ?case by simp
qed simp

lemma run_end_sel:
  "run_task_runs (s_run (run_end E s)) = run_task_runs (s_run s)" "s_nodes (run_end E s) = s_nodes s"
  "run_state (s_run (run_end E s)) = final_state s"
  using drain_log_run [of E "s\<lparr>s_events := []\<rparr>" "s_events s"]
  by (simp_all add: run_end_def Let_def now_def notify_def final_state_def)

lemma mirror_entry:
  assumes m: "mirror_ok E st runs" and e: "(v, tr) \<in> set runs"
  obtains i where "i < e_size E" "v = id_at (e_graph E) i" "tr_state tr = st i"
proof -
  have "v \<in> set (map fst runs)" using e by force
  then have "v \<in> set (g_nodes (e_graph E))" using m unfolding mirror_ok_def by blast
  then obtain i where i: "i < e_size E" "v = id_at (e_graph E) i"
    by (auto simp: in_set_conv_nth id_at_def e_size_def dag_size_def)
  have "map_of runs v = Some tr" using m e by (simp add: mirror_ok_def)
  with m i have "tr_state tr = st i" by (auto simp: mirror_ok_def simp del: map_of_eq_Some_iff)
  with i that show ?thesis by blast
qed

lemma mirror_node:
  assumes m: "mirror_ok E st runs" and i: "i < e_size E"
  obtains tr where "(id_at (e_graph E) i, tr) \<in> set runs" "tr_state tr = st i"
  using m i that unfolding mirror_ok_def by (metis map_of_SomeD option.map_disc_iff option.map_sel option.sel option.collapse option.distinct(1))

lemma failed_count:
  assumes m: "mirror_ok E st (run_task_runs r)"
  shows "0 < c_failed (run_counts r) \<longleftrightarrow> (\<exists>i < e_size E. st i = tsFailed)"
proof -
  have "0 < c_failed (run_counts r) \<longleftrightarrow> (\<exists>(v, tr) \<in> set (run_task_runs r). tr_state tr = tsFailed)"
    using run_counts_count [of r tsFailed] by (simp add: filter_empty_conv case_prod_unfold)
  also have "\<dots> \<longleftrightarrow> (\<exists>i < e_size E. st i = tsFailed)"
  proof
    assume "\<exists>(v, tr) \<in> set (run_task_runs r). tr_state tr = tsFailed"
    then obtain v tr where e: "(v, tr) \<in> set (run_task_runs r)" "tr_state tr = tsFailed" by blast
    show "\<exists>i < e_size E. st i = tsFailed" by (rule mirror_entry [OF m e(1)]) (use e(2) in auto)
  next
    assume "\<exists>i < e_size E. st i = tsFailed"
    then obtain i where i: "i < e_size E" "st i = tsFailed" by blast
    show "\<exists>(v, tr) \<in> set (run_task_runs r). tr_state tr = tsFailed"
      by (rule mirror_node [OF m i(1)]) (use i(2) in auto)
  qed
  finally show ?thesis .
qed

lemma returned_state:
  assumes E: "env_ok E" and r: "reachable E cache (pcReturned, s)"
  obtains s0 where "sched_inv E {} {} {} [] s0" "all_settled E s0" "s = run_end E s0"
proof -
  obtain s0 where s0: "reachable E cache (pcSettled, s0)" "s = run_end E s0"
    using reachable_returned [OF r] .
  then show ?thesis using that reachable_inv [OF E s0(1)] reachable_settled [OF s0(1)] by simp
qed

lemma final_state_settled:
  assumes E: "env_ok E" and I: "sched_inv E {} {} {} [] s" and a: "all_settled E s"
  shows "final_state s = (if s_cancelling s \<or> s_cancel_requested s then psCancelled
     else if \<forall>i < e_size E. is_success_like (st_of s i) then psSucceeded else psFailed)"
proof (cases "s_cancelling s \<or> s_cancel_requested s")
  case True
  then show ?thesis by (simp add: final_state_def)
next
  case False
  note P = inv_parts [OF I]
  have "(\<exists>i < e_size E. st_of s i = tsFailed) \<longleftrightarrow> \<not> (\<forall>i < e_size E. is_success_like (st_of s i))"
  proof
    assume "\<not> (\<forall>i < e_size E. is_success_like (st_of s i))"
    then obtain i where i: "i < e_size E" "\<not> is_success_like (st_of s i)" by blast
    have "st_of s i \<noteq> tsCancelled" using P(9) False i by (auto simp: cancel_ok_def)
    then have "st_of s i = tsFailed \<or> st_of s i = tsSkipped"
      using settled_terminal [OF E I a i(1)] i(2) by (cases "st_of s i") auto
    then show "\<exists>i < e_size E. st_of s i = tsFailed" using P(6) i by (auto simp: cause_ok_def)
  qed auto
  with failed_count [OF P(12)] False show ?thesis by (simp add: final_state_def Let_def)
qed

section \<open>The safety net fails only what cannot fit\<close>

lemma scan_all_blocked:
  "scan E s es = (False, s') \<Longrightarrow> \<not> s_threw s' \<Longrightarrow>
   (\<forall>e \<in> set es. \<not> fst (try_reserve (s_pool s) (td_resources (task_of E (re_node e))))) \<and>
   s_pool s' = s_pool s \<and> s_ready s' = s_ready s"
proof (induction es arbitrary: s)
  case (Cons e es)
  show ?case
  proof (cases rule: try_start_cases [where E = E and i = "re_node e" and s = s])
    case (blocked s1)
    with Cons.prems have "scan E s1 es = (False, s')" by simp
    from Cons.IH [OF this Cons.prems(2)] blocked(2) show ?thesis by (simp add: same_coreD [OF blocked(1)])
  qed (use Cons.prems in auto)
qed simp

lemma launch_loop_blocked:
  "\<not> s_threw (launch_loop E s) \<Longrightarrow> int (s_running_count (launch_loop E s)) < max_concurrency E \<Longrightarrow>
   e \<in> set (s_ready (launch_loop E s)) \<Longrightarrow>
   \<not> fst (try_reserve (s_pool (launch_loop E s)) (td_resources (task_of E (re_node e))))"
proof (induction "launch_measure E s" arbitrary: s rule: less_induct)
  case less
  show ?case
  proof (cases "int (s_running_count s) \<ge> max_concurrency E")
    case True
    then have "launch_loop E s = s" by (simp add: launch_loop.simps)
    with True less.prems show ?thesis by simp
  next
    case False
    obtain b s' where sc: "scan E s (s_ready s) = (b, s')" by fastforce
    show ?thesis
    proof (cases b)
      case True
      then have m: "launch_measure E s' < launch_measure E s" using scan_measure [of E s "s_ready s" s'] sc by simp
      have eq: "launch_loop E s = launch_loop E s'" using True False sc by (subst launch_loop.simps) simp
      show ?thesis using less.hyps [OF m] less.prems unfolding eq by blast
    next
      case b: False
      have eq: "launch_loop E s = s'" using b False sc by (subst launch_loop.simps) simp
      show ?thesis using scan_all_blocked [of E s "s_ready s" s'] sc b less.prems unfolding eq by simp
    qed
  qed
qed

text \<open>With no task running, what is still in the queue after the loop exceeds the machine.\<close>

lemma stuck_cannot_fit:
  assumes E: "env_ok E" and I: "sched_inv E {} {} {} [] s" and nc: "\<not> s_cancelling s"
    and nt: "\<not> s_threw (launch_loop E s)" and rc: "s_running_count (launch_loop E s) = 0"
    and e: "e \<in> set (s_ready (launch_loop E s))"
  shows "\<not> fits_within (td_resources (task_of E (re_node e))) (cfg_resource_capacity (e_config E))"
proof -
  let ?s = "launch_loop E s" and ?r = "td_resources (task_of E (re_node e))"
  have L: "sched_inv E {} {} {} [] ?s" using launch_loop_inv [OF E I nc] by simp
  note P = inv_parts [OF L]
  have "running E (st_of ?s) = {}" using P(7) rc by (simp add: run_ok_def)
  then have acc: "rp.accounts (s_pool ?s) {#}" using P(8) by (simp add: pool_ok_def demand_def)
  have "0 < max_concurrency E" by (simp add: max_concurrency_def)
  then have "\<not> fst (try_reserve (s_pool ?s) ?r)" using launch_loop_blocked [OF nt _ e] rc by simp
  then have "\<not> can_ever_fit (s_pool ?s) ?r"
    unfolding rp.idle_reserve_fails_iff [OF acc] can_ever_fit_iff by (auto simp: not_le)
  then show ?thesis using P(8) by (simp add: can_ever_fit_def pool_ok_def)
qed

end
