(* ===== verification/Scheduler_Effects.thy ===== *)
theory Scheduler_Effects
  imports Scheduler_Reach
begin

text \<open>
  What the handling of a finished process does to the states of all tasks: success makes the
  dependents ready whose last dependency it was, a final failure skips exactly the tasks
  downstream of it, and a failure with attempts left sends the task back to the queue. At the end,
  what the reported state of the run says about its tasks.
\<close>

section \<open>The result of an attempt\<close>

definition attempt_ok :: "RunEnv \<Rightarrow> nat \<Rightarrow> ProcessResult \<Rightarrow> nat \<Rightarrow> bool" where
  "attempt_ok E i pr t \<longleftrightarrow>
     pr_succeeded pr \<and>
     (cfg_verify_outputs (e_config E) \<longrightarrow> missing_outputs (e_fs E t) (base_dir E) (task_of E i) = [])"

lemma classify_ok: "res_ok (classify pr) \<longleftrightarrow> pr_succeeded pr"
  by (simp add: classify_def result_of_def res_ok_def pr_succeeded_def split: ProcessOutcome.splits)

lemma release_reservation_tick [simp]: "s_tick (release_reservation i s) = s_tick s"
  by (simp add: release_reservation_def set_node_def)

lemma undo_start_ok: "res_ok (fst (undo_start E i pr s)) \<longleftrightarrow> attempt_ok E i pr (s_tick s)"
proof -
  have "res_ok (fst (check_outputs E i (classify pr) s')) \<longleftrightarrow> attempt_ok E i pr (s_tick s')" for s'
    using classify_ok [of pr]
    by (simp add: check_outputs_def attempt_ok_def look_fs_def Let_def result_of_def split: list.splits)
       (auto simp: res_ok_def)
  then show ?thesis by (simp add: undo_start_def Let_def split_beta)
qed

text \<open>Whether a failed attempt is followed by another one; a process that never started is not retried.\<close>

definition attempt_again :: "RunEnv \<Rightarrow> nat \<Rightarrow> ProcessResult \<Rightarrow> int \<Rightarrow> bool" where
  "attempt_again E i pr made \<longleftrightarrow> pr_outcome pr \<noteq> poSpawnFailed \<and> should_retry (td_retry (task_of E i)) made"

lemma undo_start_retryable:
  assumes u: "undo_start E i pr s = (result, s4)" and "\<not> res_ok result" "pr_outcome pr \<noteq> poCancelled"
  shows "res_retryable result \<longleftrightarrow> pr_outcome pr \<noteq> poSpawnFailed"
proof -
  have "\<exists>s'. result = fst (check_outputs E i (classify pr) s')"
    using u by (auto simp: undo_start_def Let_def split: prod.splits) (metis fst_conv)
  then consider "result = classify pr" | name where "result = result_of rkMissingOutput (missing_output_message name)" "res_ok (classify pr)"
    by (auto simp: check_outputs_def look_fs_def Let_def split: if_splits list.splits)
  then show ?thesis
  proof cases
    case 1
    with assms(2,3) show ?thesis
      by (auto simp: classify_def result_of_def res_ok_def res_retryable_def split: ProcessOutcome.splits if_splits)
  next
    case 2
    then show ?thesis by (simp add: classify_ok pr_succeeded_def result_of_def res_retryable_def)
  qed
qed

section \<open>Success\<close>

lemma propagate_st:
  assumes E: "env_ok E"
  shows "distinct js \<Longrightarrow> set js \<subseteq> {..<e_size E} \<Longrightarrow>
    st_of (foldl (propagate_one E) s (map (id_at (e_graph E)) js)) =
      (\<lambda>j. if j \<in> set js \<and> rem_of s j \<le> 1 \<and> st_of s j = tsPending \<and> \<not> s_cancelling s then tsReady else st_of s j)"
proof (induction js arbitrary: s)
  case (Cons d js)
  let ?b = "rem_of s d \<le> 1 \<and> st_of s d = tsPending \<and> \<not> s_cancelling s"
  let ?s1 = "propagate_one E s (id_at (e_graph E) d)"
  have d: "d < e_size E" using Cons.prems by simp
  have eq: "?s1 = (if ?b then push_now E d (mark_state E d tsReady (dec_deps d s)) else dec_deps d s)"
    using index_of_id [OF E d] by (simp add: propagate_one_eq rem_of_def st_of_def)
  have p: "st_of ?s1 = (if ?b then (st_of s)(d := tsReady) else st_of s)"
      "rem_of ?s1 = (rem_of s)(d := rem_of s d - 1)" "s_cancelling ?s1 = s_cancelling s"
    unfolding eq by simp_all
  have "st_of (foldl (propagate_one E) ?s1 (map (id_at (e_graph E)) js)) =
      (\<lambda>j. if j \<in> set js \<and> rem_of ?s1 j \<le> 1 \<and> st_of ?s1 j = tsPending \<and> \<not> s_cancelling ?s1 then tsReady
           else st_of ?s1 j)"
    using Cons.prems by (intro Cons.IH) simp_all
  then show ?case using Cons.prems(1) by (auto simp: p fun_eq_iff)
qed simp

lemma finished_running:
  assumes "sched_inv E {} {} {} (kProcessFinished i pr a # evs) s"
  shows "i < e_size E" "st_of s i = tsRunning"
  using owed_finish(2) [of E "st_of s" "s_callbacks s" i pr a "evs @ s_events s" "s_cancelling s" tsFailed]
    inv_parts(11) [OF assms] by (simp_all add: running_def)

text \<open>The tasks that a success of \<open>i\<close> makes ready.\<close>

definition released_by :: "RunEnv \<Rightarrow> Sched \<Rightarrow> nat \<Rightarrow> nat \<Rightarrow> bool" where
  "released_by E s i j \<longleftrightarrow>
     j \<in> succs E i \<and> st_of s j = tsPending \<and> \<not> s_cancelling s \<and>
     (\<forall>p \<in> preds E j. p = i \<or> is_success_like (st_of s p))"

lemma last_dependency:
  assumes E: "env_ok E" and I: "sched_inv E K H {} evs s" and i: "i < e_size E" "\<not> is_success_like (st_of s i)"
    and j: "j \<in> succs E i"
  shows "rem_of s j \<le> 1 \<longleftrightarrow> (\<forall>p \<in> preds E j. p = i \<or> is_success_like (st_of s p))"
proof -
  have jn: "j < e_size E" using succs_range [OF E i(1) j] .
  have "i \<in> unmet E (st_of s) j" using succs_preds [OF E i(1) jn] j i by (simp add: unmet_def)
  moreover have "finite (unmet E (st_of s) j)" by (simp add: unmet_def)
  ultimately have "card (unmet E (st_of s) j) \<le> 1 \<longleftrightarrow> unmet E (st_of s) j = {i}"
    by (metis card_1_singleton_iff card_le_Suc0_iff_eq One_nat_def is_singletonI' le_refl singletonD is_singleton_the_elem card.empty card_insert_disjoint finite.emptyI empty_iff)
  also have "\<dots> \<longleftrightarrow> (\<forall>p \<in> preds E j. p = i \<or> is_success_like (st_of s p))"
    using \<open>i \<in> unmet E (st_of s) j\<close> by (auto simp: unmet_def)
  finally show ?thesis using inv_parts(1) [OF I] jn by (simp add: deps_ok_def)
qed

lemma success_effect:
  assumes E: "env_ok E" and I: "sched_inv E {} {} {} (kProcessFinished i pr a # evs) s"
    and ok: "attempt_ok E i pr (s_tick s)"
  shows "st_of (handle_process_finished E i pr s) =
    (\<lambda>j. if j = i then tsSucceeded else if released_by E s i j then tsReady else st_of s j)"
proof -
  note n = finished_running [OF I]
  obtain result s4 where u: "undo_start E i pr s = (result, s4)" by fastforce
  note U = undo_start_spec [OF I _ u]
  have r: "i \<in> running E (st_of s)" using n by (simp add: running_def)
  have rok: "res_ok result" using ok undo_start_ok [of E i pr s] by (simp add: u)
  let ?s5 = "mark_state E i tsSucceeded s4"
  let ?s6 = "if use_cache E i ?s5 then save_outcome E i ?s5 else ?s5"
  have "s_nodes ?s6 = s_nodes ?s5" "s_cancelling ?s6 = s_cancelling s4" by simp_all
  note p6 = proj_same [OF this(1)]
  have eq: "handle_process_finished E i pr s =
      foldl (propagate_one E) ?s6 (map (id_at (e_graph E)) (g_succ (e_graph E) ! i))"
    using rok by (simp add: handle_process_finished_eq u on_task_succeeded_def dependents_list [OF E n(1)])
  have sub: "set (g_succ (e_graph E) ! i) \<subseteq> {..<e_size E}" using succs_range [OF E n(1)] by (auto simp: succs_def)
  have ne: "j \<noteq> i" if "j \<in> succs E i" for j using that not_self_succ [OF E n(1)] by blast
  have "st_of (handle_process_finished E i pr s) = (\<lambda>j. if j \<in> succs E i \<and> rem_of s j \<le> 1 \<and>
        ((st_of s)(i := tsSucceeded)) j = tsPending \<and> \<not> s_cancelling s then tsReady else ((st_of s)(i := tsSucceeded)) j)"
    unfolding eq propagate_st [OF E distinct_succs [OF E n(1)] sub] p6
    using \<open>s_cancelling ?s6 = s_cancelling s4\<close> by (auto simp: U [OF r] succs_def)
  moreover have "rem_of s j \<le> 1 \<longleftrightarrow> (\<forall>p \<in> preds E j. p = i \<or> is_success_like (st_of s p))" if "j \<in> succs E i" for j
    using last_dependency [OF E I n(1) _ that] n(2) by simp
  ultimately show ?thesis using ne by (auto simp: released_by_def fun_eq_iff)
qed

section \<open>Failure\<close>

lemma skip_one_only:
  assumes E: "env_ok E" and j: "j < e_size E" and eq: "skip_one E (s, stack) (id_at (e_graph E) j) = (s', stack')"
  shows "(\<forall>k. k \<noteq> j \<longrightarrow> st_of s' k = st_of s k) \<and> set stack' \<subseteq> insert j (set stack)"
  using eq index_of_id [OF E j] by (auto simp: skip_one_eq split: if_splits)

lemma foldl_skip_one_only:
  assumes E: "env_ok E"
  shows "set js \<subseteq> {..<e_size E} \<Longrightarrow> foldl (skip_one E) (s, stack) (map (id_at (e_graph E)) js) = (s', stack') \<Longrightarrow>
    (\<forall>k. k \<notin> set js \<longrightarrow> st_of s' k = st_of s k) \<and> set stack' \<subseteq> set js \<union> set stack"
proof (induction js arbitrary: s stack)
  case (Cons j js)
  obtain s1 stack1 where 1: "skip_one E (s, stack) (id_at (e_graph E) j) = (s1, stack1)" by fastforce
  have "j < e_size E" using Cons.prems(1) by simp
  note only = skip_one_only [OF E this 1]
  have "foldl (skip_one E) (s1, stack1) (map (id_at (e_graph E)) js) = (s', stack')" using Cons.prems(2) 1 by simp
  with Cons.IH [of s1 stack1] Cons.prems(1)
  have "(\<forall>k. k \<notin> set js \<longrightarrow> st_of s' k = st_of s1 k) \<and> set stack' \<subseteq> set js \<union> set stack1" by simp
  with only show ?case by auto
qed simp

lemma skip_loop_only:
  "env_ok E \<Longrightarrow> set stack \<subseteq> {..<e_size E} \<Longrightarrow> \<forall>c \<in> set stack. (c, k) \<notin> (edges E)\<^sup>+ \<Longrightarrow>
    st_of (skip_loop E s stack) k = st_of s k"
proof (induction E s stack rule: skip_loop.induct)
  case (2 E s cur stack)
  have cur: "cur < e_size E" using "2.prems"(2) by simp
  let ?js = "g_succ (e_graph E) ! cur"
  have js: "j \<in> set ?js \<Longrightarrow> (cur, j) \<in> edges E" "set ?js \<subseteq> {..<e_size E}" for j
    using edges_succs [OF "2.prems"(1), of cur j] succs_range [OF "2.prems"(1) cur] cur by (auto simp: succs_def)
  obtain s' stack' where f: "foldl (skip_one E) (s, stack) (map (id_at (e_graph E)) ?js) = (s', stack')" by fastforce
  note only = foldl_skip_one_only [OF "2.prems"(1) js(2) f]
  have loop: "skip_loop E s (cur # stack) = skip_loop E s' stack'"
    using f by (simp add: skip_loop.simps(2) dependents_list [OF "2.prems"(1) cur])
  have "set stack' \<subseteq> {..<e_size E}" using only js(2) "2.prems"(2) by auto
  moreover have "\<forall>c \<in> set stack'. (c, k) \<notin> (edges E)\<^sup>+"
  proof
    fix c assume "c \<in> set stack'"
    then have "(cur, c) \<in> edges E \<or> c \<in> set stack" using only js(1) by blast
    then show "(c, k) \<notin> (edges E)\<^sup>+" using "2.prems"(3) by (auto intro: trancl_into_trancl2)
  qed
  ultimately have "st_of (skip_loop E s' stack') k = st_of s' k"
    using "2.IH" [of "(s', stack')" s' stack'] "2.prems"(1) f by (simp add: dependents_list [OF "2.prems"(1) cur])
  moreover have "k \<notin> set ?js" using "2.prems"(3) js(1) by auto
  then have "st_of s' k = st_of s k" using only by blast
  ultimately show ?case using loop by simp
qed simp

lemma descendants_skipped:
  assumes E: "env_ok E" and sk: "skip_ok E {} st" and i: "i < e_size E" "dead (st i)" and d: "(i, j) \<in> (edges E)\<^sup>+"
  shows "st j = tsSkipped"
  using d
proof (induction rule: trancl_induct)
  case (base j)
  then show ?case using sk i edges_succs [OF E] by (auto simp: skip_ok_def)
next
  case (step j k)
  then show ?case using sk edges_succs [OF E] by (auto simp: skip_ok_def)
qed

lemma failure_effect:
  assumes E: "env_ok E" and I: "sched_inv E {} {} {} (kProcessFinished i pr a # evs) s"
    and bad: "\<not> attempt_ok E i pr (s_tick s)" and nc: "\<not> s_cancelling s"
    and last: "\<not> attempt_again E i pr (att_of s i)"
  shows "st_of (handle_process_finished E i pr s) =
    (\<lambda>j. if j = i then tsFailed else if (i, j) \<in> (edges E)\<^sup>+ then tsSkipped else st_of s j)"
proof -
  note n = finished_running [OF I]
  have r: "i \<in> running E (st_of s)" using n by (simp add: running_def)
  obtain result s4 where u: "undo_start E i pr s = (result, s4)" by fastforce
  note U = undo_start_spec [OF I r u]
  have rok: "\<not> res_ok result" using bad undo_start_ok [of E i pr s] by (simp add: u)
  have oc: "pr_outcome pr \<noteq> poCancelled" using inv_parts(11) [OF I] nc by (auto simp: owed_ok_def)
  have kind: "res_kind result \<noteq> rkCancelled" using undo_start_cancelled [OF u] oc by blast
  have rt: "\<not> (res_retryable result \<and> should_retry (td_retry (task_of E i)) (att_of s i))"
    using undo_start_retryable [OF u rok oc] last by (simp add: attempt_again_def)
  have att4: "ns_attempts_made (s_nodes s4 i) = att_of s i" using U(4) by (metis att_of_def)
  let ?s5 = "mark_state E i tsFailed s4"
  have eq: "handle_process_finished E i pr s = skip_loop E ?s5 [i]"
    using rok kind nc rt
    by (auto simp: handle_process_finished_eq u U on_task_failed_def Let_def att4 skip_downstream_def)
  note Q = inv_parts [OF handle_process_finished_inv [OF E I]]
  have other: "st_of (handle_process_finished E i pr s) j = ((st_of s)(i := tsFailed)) j" if "(i, j) \<notin> (edges E)\<^sup>+" for j
    unfolding eq using skip_loop_only [OF E, of "[i]" j ?s5] that n(1) by (simp add: U)
  have ii: "(i, i) \<notin> (edges E)\<^sup>+" using edges_acyclic [OF E] by (simp add: acyclic_def)
  then have f: "st_of (handle_process_finished E i pr s) i = tsFailed" using other by simp
  have "st_of (handle_process_finished E i pr s) j = tsSkipped" if "(i, j) \<in> (edges E)\<^sup>+" for j
    using descendants_skipped [OF E Q(5) n(1) _ that] f by simp
  with other f ii show ?thesis by (auto simp: fun_eq_iff)
qed

section \<open>Retry\<close>

lemma promote_one_st: "st_of (promote_one E t s i) = st_of s" "att_of (promote_one E t s i) = att_of s"
  "ns_retry_not_before (s_nodes (promote_one E t s i) k) = ns_retry_not_before (s_nodes s k)"
  by (auto simp: promote_one_def push_ready_def proj_defs fun_eq_iff)

lemma promote_backoff_st:
  "st_of (promote_backoff_ready E s) = st_of s" "att_of (promote_backoff_ready E s) = att_of s"
  "ns_retry_not_before (s_nodes (promote_backoff_ready E s) k) = ns_retry_not_before (s_nodes s k)"
proof -
  have "st_of (foldl (promote_one E t) s xs) = st_of s \<and> att_of (foldl (promote_one E t) s xs) = att_of s \<and>
    ns_retry_not_before (s_nodes (foldl (promote_one E t) s xs) k) = ns_retry_not_before (s_nodes s k)" for t s xs
    by (induction xs arbitrary: s) (simp_all add: promote_one_st)
  moreover have "st_of (s\<lparr>s_tick := t\<rparr>) = st_of s" "att_of (s\<lparr>s_tick := t\<rparr>) = att_of s" for t
    by (simp_all add: proj_defs fun_eq_iff)
  ultimately show "st_of (promote_backoff_ready E s) = st_of s" "att_of (promote_backoff_ready E s) = att_of s"
    "ns_retry_not_before (s_nodes (promote_backoff_ready E s) k) = ns_retry_not_before (s_nodes s k)"
    by (simp_all add: promote_backoff_ready_def now_def)
qed

lemma retry_effect:
  assumes E: "env_ok E" and I: "sched_inv E {} {} {} (kProcessFinished i pr a # evs) s"
    and bad: "\<not> attempt_ok E i pr (s_tick s)" and nc: "\<not> s_cancelling s"
    and again: "attempt_again E i pr (att_of s i)"
  defines "s' \<equiv> handle_process_finished E i pr s"
  shows "st_of s' = (st_of s)(i := tsReady)" "att_of s' = att_of s"
    "\<exists>t. ns_retry_not_before (s_nodes s' i) =
       e_now E t + delay_before (td_retry (task_of E i)) (att_of s i + 1) * ticks_per_ms"
proof -
  note n = finished_running [OF I]
  have r: "i \<in> running E (st_of s)" using n by (simp add: running_def)
  obtain result s4 where u: "undo_start E i pr s = (result, s4)" by fastforce
  note U = undo_start_spec [OF I r u]
  have rok: "\<not> res_ok result" using bad undo_start_ok [of E i pr s] by (simp add: u)
  have oc: "pr_outcome pr \<noteq> poCancelled" using inv_parts(11) [OF I] nc by (auto simp: owed_ok_def)
  have kind: "res_kind result \<noteq> rkCancelled" using undo_start_cancelled [OF u] oc by blast
  have rt: "res_retryable result" "should_retry (td_retry (task_of E i)) (att_of s i)"
    using undo_start_retryable [OF u rok oc] again by (simp_all add: attempt_again_def)
  have att4: "ns_attempts_made (s_nodes s4 i) = att_of s i" using U(4) by (metis att_of_def)
  let ?t = "s_tick s4"
  let ?s5 = "set_node i (\<lambda>ns. ns\<lparr>
       ns_retry_not_before := e_now E ?t + delay_before (td_retry (task_of E i)) (att_of s i + 1) * ticks_per_ms,
       ns_waiting_for_retry := True\<rparr>) (s4\<lparr>s_tick := Suc ?t\<rparr>)"
  have eq: "s' = promote_backoff_ready E (mark_state E i tsReady ?s5)"
    using rok kind nc rt unfolding s'_def
    by (simp add: handle_process_finished_eq u U on_task_failed_def Let_def att4 now_def)
  have p: "st_of ?s5 = st_of s4" "att_of ?s5 = att_of s4" by (rule ext, simp add: proj_defs)+
  show "st_of s' = (st_of s)(i := tsReady)" "att_of s' = att_of s"
    unfolding eq promote_backoff_st by (simp_all only: mark_state_proj p U)
  show "\<exists>t. ns_retry_not_before (s_nodes s' i) =
       e_now E t + delay_before (td_retry (task_of E i)) (att_of s i + 1) * ticks_per_ms"
    unfolding eq promote_backoff_st by (intro exI [of _ ?t]) simp
qed

section \<open>Returning\<close>

lemma run_end_flags:
  "s_cancelling (run_end E s) = s_cancelling s" "s_cancel_requested (run_end E s) = s_cancel_requested s"
  using drain_log_run [of E "s\<lparr>s_events := []\<rparr>" "s_events s"]
  by (simp_all add: run_end_def Let_def now_def notify_def)

text \<open>While the scheduler waits, some process is running, its exit is queued, or a retry is due.\<close>

lemma waiting_has_cause:
  assumes E: "env_ok E" and r: "reachable E cache (pcWait, s)"
  shows "(\<exists>i < e_size E. st_of s i = tsRunning) \<or> (\<exists>i < e_size E. wait_of s i)"
proof -
  have I: "sched_inv E {} {} {} [] s" using reachable_inv [OF E r] by simp
  have w: "waits_ok E s" using reachable_waits [OF E r] by simp
  show ?thesis
  proof (cases "s_running_count s = 0")
    case True
    with w have "s_ready s \<noteq> [] \<or> (\<exists>i < e_size E. wait_of s i)"
      by (auto simp: waits_ok_def all_settled_def wait_of_def)
    with w True show ?thesis by (auto simp: waits_ok_def)
  next
    case False
    then have "running E (st_of s) \<noteq> {}" using inv_parts(7) [OF I] by (auto simp: run_ok_def)
    then show ?thesis by (auto simp: running_def)
  qed
qed

section \<open>The reported state\<close>

lemma returned_final_state:
  assumes E: "env_ok E" and r: "reachable E cache (pcReturned, s)"
  shows "run_state (s_run s) =
    (if s_cancelling s \<or> s_cancel_requested s then psCancelled
     else if \<forall>tr \<in> snd ` set (run_task_runs (s_run s)). is_success_like (tr_state tr) then psSucceeded else psFailed)"
proof -
  obtain s0 where s0: "sched_inv E {} {} {} [] s0" "all_settled E s0" "s = run_end E s0"
    using returned_state [OF E r] .
  have m: "mirror_ok E (st_of s0) (run_task_runs (s_run s))" using inv_parts(12) [OF s0(1)] by (simp add: s0(3) run_end_sel)
  have "(\<forall>tr \<in> snd ` set (run_task_runs (s_run s)). is_success_like (tr_state tr)) \<longleftrightarrow>
      (\<forall>i < e_size E. is_success_like (st_of s0 i))"
  proof
    assume a: "\<forall>tr \<in> snd ` set (run_task_runs (s_run s)). is_success_like (tr_state tr)"
    show "\<forall>i < e_size E. is_success_like (st_of s0 i)"
    proof (intro allI impI)
      fix i assume "i < e_size E"
      then obtain tr where "(id_at (e_graph E) i, tr) \<in> set (run_task_runs (s_run s))" "tr_state tr = st_of s0 i"
        using mirror_node [OF m] by metis
      with a show "is_success_like (st_of s0 i)" by force
    qed
  next
    assume a: "\<forall>i < e_size E. is_success_like (st_of s0 i)"
    show "\<forall>tr \<in> snd ` set (run_task_runs (s_run s)). is_success_like (tr_state tr)"
    proof
      fix tr assume "tr \<in> snd ` set (run_task_runs (s_run s))"
      then obtain v where "(v, tr) \<in> set (run_task_runs (s_run s))" by auto
      from mirror_entry [OF m this] a show "is_success_like (tr_state tr)" by metis
    qed
  qed
  then show ?thesis
    using final_state_settled [OF E s0(1,2)] unfolding s0(3) by (simp add: run_end_sel run_end_flags)
qed

end
