(* ===== verification/Sample_Run.thy ===== *)
theory Sample_Run
  imports Scheduler_Effects
begin

text \<open>
  A concrete run used to instantiate the theorems about reachable states: the pipeline
  \<open>a \<rightarrow> b\<close> of two one-core tasks on a machine with four cores, no cache, an empty file system,
  a clock that ticks once per reading and a runner that hands out the next tick as the
  handle. Three runs are computed and shown reachable: one whose first task is running, one
  whose first task fails because an input it declares does not exist, and one that is
  cancelled before its first task starts.
\<close>

definition sample_task :: "string \<Rightarrow> ArtifactDecl list \<Rightarrow> TaskDefinition" where
  "sample_task v ins =
     \<lparr>td_id = v, td_name = v, td_type = ttExecutable, td_program = ''/bin/'' @ v, td_script = [],
      td_arguments = [], td_environment = [], td_working_directory = [], td_inputs = ins,
      td_outputs = [], td_retry = RetryPolicy_none\<lparr>max_retries := 2\<rparr>,
      td_resources = single_core, td_timeout = None,
      td_priority = 0, td_cache_enabled = False\<rparr>"

definition sample_pipeline :: "ArtifactDecl list \<Rightarrow> PipelineDefinition" where
  "sample_pipeline ins =
     \<lparr>pd_schema_version = 1, pd_name = ''sample'', pd_description = [], pd_base_directory = ''/w'',
      pd_tasks = [sample_task ''a'' ins, sample_task ''b'' []],
      pd_edges = [\<lparr>edge_from = ''a'', edge_to = ''b''\<rparr>], pd_max_concurrency = 2\<rparr>"

definition sample_graph :: Dag where
  "sample_graph = the (br_dag (build [''a'', ''b''] [(''a'', ''b'')]))"

definition sample_env :: "ArtifactDecl list \<Rightarrow> RunEnv" where
  "sample_env ins =
     \<lparr>e_pipeline = sample_pipeline ins, e_graph = sample_graph,
      e_config = \<lparr>cfg_max_concurrency = 2,
        cfg_resource_capacity = \<lparr>total_cpu_cores = 4, total_memory_mb = 1024, total_gpu_count = 0\<rparr>,
        cfg_verify_outputs = True, cfg_force_checksums = False\<rparr>,
      e_has_cache = False, e_prefer = default_prefer,
      e_codec = \<lparr>dump = (\<lambda>_. []), parse = (\<lambda>_. None)\<rparr>,
      e_now = (\<lambda>k. int k), e_fs = (\<lambda>_ _. None), e_launch = (\<lambda>k. Suc k)\<rparr>"

definition sample_cache :: CacheStore where
  "sample_cache = \<lparr>cs_repo = [], cs_enabled = False\<rparr>"

definition absent_input :: "ArtifactDecl list" where
  "absent_input = [\<lparr>decl_name = ''raw'', decl_path = ''raw.csv'', decl_checksum = False\<rparr>]"

definition sample_new :: "ArtifactDecl list \<Rightarrow> Sched" where
  "sample_new ins = projr (Scheduler_new (sample_env ins) sample_cache)"

definition sample_begun :: "ArtifactDecl list \<Rightarrow> Sched" where
  "sample_begun ins = projr (run_begin (sample_env ins) (sample_new ins))"

definition sample_running :: Sched where
  "sample_running = loop_top (sample_env []) (sample_begun [])"

definition exited :: "int \<Rightarrow> ProcessResult" where
  "exited code = ProcessResult_default\<lparr>pr_outcome := poExited, pr_exit_code := code, pr_pid := Some 7\<rparr>"

definition sample_exit :: "ProcessResult \<Rightarrow> Sched" where
  "sample_exit pr = deliver_exit (8, 0, 1) pr sample_running"

text \<open>The state in which the event loop meets that exit, and the state after the batch.\<close>

definition sample_taken :: "ProcessResult \<Rightarrow> Sched" where
  "sample_taken pr = (sample_exit pr)\<lparr>s_events := []\<rparr>"

definition sample_handled :: "ProcessResult \<Rightarrow> Sched" where
  "sample_handled pr = process_batch (sample_env []) (sample_exit pr)"

definition sample_failed :: Sched where
  "sample_failed = loop_top (sample_env absent_input) (sample_begun absent_input)"

definition sample_cancelled :: Sched where
  "sample_cancelled = loop_top (sample_env []) (cancel (sample_begun []))"

section \<open>The environment is one the scheduler accepts\<close>

lemma sample_graph_eq [code]:
  "sample_graph =
     \<lparr>g_index = [(''a'', 0), (''b'', 1)], g_nodes = [''a'', ''b''], g_succ = [[1], []], g_pred = [[], [0]],
      g_in_degree = [0, 1], g_roots = [''a''], g_leaves = [''b''], g_topo_order = [''a'', ''b''],
      g_pred_ids = [[], [''a'']], g_succ_ids = [[''b''], []]\<rparr>"
  by (simp add: sample_graph_def build_def add_edges_def add_edge_def edge_key_def find_cycle_def succ_at_def
      dfs_loop.simps(2) assemble_def kahn_def Let_def)

lemma sample_graph_built: "br_dag (build [''a'', ''b''] [(''a'', ''b'')]) = Some sample_graph"
  by (simp add: sample_graph_def build_def add_edges_def add_edge_def edge_key_def find_cycle_def succ_at_def
      dfs_loop.simps(2) Let_def)

lemma sample_env_ok: "env_ok (sample_env ins)"
  unfolding env_ok_def
proof (intro conjI)
  show "dag_wf (e_graph (sample_env ins))" using build_wf(1) [OF sample_graph_built] by (simp add: sample_env_def)
qed (simp_all add: sample_env_def sample_graph_eq sample_pipeline_def sample_task_def find_task_def
      kInvalidHandle_def single_core_def)

lemma sample_size [simp]: "e_size (sample_env ins) = 2"
  by (simp add: e_size_def dag_size_def sample_env_def sample_graph_eq)

section \<open>Reachable states\<close>

lemma sample_begun_reachable: "reachable (sample_env ins) sample_cache (pcTop, sample_begun ins)"
proof (rule reach_init)
  show n: "Scheduler_new (sample_env ins) sample_cache = Inr (sample_new ins)"
    by (simp add: sample_new_def Scheduler_new_def sample_env_def sample_graph_eq sample_pipeline_def
        sample_task_def find_task_def)
  have "\<not> s_started (sample_new ins)" using new_fresh(2) [OF sample_env_ok n] .
  then show "run_begin (sample_env ins) (sample_new ins) = Inr (sample_begun ins)"
    by (simp add: sample_begun_def run_begin_def Let_def now_def)
qed

text \<open>Each run is computed once, for everything that is read off it.\<close>

lemma sample_running_eval:
  "(let s = sample_running in
     (s_threw s, all_settled (sample_env []) s, st_of s 0, st_of s 1, s_callbacks s, s_events s, s_cancelling s,
      ns_attempts_made (s_nodes s 0))) =
   (False, False, tsRunning, tsPending, [(8, 0, 1)], [], False, 1)"
  by code_simp

lemma sample_failed_eval:
  "(let s = sample_failed in
     (s_threw s, all_settled (sample_env absent_input) s, st_of s 0, st_of s 1,
      \<exists>n \<in> set (s_notices s). (case n of on_task_state_changed tr prev \<Rightarrow> prev = tsReady | _ \<Rightarrow> False))) =
   (False, True, tsFailed, tsSkipped, True)"
  by code_simp

lemma sample_cancelled_eval:
  "(let s = sample_cancelled in
     (s_threw s, all_settled (sample_env []) s, st_of s 0, st_of s 1, s_cancel_requested s)) =
   (False, True, tsCancelled, tsCancelled, True)"
  by code_simp

lemmas sample_evals =
  sample_running_eval [unfolded Let_def prod.inject] sample_failed_eval [unfolded Let_def prod.inject]
  sample_cancelled_eval [unfolded Let_def prod.inject]

lemma sample_running_reachable: "reachable (sample_env []) sample_cache (pcWait, sample_running)"
  using sample_evals unfolding sample_running_def
  by (blast intro: reach_step [OF sample_begun_reachable] step_wait)

lemma sample_failed_reachable: "reachable (sample_env absent_input) sample_cache (pcSettled, sample_failed)"
  using sample_evals unfolding sample_failed_def
  by (blast intro: reach_step [OF sample_begun_reachable] step_settle)

lemma sample_cancelled_reachable: "reachable (sample_env []) sample_cache (pcSettled, sample_cancelled)"
proof -
  have "reachable (sample_env []) sample_cache (pcTop, cancel (sample_begun []))"
    by (rule reach_step [OF sample_begun_reachable step_cancel]) simp
  then show ?thesis using sample_evals unfolding sample_cancelled_def by (blast intro: reach_step step_settle)
qed

lemma sample_failed_returned:
  "reachable (sample_env absent_input) sample_cache (pcReturned, run_end (sample_env absent_input) sample_failed)"
  by (rule reach_step [OF sample_failed_reachable step_return])

lemma sample_cancelled_returned:
  "reachable (sample_env []) sample_cache (pcReturned, run_end (sample_env []) sample_cancelled)"
  by (rule reach_step [OF sample_cancelled_reachable step_return])

section \<open>What is observed there\<close>

lemma sample_states:
  "st_of sample_running 0 = tsRunning" "st_of sample_running 1 = tsPending"
  "st_of sample_failed 0 = tsFailed" "st_of sample_failed 1 = tsSkipped"
  "st_of sample_cancelled 0 = tsCancelled" "st_of sample_cancelled 1 = tsCancelled"
  using sample_evals by blast+

lemma sample_facts:
  "s_callbacks sample_running = [(8, 0, 1)]" "s_events sample_running = []" "\<not> s_cancelling sample_running"
  "ns_attempts_made (s_nodes sample_running 0) = 1"
  using sample_evals by blast+

lemma sample_notice: "\<exists>tr. on_task_state_changed tr tsReady \<in> set (s_notices sample_failed)"
proof -
  obtain n where n: "n \<in> set (s_notices sample_failed)"
    "case n of on_task_state_changed tr prev \<Rightarrow> prev = tsReady | _ \<Rightarrow> False" using sample_evals by blast
  show ?thesis using n by - (cases n, auto)
qed

lemma sample_graph_facts:
  "preds (sample_env ins) 0 = {}" "preds (sample_env ins) 1 = {0}" "preds (sample_env ins) (Suc 0) = {0}"
  "succs (sample_env ins) 0 = {1}" "succs (sample_env ins) 1 = {}"
  "td_retry (task_of (sample_env ins) 0) = RetryPolicy_none\<lparr>max_retries := 2\<rparr>"
  "td_outputs (task_of (sample_env ins) 0) = []"
  by (simp_all add: preds_def succs_def sample_env_def sample_graph_eq task_of_def find_task_def id_at_def
      sample_pipeline_def sample_task_def)

lemma sample_cancelled_requested: "s_cancel_requested sample_cancelled"
  using sample_evals by blast

section \<open>The first task exits\<close>

lemma sample_exit_reachable:
  assumes "pr_outcome pr \<noteq> poCancelled"
  shows "reachable (sample_env []) sample_cache (pcWait, sample_exit pr)"
  unfolding sample_exit_def using assms
  by (intro reach_step [OF sample_running_reachable] step_exit) (simp_all add: sample_facts exit_allowed_def)

lemma sample_handled_reachable:
  assumes "pr_outcome pr \<noteq> poCancelled"
  shows "reachable (sample_env []) sample_cache (pcTop, sample_handled pr)"
  unfolding sample_handled_def
  by (intro reach_step [OF sample_exit_reachable [OF assms]] step_wake)
    (simp add: may_wake_def sample_exit_def deliver_exit_def push_event_def)

lemma sample_taken_nodes: "s_nodes (sample_taken pr) = s_nodes sample_running" "\<not> s_cancelling (sample_taken pr)"
  by (simp_all add: sample_taken_def sample_exit_def deliver_exit_def push_event_def sample_facts)

lemma sample_taken_inv:
  assumes "pr_outcome pr \<noteq> poCancelled"
  shows "sched_inv (sample_env []) {} {} {} [kProcessFinished 0 pr 1] (sample_taken pr)"
proof -
  have "sched_inv (sample_env []) {} {} {} [] (sample_exit pr)"
    using reachable_inv [OF sample_env_ok sample_exit_reachable [OF assms]] by simp
  moreover have "s_events (sample_exit pr) = [kProcessFinished 0 pr 1]"
    by (simp add: sample_exit_def deliver_exit_def push_event_def sample_facts)
  moreover have "s_nodes (sample_taken pr) = s_nodes (sample_exit pr)" by (simp add: sample_taken_def)
  note proj_same [OF this]
  ultimately show ?thesis unfolding sched_inv_def by (simp add: sample_taken_def)
qed

lemma sample_handled_eq:
  "sample_handled pr = promote_backoff_ready (sample_env []) (handle_process_finished (sample_env []) 0 pr (sample_taken pr))"
  by (simp add: sample_handled_def process_batch_def sample_taken_def)
    (simp add: sample_exit_def deliver_exit_def push_event_def sample_facts)

lemma sample_success:
  "st_of (sample_handled (exited 0)) 0 = tsSucceeded" "st_of (sample_handled (exited 0)) 1 = tsReady"
proof -
  let ?E = "sample_env []" and ?pr = "exited 0"
  have ok: "attempt_ok ?E 0 ?pr t" for t
    by (simp add: attempt_ok_def exited_def pr_succeeded_def missing_outputs_def missing_decls_def sample_graph_facts)
  have "sched_inv ?E {} {} {} [kProcessFinished 0 ?pr 1] (sample_taken ?pr)"
    by (rule sample_taken_inv) (simp add: exited_def)
  note e = success_effect [OF sample_env_ok this ok]
  have "released_by ?E (sample_taken ?pr) 0 1"
    using sample_states(2) sample_taken_nodes [of ?pr]
    by (simp add: released_by_def sample_graph_facts st_of_def)
  then show "st_of (sample_handled ?pr) 0 = tsSucceeded" "st_of (sample_handled ?pr) 1 = tsReady"
    unfolding sample_handled_eq promote_backoff_st e by simp_all
qed

section \<open>A machine that is too small\<close>

definition tiny_env :: RunEnv where
  "tiny_env = (sample_env [])\<lparr>e_config := (e_config (sample_env []))\<lparr>
     cfg_resource_capacity := \<lparr>total_cpu_cores = 0, total_memory_mb = 0, total_gpu_count = 0\<rparr>\<rparr>\<rparr>"

definition tiny_begun :: Sched where
  "tiny_begun = projr (run_begin tiny_env (projr (Scheduler_new tiny_env sample_cache)))"

lemma tiny_env_ok: "env_ok tiny_env"
  using sample_env_ok [of "[]"] by (simp add: env_ok_def tiny_env_def)

lemma tiny_inv: "sched_inv tiny_env {} {} {} [] tiny_begun"
proof (rule run_begin_inv [OF tiny_env_ok])
  show n: "Scheduler_new tiny_env sample_cache = Inr (projr (Scheduler_new tiny_env sample_cache))"
    by (simp add: Scheduler_new_def tiny_env_def sample_env_def sample_graph_eq sample_pipeline_def
        sample_task_def find_task_def)
  show "run_begin tiny_env (projr (Scheduler_new tiny_env sample_cache)) = Inr tiny_begun"
    using new_fresh(2) [OF tiny_env_ok n] by (simp add: tiny_begun_def run_begin_def Let_def now_def)
qed

lemma tiny_eval:
  "(let s = launch_loop tiny_env tiny_begun in
     (s_cancelling tiny_begun, s_threw s, s_running_count s, map re_node (s_ready s))) = (False, False, 0, [0])"
  by code_simp

lemma tiny_facts:
  "\<not> s_cancelling tiny_begun" "\<not> s_threw (launch_loop tiny_env tiny_begun)"
  "s_running_count (launch_loop tiny_env tiny_begun) = 0"
  "map re_node (s_ready (launch_loop tiny_env tiny_begun)) = [0]"
  using tiny_eval [unfolded Let_def prod.inject] by blast+

lemma tiny_task: "td_resources (task_of tiny_env 0) = single_core"
  by (simp add: tiny_env_def sample_env_def sample_graph_eq task_of_def find_task_def id_at_def
      sample_pipeline_def sample_task_def)

end
