(* ===== verification/Process_Runner.thy ===== *)
theory Process_Runner
  imports Process_Spec
begin

text \<open>
  The reactor of \<^verbatim>\<open>src/src/core/process/posix_process_runner.cpp\<close>: the command queue that
  other threads append to, the children the reactor thread owns, and one definition per member
  function. What the operating system answers (spawning, the clock, \<^verbatim>\<open>read\<close>, \<^verbatim>\<open>waitpid\<close>,
  \<^verbatim>\<open>poll\<close>) is an argument, indexed by a tick that every question advances. Calls of the
  callbacks, signals sent and programs executed are recorded in order. Every caller sets
  \<^verbatim>\<open>on_exit\<close>; the two output callbacks may be absent.
\<close>

section \<open>What the operating system answers\<close>

datatype SpawnAnswer =
    spPipeFailed string   \<comment> \<open>\<^verbatim>\<open>strerror\<close> text\<close>
  | spForkFailed string
  | spExecFailed string   \<comment> \<open>\<^verbatim>\<open>chdir\<close> or \<^verbatim>\<open>execvp\<close> failed in the child\<close>
  | spStarted int         \<comment> \<open>the pid\<close>

datatype ReadAnswer = rdData string | rdEof | rdAgain | rdIntr | rdError

datatype WaitStatus = wExited int | wSignalled int | wOther

record Os =
  os_environ :: "string list"
  os_spawn :: "nat \<Rightarrow> SpawnAnswer"
  os_now :: "nat \<Rightarrow> TimePoint"
  os_read :: "nat \<Rightarrow> ReadAnswer list"   \<comment> \<open>the answers to the \<^verbatim>\<open>read\<close>s of one \<^verbatim>\<open>drain_fd\<close>; then it would block\<close>
  os_wait :: "nat \<Rightarrow> WaitStatus option"   \<comment> \<open>\<^verbatim>\<open>waitpid(..., WNOHANG)\<close>: a status if the child has ended\<close>
  os_poll :: "nat \<Rightarrow> ProcessHandle \<times> bool \<Rightarrow> bool"   \<comment> \<open>descriptors \<^verbatim>\<open>poll\<close> reports (stdout: \<^term>\<open>True\<close>)\<close>

definition SIGTERM :: int where "SIGTERM = 15"
definition SIGKILL :: int where "SIGKILL = 9"

section \<open>State\<close>

record ProcessCallbacks =
  cb_on_stdout :: bool
  cb_on_stderr :: bool

datatype Command =
    kLaunch ProcessHandle ProcessSpec ProcessCallbacks
  | kTerminate ProcessHandle bool
  | kShutdown

record Child =
  ch_pid :: int
  ch_stdout_open :: bool   \<comment> \<open>\<^verbatim>\<open>stdout_fd >= 0\<close>\<close>
  ch_stderr_open :: bool
  ch_stdout_partial :: string
  ch_stderr_partial :: string
  ch_start :: TimePoint
  ch_deadline :: "TimePoint option"
  ch_exited :: bool
  ch_wait_status :: WaitStatus
  ch_pipes_closed_at :: "TimePoint option"
  ch_term_stage :: nat
  ch_term_sent_at :: TimePoint
  ch_forced_outcome :: ProcessOutcome
  ch_forced :: bool
  ch_callbacks :: ProcessCallbacks

datatype RunnerOut =
    exec_call ProcessHandle string "string list" "string list" string
  | on_line ProcessHandle bool string
  | on_exit ProcessHandle ProcessResult
  | kill_call int int

record Runner =
  r_terminate_grace :: Millis
  r_queue :: "Command list"
  r_children :: "(ProcessHandle \<times> Child) list"
  r_shutting_down :: bool
  r_next_handle :: ProcessHandle
  r_active :: nat
  r_running :: bool
  r_tick :: nat
  r_out :: "RunnerOut list"

definition Runner_new :: "Millis \<Rightarrow> Runner" where
  "Runner_new grace =
     \<lparr>r_terminate_grace = grace, r_queue = [], r_children = [], r_shutting_down = False,
      r_next_handle = 1, r_active = 0, r_running = True, r_tick = 0, r_out = []\<rparr>"

definition emit :: "RunnerOut list \<Rightarrow> Runner \<Rightarrow> Runner" where
  "emit os r = r\<lparr>r_out := r_out r @ os\<rparr>"

definition tick :: "Runner \<Rightarrow> Runner" where
  "tick r = r\<lparr>r_tick := Suc (r_tick r)\<rparr>"

definition child :: "Runner \<Rightarrow> ProcessHandle \<Rightarrow> Child option" where
  "child r h = map_of (r_children r) h"

definition upd_child :: "ProcessHandle \<Rightarrow> (Child \<Rightarrow> Child) \<Rightarrow> Runner \<Rightarrow> Runner" where
  "upd_child h f r = r\<lparr>r_children := map_modify h f (r_children r)\<rparr>"

section \<open>Requests from other threads\<close>

definition launch :: "ProcessSpec \<Rightarrow> ProcessCallbacks \<Rightarrow> Runner \<Rightarrow> ProcessHandle \<times> Runner" where
  "launch spec cbs r =
     (if \<not> r_running r then (kInvalidHandle, r)
      else (r_next_handle r,
            r\<lparr>r_next_handle := r_next_handle r + 1, r_active := r_active r + 1,
              r_queue := r_queue r @ [kLaunch (r_next_handle r) spec cbs]\<rparr>))"

definition request_terminate :: "ProcessHandle \<Rightarrow> bool \<Rightarrow> Runner \<Rightarrow> Runner" where
  "request_terminate h as_cancellation r = r\<lparr>r_queue := r_queue r @ [kTerminate h as_cancellation]\<rparr>"

definition request_shutdown :: "Runner \<Rightarrow> Runner" where
  "request_shutdown r = r\<lparr>r_queue := r_queue r @ [kShutdown]\<rparr>"

definition active_count :: "Runner \<Rightarrow> nat" where
  "active_count r = r_active r"

section \<open>Output lines\<close>

definition newline :: char where "newline = CHR 0x0A"
definition kMaxPartialLine :: nat where "kMaxPartialLine = 1 * 1024 * 1024"

definition strip_cr :: "string \<Rightarrow> string" where
  "strip_cr l = (if l \<noteq> [] \<and> last l = CHR 0x0D then butlast l else l)"

text \<open>The loop of \<^verbatim>\<open>emit_lines\<close>: the complete lines, and what follows the last line break.\<close>

function lines_from :: "string \<Rightarrow> string list \<times> string" where
  "lines_from buf =
     (case find_char newline buf of
        None \<Rightarrow> ([], buf)
      | Some nl \<Rightarrow> (let (ls, rest) = lines_from (drop (Suc nl) buf) in (strip_cr (take nl buf) # ls, rest)))"
  by pat_completeness auto
termination
  by (relation "measure length") (auto simp: find_char_Some)

declare lines_from.simps [simp del]

definition emit_lines :: "string \<Rightarrow> string \<Rightarrow> string list \<times> string" where
  "emit_lines partial chunk =
     (let (ls, rest) = lines_from (partial @ chunk)
      in if kMaxPartialLine < length rest then (ls @ [rest], []) else (ls, rest))"

text \<open>
  \<^verbatim>\<open>drain_fd\<close> on the answers of its reads: the lines delivered, whether the descriptor is
  still open, and the new partial line.
\<close>

fun drain_fd :: "string \<Rightarrow> ReadAnswer list \<Rightarrow> string list \<times> bool \<times> string" where
  "drain_fd partial [] = ([], True, partial)"
| "drain_fd partial (rdData buf # as) =
     (let (ls, partial1) = emit_lines partial buf;
          (ls', still_open, partial2) = drain_fd partial1 as
      in (ls @ ls', still_open, partial2))"
| "drain_fd partial (rdEof # as) = (if partial \<noteq> [] then [partial] else [], False, [])"
| "drain_fd partial (rdAgain # as) = ([], True, partial)"
| "drain_fd partial (rdIntr # as) = drain_fd partial as"
| "drain_fd partial (rdError # as) = ([], False, partial)"

definition drain_stdout :: "Os \<Rightarrow> ProcessHandle \<Rightarrow> Child \<Rightarrow> Runner \<Rightarrow> Runner" where
  "drain_stdout os h c r =
     (let (ls, still_open, partial) = drain_fd (ch_stdout_partial c) (os_read os (r_tick r));
          r1 = upd_child h (\<lambda>c. c\<lparr>ch_stdout_open := still_open, ch_stdout_partial := partial\<rparr>) (tick r)
      in if cb_on_stdout (ch_callbacks c) then emit (map (on_line h True) ls) r1 else r1)"

definition drain_stderr :: "Os \<Rightarrow> ProcessHandle \<Rightarrow> Child \<Rightarrow> Runner \<Rightarrow> Runner" where
  "drain_stderr os h c r =
     (let (ls, still_open, partial) = drain_fd (ch_stderr_partial c) (os_read os (r_tick r));
          r1 = upd_child h (\<lambda>c. c\<lparr>ch_stderr_open := still_open, ch_stderr_partial := partial\<rparr>) (tick r)
      in if cb_on_stderr (ch_callbacks c) then emit (map (on_line h False) ls) r1 else r1)"

section \<open>Commands\<close>

definition report_spawn_failure :: "ProcessHandle \<Rightarrow> string \<Rightarrow> Runner \<Rightarrow> Runner" where
  "report_spawn_failure h message r =
     (let r1 = emit [on_exit h (ProcessResult_default\<lparr>pr_outcome := poSpawnFailed, pr_spawn_error := message\<rparr>)] r
      in r1\<lparr>r_active := r_active r1 - 1\<rparr>)"

definition start_failed_message :: "string \<Rightarrow> string \<Rightarrow> string" where
  "start_failed_message program what = ''could not start '' @ [CHR 0x27] @ program @ [CHR 0x27] @ '': '' @ what"

definition new_child :: "ProcessSpec \<Rightarrow> ProcessCallbacks \<Rightarrow> int \<Rightarrow> TimePoint \<Rightarrow> Child" where
  "new_child spec cbs pid start =
     \<lparr>ch_pid = pid, ch_stdout_open = True, ch_stderr_open = True, ch_stdout_partial = [], ch_stderr_partial = [],
      ch_start = start,
      ch_deadline = (case sp_timeout spec of
                       Some t \<Rightarrow> if 0 < t then Some (start + t * ticks_per_ms) else None
                     | None \<Rightarrow> None),
      ch_exited = False, ch_wait_status = wExited 0, ch_pipes_closed_at = None, ch_term_stage = 0,
      ch_term_sent_at = 0, ch_forced_outcome = poExited, ch_forced = False, ch_callbacks = cbs\<rparr>"

definition handle_launch :: "Os \<Rightarrow> ProcessHandle \<Rightarrow> ProcessSpec \<Rightarrow> ProcessCallbacks \<Rightarrow> Runner \<Rightarrow> Runner" where
  "handle_launch os h spec cbs r =
     (case validate spec of
        Some err \<Rightarrow> report_spawn_failure h err r
      | None \<Rightarrow>
        let ans = os_spawn os (r_tick r);
            r1 = tick r;
            ex = exec_call h (sp_program spec) (sp_argv spec)
                   (build_environment_block (os_environ os) (sp_environment spec) (sp_inherit_environment spec))
                   (sp_working_directory spec)
        in case ans of
             spPipeFailed msg \<Rightarrow> report_spawn_failure h (''pipe(): '' @ msg) r1
           | spForkFailed msg \<Rightarrow> report_spawn_failure h (''fork(): '' @ msg) r1
           | spExecFailed what \<Rightarrow>
               report_spawn_failure h (start_failed_message (sp_program spec) what) (emit [ex] r1)
           | spStarted pid \<Rightarrow>
               let r2 = emit [ex] r1;
                   start = os_now os (r_tick r2)
               in (tick r2)\<lparr>r_children := r_children r2 @ [(h, new_child spec cbs pid start)]\<rparr>)"

definition handle_terminate :: "Os \<Rightarrow> ProcessHandle \<Rightarrow> bool \<Rightarrow> Runner \<Rightarrow> Runner" where
  "handle_terminate os h as_cancellation r =
     (case child r h of
        None \<Rightarrow> r
      | Some c \<Rightarrow>
          if ch_exited c \<or> 1 \<le> ch_term_stage c then r
          else let r1 = emit [kill_call (ch_pid c) SIGTERM] r;
                   t = os_now os (r_tick r1)
               in upd_child h (\<lambda>c. c\<lparr>ch_term_stage := 1, ch_term_sent_at := t, ch_forced := True,
                      ch_forced_outcome := (if as_cancellation then poCancelled else poTimedOut)\<rparr>) (tick r1))"

definition kill_one :: "Runner \<Rightarrow> ProcessHandle \<Rightarrow> Runner" where
  "kill_one r h =
     (case child r h of
        None \<Rightarrow> r
      | Some c \<Rightarrow>
          if ch_exited c then r
          else upd_child h (\<lambda>c. c\<lparr>ch_forced := True, ch_forced_outcome := poCancelled, ch_term_stage := 2\<rparr>)
                 (emit [kill_call (ch_pid c) SIGKILL] r))"

definition handle_shutdown :: "Runner \<Rightarrow> Runner" where
  "handle_shutdown r =
     foldl kill_one (r\<lparr>r_shutting_down := True, r_running := False\<rparr>) (map fst (r_children r))"

fun handle_command :: "Os \<Rightarrow> Runner \<Rightarrow> Command \<Rightarrow> Runner" where
  "handle_command os r (kLaunch h spec cbs) = handle_launch os h spec cbs r"
| "handle_command os r (kTerminate h as_cancellation) = handle_terminate os h as_cancellation r"
| "handle_command os r kShutdown = handle_shutdown r"

definition drain_commands :: "Os \<Rightarrow> Runner \<Rightarrow> Runner" where
  "drain_commands os r = foldl (handle_command os) (r\<lparr>r_queue := []\<rparr>) (r_queue r)"

section \<open>The reactor\<close>

text \<open>\<^verbatim>\<open>reap_children\<close>: drain what is pending, then ask whether the child has ended.\<close>

definition drain_open_stdout :: "Os \<Rightarrow> ProcessHandle \<Rightarrow> Runner \<Rightarrow> Runner" where
  "drain_open_stdout os h r =
     (case child r h of Some c \<Rightarrow> if ch_stdout_open c then drain_stdout os h c r else r | None \<Rightarrow> r)"

definition drain_open_stderr :: "Os \<Rightarrow> ProcessHandle \<Rightarrow> Runner \<Rightarrow> Runner" where
  "drain_open_stderr os h r =
     (case child r h of Some c \<Rightarrow> if ch_stderr_open c then drain_stderr os h c r else r | None \<Rightarrow> r)"

definition note_pipes :: "TimePoint \<Rightarrow> Child \<Rightarrow> Child" where
  "note_pipes t c =
     (if \<not> ch_stdout_open c \<and> \<not> ch_stderr_open c \<and> ch_pipes_closed_at c = None
      then c\<lparr>ch_pipes_closed_at := Some t\<rparr> else c)"

definition note_wait :: "WaitStatus option \<Rightarrow> Child \<Rightarrow> Child" where
  "note_wait w c = (case w of Some status \<Rightarrow> c\<lparr>ch_exited := True, ch_wait_status := status\<rparr> | None \<Rightarrow> c)"

definition reap_one :: "Os \<Rightarrow> TimePoint \<Rightarrow> Runner \<Rightarrow> ProcessHandle \<Rightarrow> Runner" where
  "reap_one os t r h =
     (case child r h of
        None \<Rightarrow> r
      | Some c \<Rightarrow>
          if ch_exited c then r
          else let r1 = drain_open_stderr os h (drain_open_stdout os h r);
                   w = os_wait os (r_tick r1)
               in upd_child h (\<lambda>c. note_wait w (note_pipes t c)) (tick r1))"

definition reap_children :: "Os \<Rightarrow> Runner \<Rightarrow> Runner" where
  "reap_children os r = foldl (reap_one os (os_now os (r_tick r))) (tick r) (map fst (r_children r))"

definition enforce_one :: "TimePoint \<Rightarrow> Runner \<Rightarrow> ProcessHandle \<Rightarrow> Runner" where
  "enforce_one t r h =
     (case child r h of
        None \<Rightarrow> r
      | Some c \<Rightarrow>
          if ch_exited c then r
          else if ch_term_stage c = 0 \<and> (case ch_deadline c of Some d \<Rightarrow> d \<le> t | None \<Rightarrow> False)
          then upd_child h (\<lambda>c. c\<lparr>ch_term_stage := 1, ch_term_sent_at := t, ch_forced := True,
                  ch_forced_outcome := poTimedOut\<rparr>) (emit [kill_call (ch_pid c) SIGTERM] r)
          else if ch_term_stage c = 1 \<and> r_terminate_grace r * ticks_per_ms \<le> t - ch_term_sent_at c
          then upd_child h (\<lambda>c. c\<lparr>ch_term_stage := 2\<rparr>) (emit [kill_call (ch_pid c) SIGKILL] r)
          else r)"

definition enforce_deadlines :: "Os \<Rightarrow> Runner \<Rightarrow> Runner" where
  "enforce_deadlines os r = foldl (enforce_one (os_now os (r_tick r))) (tick r) (map fst (r_children r))"

definition child_result :: "Child \<Rightarrow> TimePoint \<Rightarrow> ProcessResult" where
  "child_result c t =
     (let base = ProcessResult_default\<lparr>pr_pid := Some (ch_pid c),
                   pr_duration := trunc_div (t - ch_start c) ticks_per_ms\<rparr>
      in if ch_forced c
         then base\<lparr>pr_outcome := ch_forced_outcome c,
                    pr_term_signal := (case ch_wait_status c of wSignalled sig \<Rightarrow> sig | _ \<Rightarrow> SIGKILL)\<rparr>
         else case ch_wait_status c of
                wExited code \<Rightarrow> base\<lparr>pr_outcome := poExited, pr_exit_code := code\<rparr>
              | wSignalled sig \<Rightarrow> base\<lparr>pr_outcome := poSignalled, pr_term_signal := sig\<rparr>
              | wOther \<Rightarrow> base\<lparr>pr_outcome := poSignalled, pr_term_signal := 0\<rparr>)"

definition child_done :: "Child \<Rightarrow> bool" where
  "child_done c \<longleftrightarrow> ch_exited c \<and> \<not> ch_stdout_open c \<and> \<not> ch_stderr_open c"

definition finalize_one :: "Os \<Rightarrow> Runner \<Rightarrow> ProcessHandle \<Rightarrow> Runner" where
  "finalize_one os r h =
     (case child r h of
        None \<Rightarrow> r
      | Some c \<Rightarrow>
          let r1 = emit [on_exit h (child_result c (os_now os (r_tick r)))] (tick r)
          in r1\<lparr>r_children := filter (\<lambda>(h', _). h' \<noteq> h) (r_children r1), r_active := r_active r1 - 1\<rparr>)"

definition finalize_children :: "Os \<Rightarrow> Runner \<Rightarrow> Runner" where
  "finalize_children os r =
     foldl (finalize_one os) r (map fst (filter (\<lambda>(h, c). child_done c) (r_children r)))"

definition poll_fds :: "Runner \<Rightarrow> (ProcessHandle \<times> bool) list" where
  "poll_fds r =
     concat (map (\<lambda>(h, c). (if ch_stdout_open c then [(h, True)] else []) @
                            (if ch_stderr_open c then [(h, False)] else [])) (r_children r))"

definition service :: "Os \<Rightarrow> (ProcessHandle \<times> bool \<Rightarrow> bool) \<Rightarrow> Runner \<Rightarrow> ProcessHandle \<times> bool \<Rightarrow> Runner" where
  "service os revents r fd =
     (if \<not> revents fd then r
      else case child r (fst fd) of
             None \<Rightarrow> r
           | Some c \<Rightarrow> if snd fd then drain_stdout os (fst fd) c r else drain_stderr os (fst fd) c r)"

definition poll_once :: "Os \<Rightarrow> Runner \<Rightarrow> Runner" where
  "poll_once os r = foldl (service os (os_poll os (r_tick r))) (tick r) (poll_fds r)"

definition consider_time :: "TimePoint option \<Rightarrow> TimePoint \<Rightarrow> TimePoint option" where
  "consider_time earliest tp =
     (case earliest of None \<Rightarrow> Some tp | Some e \<Rightarrow> if tp < e then Some tp else Some e)"

definition wake_times :: "Millis \<Rightarrow> Child \<Rightarrow> TimePoint list" where
  "wake_times grace c =
     (case ch_deadline c of Some d \<Rightarrow> if \<not> ch_exited c \<and> ch_term_stage c = 0 then [d] else [] | None \<Rightarrow> [])
     @ (if ch_term_stage c = 1 then [ch_term_sent_at c + grace * ticks_per_ms] else [])
     @ (case ch_pipes_closed_at c of Some p \<Rightarrow> if \<not> ch_exited c then [p + 20 * ticks_per_ms] else [] | None \<Rightarrow> [])"

definition next_timeout_ms :: "TimePoint \<Rightarrow> Runner \<Rightarrow> int" where
  "next_timeout_ms t r =
     (case foldl consider_time None (concat (map (\<lambda>(h, c). wake_times (r_terminate_grace r) c) (r_children r))) of
        None \<Rightarrow> -1
      | Some e \<Rightarrow>
          let delta = trunc_div (e - t) ticks_per_ms
          in if delta \<le> 0 then 0 else if 1000 < delta then 1000 else delta)"

text \<open>One turn of the loop in \<^verbatim>\<open>run()\<close>, and whether the loop ends with it.\<close>

definition reactor_turn :: "Os \<Rightarrow> Runner \<Rightarrow> bool \<times> Runner" where
  "reactor_turn os r =
     (let r1 = drain_commands os r in
      if r_shutting_down r1 \<and> r_children r1 = [] then (True, r1\<lparr>r_running := False\<rparr>)
      else let r2 = finalize_children os (enforce_deadlines os (reap_children os r1)) in
        if r_shutting_down r2 \<and> r_children r2 = [] then (True, r2\<lparr>r_running := False\<rparr>)
        else (False, poll_once os r2))"

text \<open>
  The system: every command ever put into the queue, whether the reactor's loop has ended, and
  the runner. Other threads only append to the queue (and read \<^verbatim>\<open>running_\<close>), the reactor takes
  the whole queue at the start of a turn.
\<close>

type_synonym RunnerSystem = "Command list \<times> bool \<times> Runner"

inductive rstep :: "Os \<Rightarrow> RunnerSystem \<Rightarrow> RunnerSystem \<Rightarrow> bool" for os where
  r_turn: "reactor_turn os r = (stopped, r') \<Longrightarrow> rstep os (cmds, False, r) (cmds, stopped, r')"
| r_launch: "launch spec cbs r = (h, r') \<Longrightarrow> h \<noteq> kInvalidHandle \<Longrightarrow>
    rstep os (cmds, stopped, r) (cmds @ [kLaunch h spec cbs], stopped, r')"
| r_refuse: "launch spec cbs r = (kInvalidHandle, r') \<Longrightarrow> rstep os (cmds, stopped, r) (cmds, stopped, r')"
| r_terminate: "rstep os (cmds, stopped, r)
    (cmds @ [kTerminate h as_cancellation], stopped, request_terminate h as_cancellation r)"
| r_shutdown: "rstep os (cmds, stopped, r) (cmds @ [kShutdown], stopped, request_shutdown r)"

section \<open>Lines do not depend on how the output is cut\<close>

lemma lines_from_unfold:
  "newline \<notin> set a \<Longrightarrow> lines_from (a @ newline # b) = (strip_cr a # fst (lines_from b), snd (lines_from b))"
  by (subst lines_from.simps) (simp add: find_char_append split_beta)

lemma lines_from_none: "newline \<notin> set a \<Longrightarrow> lines_from a = ([], a)"
  by (subst lines_from.simps) (simp add: find_char_None [THEN iffD2])

lemma lines_from_split:
  "lines_from s = (map strip_cr (butlast (split s newline)), last (split s newline))"
proof (induction s rule: lines_from.induct)
  case (1 s)
  show ?case
  proof (cases "find_char newline s")
    case None
    then have "newline \<notin> set s" by (simp add: find_char_None)
    then show ?thesis by (simp add: lines_from_none split_no_delim)
  next
    case (Some nl)
    then have s: "s = take nl s @ newline # drop (Suc nl) s" "newline \<notin> set (take nl s)"
      by (simp_all add: find_char_Some)
    have "split s newline = take nl s # split (drop (Suc nl) s) newline"
      by (subst s(1)) (rule split_delim [OF s(2)])
    moreover have "lines_from s = (strip_cr (take nl s) # fst (lines_from (drop (Suc nl) s)), snd (lines_from (drop (Suc nl) s)))"
      by (subst s(1)) (rule lines_from_unfold [OF s(2)])
    ultimately show ?thesis using "1.IH" [OF Some] by simp
  qed
qed

lemma lines_from_append:
  "lines_from (a @ b) =
     (fst (lines_from a) @ fst (lines_from (snd (lines_from a) @ b)), snd (lines_from (snd (lines_from a) @ b)))"
proof (induction a rule: lines_from.induct)
  case (1 a)
  show ?case
  proof (cases "find_char newline a")
    case None
    then have "newline \<notin> set a" by (simp add: find_char_None)
    then show ?thesis by (simp add: lines_from_none)
  next
    case (Some nl)
    define x y where "x = take nl a" and "y = drop (Suc nl) a"
    have a: "a = x @ newline # y" "newline \<notin> set x" using Some by (simp_all add: find_char_Some x_def y_def)
    have IH: "lines_from (y @ b) =
     (fst (lines_from y) @ fst (lines_from (snd (lines_from y) @ b)), snd (lines_from (snd (lines_from y) @ b)))"
      using "1.IH" [OF Some] by (simp add: y_def)
    show ?thesis unfolding a(1) using IH by (simp add: lines_from_unfold [OF a(2)])
  qed
qed

text \<open>As long as no line reaches the limit, feeding chunks one by one gives the lines of the whole.\<close>

fun feed :: "string \<Rightarrow> string list \<Rightarrow> string list \<times> string" where
  "feed partial [] = ([], partial)"
| "feed partial (c # cs) =
     (let (ls, p) = emit_lines partial c; (ls', p') = feed p cs in (ls @ ls', p'))"

lemma emit_lines_short:
  "length (snd (lines_from (p @ c))) \<le> kMaxPartialLine \<Longrightarrow> emit_lines p c = lines_from (p @ c)"
  by (simp add: emit_lines_def split_beta)

lemma feed_lines:
  assumes "newline \<notin> set partial"
    and "\<And>k. k \<le> length cs \<Longrightarrow> length (snd (lines_from (partial @ concat (take k cs)))) \<le> kMaxPartialLine"
  shows "feed partial cs = lines_from (partial @ concat cs)"
  using assms
proof (induction cs arbitrary: partial)
  case Nil
  then show ?case by (simp add: lines_from_none)
next
  case (Cons c cs)
  let ?p = "snd (lines_from (partial @ c))"
  have e: "emit_lines partial c = lines_from (partial @ c)" using Cons.prems(2) [of 1] by (intro emit_lines_short) simp
  have "newline \<notin> set ?p" using split_parts_no_delim [of _ "partial @ c" newline] by (simp add: lines_from_split)
  moreover have "length (snd (lines_from (?p @ concat (take k cs)))) \<le> kMaxPartialLine" if "k \<le> length cs" for k
    using Cons.prems(2) [of "Suc k"] that lines_from_append [of "partial @ c" "concat (take k cs)"] by simp
  ultimately have "feed ?p cs = lines_from (?p @ concat cs)" by (rule Cons.IH)
  then show ?case
    using e lines_from_append [of "partial @ c" "concat cs"] by (simp add: split_beta)
qed

lemma drain_fd_data:
  "drain_fd partial (map rdData cs @ rdEof # as) =
     (fst (feed partial cs) @ (if snd (feed partial cs) \<noteq> [] then [snd (feed partial cs)] else []), False, [])"
  by (induction cs arbitrary: partial) (simp_all add: split_beta)

lemma split_partial: "\<exists>l \<in> set (split (a @ b) d). length (last (split a d)) \<le> length l"
proof (induction "length a" arbitrary: a rule: less_induct)
  case less
  show ?case
  proof (cases "d \<in> set a")
    case True
    then obtain a1 a2 where a: "a = a1 @ d # a2" "d \<notin> set a1"
      by (meson split_list_first)
    then show ?thesis
      using less [of a2] by (auto simp: split_delim)
  next
    case False
    show ?thesis
    proof (cases "d \<in> set b")
      case True
      then obtain b1 b2 where "b = b1 @ d # b2" "d \<notin> set b1"
        by (meson split_list_first)
      then show ?thesis
        using False split_delim [of d "a @ b1" b2] by (simp add: split_no_delim)
    qed (use False in \<open>simp add: split_no_delim\<close>)
  qed
qed

lemma drain_fd_lines:
  assumes "list_all (\<lambda>l. length l \<le> kMaxPartialLine) (split (concat cs) newline)"
  shows "drain_fd [] (map rdData cs @ rdEof # as) =
    (map strip_cr (butlast (split (concat cs) newline)) @
       (if last (split (concat cs) newline) \<noteq> [] then [last (split (concat cs) newline)] else []), False, [])"
proof -
  have "length (snd (lines_from ([] @ concat (take k cs)))) \<le> kMaxPartialLine" for k
    using split_partial [of "concat (take k cs)" "concat (drop k cs)" newline] assms
    by (fastforce simp: lines_from_split list_all_iff simp flip: concat_append)
  then have "feed [] cs = lines_from (concat cs)"
    using feed_lines [of "[]" cs] by simp
  then show ?thesis
    by (simp add: drain_fd_data lines_from_split)
qed

end
