(* ===== verification/Runner_Contract.thy ===== *)
theory Runner_Contract
  imports Process_Runner "HOL-Library.Multiset"
begin

text \<open>
  The contract of \<^verbatim>\<open>src/include/flowforge/process/process_runner.hpp\<close> and that the reactor
  keeps it: \<^verbatim>\<open>on_exit\<close> runs exactly once per launch, an outcome says \<^verbatim>\<open>kCancelled\<close> only when
  that was asked for, and overdue children are terminated.
\<close>

section \<open>The interface\<close>

locale process_runner =
  fixes moves :: "'r \<Rightarrow> 'r \<Rightarrow> bool"
    and start :: 'r
    and issued :: "'r \<Rightarrow> ProcessHandle list"
    and reported :: "'r \<Rightarrow> ProcessHandle list"
    and owed_exits :: "'r \<Rightarrow> ProcessHandle list"
  assumes start_clean: "issued start = [] \<and> reported start = [] \<and> owed_exits start = []"
    and moves_conserve: "moves\<^sup>*\<^sup>* start r \<Longrightarrow> moves r r' \<Longrightarrow>
      mset (reported r @ owed_exits r) = mset (issued r) \<Longrightarrow> mset (reported r' @ owed_exits r') = mset (issued r')"
    and moves_fresh: "moves\<^sup>*\<^sup>* start r \<Longrightarrow> moves r r' \<Longrightarrow> distinct (issued r) \<Longrightarrow> distinct (issued r')"
begin

lemma conserved: "moves\<^sup>*\<^sup>* start r \<Longrightarrow> mset (reported r @ owed_exits r) = mset (issued r) \<and> distinct (issued r)"
proof (induction rule: rtranclp_induct)
  case base
  show ?case using start_clean by simp
next
  case (step y z)
  then show ?case using moves_conserve [of y z] moves_fresh [of y z] by blast
qed

lemma exits_once: "moves\<^sup>*\<^sup>* start r \<Longrightarrow> distinct (reported r @ owed_exits r)"
  using conserved [of r] mset_eq_imp_distinct_iff by blast

lemma exits_complete: "moves\<^sup>*\<^sup>* start r \<Longrightarrow> owed_exits r = [] \<Longrightarrow> set (reported r) = set (issued r)"
  using conserved [of r] by (metis append_Nil2 mset_eq_setD)

end

section \<open>Accounting\<close>

definition launched_handle :: "Command \<Rightarrow> ProcessHandle option" where
  "launched_handle c = (case c of kLaunch h _ _ \<Rightarrow> Some h | _ \<Rightarrow> None)"

definition launches :: "Command list \<Rightarrow> ProcessHandle list" where
  "launches cs = List.map_filter launched_handle cs"

definition exit_of :: "RunnerOut \<Rightarrow> ProcessHandle option" where
  "exit_of o1 = (case o1 of on_exit h _ \<Rightarrow> Some h | _ \<Rightarrow> None)"

definition exits :: "Runner \<Rightarrow> ProcessHandle list" where
  "exits r = List.map_filter exit_of (r_out r)"

definition handles :: "Runner \<Rightarrow> ProcessHandle list" where
  "handles r = map fst (r_children r)"

lemma launches_simps [simp]:
  "launches [] = []" "launches (kLaunch h s c # cs) = h # launches cs"
  "launches (kTerminate h b # cs) = launches cs" "launches (kShutdown # cs) = launches cs"
  "launches (cs @ ds) = launches cs @ launches ds"
  by (simp_all add: launches_def launched_handle_def List.map_filter_def)

lemma exits_emit: "exits (emit es r) = exits r @ List.map_filter exit_of es"
  by (simp add: exits_def emit_def List.map_filter_def)

text \<open>Steps that neither take nor finish a child.\<close>

definition quiet :: "Runner \<Rightarrow> Runner \<Rightarrow> bool" where
  "quiet r r' \<longleftrightarrow> handles r' = handles r \<and> exits r' = exits r \<and> r_queue r' = r_queue r \<and>
     r_next_handle r' = r_next_handle r \<and> r_active r' = r_active r"

lemma quiet_refl [simp]: "quiet r r"
  by (simp add: quiet_def)

lemma quiet_trans: "quiet r r1 \<Longrightarrow> quiet r1 r2 \<Longrightarrow> quiet r r2"
  by (simp add: quiet_def)

lemma quiet_foldl: "(\<And>r x. quiet r (f r x)) \<Longrightarrow> quiet r (foldl f r xs)"
  by (induction xs arbitrary: r) (auto intro: quiet_trans)

lemma quiet_basic [simp]:
  "quiet r (tick r)" "quiet r (upd_child h f r)" "quiet r (r\<lparr>r_shutting_down := b, r_running := b'\<rparr>)"
  "List.map_filter exit_of es = [] \<Longrightarrow> quiet r (emit es r)"
  by (simp_all add: quiet_def handles_def exits_def tick_def upd_child_def emit_def List.map_filter_def)

lemma no_exits [simp]:
  "List.map_filter exit_of (map (on_line h b) ls) = []" "List.map_filter exit_of [kill_call p s] = []"
  "List.map_filter exit_of [exec_call h pr av en cw] = []" "List.map_filter exit_of [on_exit h res] = [h]"
  "List.map_filter exit_of [] = []"
  by (simp_all add: exit_of_def List.map_filter_def)

lemma drain_quiet [simp]: "quiet r (drain_stdout os h c r)" "quiet r (drain_stderr os h c r)"
proof -
  have "quiet r (upd_child h f (tick r))" "quiet r (emit (map (on_line h b) ls) (upd_child h f (tick r)))" for f b ls
    by (meson quiet_basic quiet_trans no_exits)+
  then show "quiet r (drain_stdout os h c r)" "quiet r (drain_stderr os h c r)"
    by (simp_all add: drain_stdout_def drain_stderr_def Let_def split_beta)
qed

lemma reap_quiet: "quiet r (reap_children os r)"
proof -
  have d: "quiet r (drain_open_stderr os h (drain_open_stdout os h r))" for r h
  proof -
    have "quiet r (drain_open_stdout os h r)" "quiet r' (drain_open_stderr os h r')" for r'
      by (simp_all add: drain_open_stdout_def drain_open_stderr_def split: option.splits)
    then show ?thesis using quiet_trans by blast
  qed
  have "quiet r (reap_one os t r h)" for t r h
    using quiet_trans [OF d quiet_trans [OF quiet_basic(1) quiet_basic(2)]]
    by (simp add: reap_one_def Let_def split: option.splits)
  then show ?thesis unfolding reap_children_def using quiet_foldl quiet_trans quiet_basic(1) by metis
qed

lemma enforce_quiet: "quiet r (enforce_deadlines os r)"
proof -
  have "quiet r (upd_child h f (emit [kill_call p s] r))" for r h f p s
    by (meson quiet_basic quiet_trans no_exits)
  then have "quiet r (enforce_one t r h)" for t r h
    by (auto simp: enforce_one_def split: option.splits)
  then show ?thesis unfolding enforce_deadlines_def using quiet_foldl quiet_trans quiet_basic(1) by metis
qed

lemma poll_quiet: "quiet r (poll_once os r)"
proof -
  have "quiet r (service os rev r fd)" for rev r fd
    by (simp add: service_def split: option.splits)
  then show ?thesis unfolding poll_once_def using quiet_foldl quiet_trans quiet_basic(1) by metis
qed

lemma terminate_quiet: "quiet r (handle_terminate os h b r)"
proof -
  have "quiet r (upd_child h f (tick (emit [kill_call p s] r)))" for f p s
    by (meson quiet_basic quiet_trans no_exits)
  then show ?thesis by (simp add: handle_terminate_def Let_def split: option.splits)
qed

lemma shutdown_quiet: "quiet r (handle_shutdown r)"
proof -
  have "quiet r (upd_child h f (emit [kill_call p s] r))" for r h f p s
    by (meson quiet_basic quiet_trans no_exits)
  then have "quiet r (kill_one r h)" for r h by (simp add: kill_one_def split: option.splits)
  then show ?thesis unfolding handle_shutdown_def using quiet_foldl quiet_trans quiet_basic(3) by metis
qed

text \<open>The invariant, with the commands the reactor has taken from the queue and not yet handled.\<close>

definition accounted :: "Command list \<Rightarrow> Runner \<Rightarrow> bool" where
  "accounted todo r \<longleftrightarrow>
     mset (exits r @ handles r @ launches todo @ launches (r_queue r)) = mset [1..<r_next_handle r] \<and>
     r_active r = length (handles r @ launches todo @ launches (r_queue r)) \<and> 1 \<le> r_next_handle r"

lemma quiet_accounted: "quiet r r' \<Longrightarrow> accounted todo r' = accounted todo r"
  by (simp add: quiet_def accounted_def)

lemma handle_launch_accounted:
  assumes a: "accounted (kLaunch h spec cbs # todo) r"
  shows "accounted todo (handle_launch os h spec cbs r)"
proof -
  have fail: "accounted todo (report_spawn_failure h m r')" if "quiet r r'" for m r'
  proof -
    have "accounted (kLaunch h spec cbs # todo) r'" using a quiet_accounted [OF that] by simp
    moreover have "exits (report_spawn_failure h m r') = exits r' @ [h]"
      by (simp add: report_spawn_failure_def Let_def exits_def emit_def exit_of_def List.map_filter_def)
    moreover have "handles (report_spawn_failure h m r') = handles r'"
      "r_queue (report_spawn_failure h m r') = r_queue r'" "r_active (report_spawn_failure h m r') = r_active r' - 1"
      "r_next_handle (report_spawn_failure h m r') = r_next_handle r'"
      by (simp_all add: report_spawn_failure_def Let_def emit_def handles_def)
    ultimately show ?thesis by (simp add: accounted_def)
  qed
  have q: "quiet r (tick r)" "quiet r (emit [exec_call h p v e w] (tick r))" for p v e w
    by (meson quiet_basic quiet_trans no_exits)+
  have ok: "accounted todo ((tick r')\<lparr>r_children := r_children r' @ [(h, c)]\<rparr>)" if "quiet r r'" for r' c
  proof -
    have "accounted (kLaunch h spec cbs # todo) r'" using a quiet_accounted [OF that] by simp
    then show ?thesis by (simp add: accounted_def handles_def exits_def tick_def)
  qed
  show ?thesis
    using fail [OF quiet_refl] fail [OF q(1)] fail [OF q(2)] ok [OF q(2)]
    by (simp add: handle_launch_def Let_def split: option.splits SpawnAnswer.splits)
qed

lemma handle_command_accounted:
  "accounted (c # todo) r \<Longrightarrow> accounted todo (handle_command os r c)"
proof (cases c)
  case (kLaunch h spec cbs)
  then show "accounted (c # todo) r \<Longrightarrow> ?thesis" by (simp add: handle_launch_accounted)
next
  case (kTerminate h b)
  moreover assume "accounted (c # todo) r"
  ultimately have "accounted todo r" by (simp add: accounted_def)
  then show ?thesis using kTerminate quiet_accounted [OF terminate_quiet] by simp
next
  case kShutdown
  moreover assume "accounted (c # todo) r"
  ultimately have "accounted todo r" by (simp add: accounted_def)
  then show ?thesis using kShutdown quiet_accounted [OF shutdown_quiet] by simp
qed

lemma drain_commands_accounted:
  assumes "accounted [] r"
  shows "accounted [] (drain_commands os r)"
proof -
  have "accounted (todo @ rest) r \<Longrightarrow> accounted rest (foldl (handle_command os) r todo)" for todo rest r
    by (induction todo arbitrary: r) (simp_all add: handle_command_accounted)
  moreover have "accounted (r_queue r @ []) (r\<lparr>r_queue := []\<rparr>)"
    using assms by (simp add: accounted_def handles_def exits_def)
  ultimately show ?thesis unfolding drain_commands_def by blast
qed

lemma keys_filter_other:
  "distinct (map fst kvs) \<Longrightarrow> map fst (filter (\<lambda>(k, _). k \<noteq> h) kvs) = remove1 h (map fst kvs)"
proof (induction kvs)
  case (Cons kv kvs)
  obtain k v where kv: "kv = (k, v)" by (cases kv)
  show ?case
  proof (cases "k = h")
    case True
    then have "h \<notin> set (map fst kvs)" using Cons.prems kv by simp
    then have "filter (\<lambda>(k, _). k \<noteq> h) kvs = kvs" by (intro filter_True) force
    with True kv show ?thesis by simp
  next
    case False
    with Cons kv show ?thesis by simp
  qed
qed simp

lemma finalize_one_accounted:
  assumes a: "accounted [] r"
  shows "accounted [] (finalize_one os r h)"
proof (cases "child r h")
  case None
  with a show ?thesis by (simp add: finalize_one_def)
next
  case (Some c)
  let ?r' = "finalize_one os r h"
  have m: "h \<in> set (handles r)" using Some by (force simp: child_def handles_def dest: map_of_SomeD)
  have "distinct (handles r)"
  proof -
    have "distinct (exits r @ handles r @ launches [] @ launches (r_queue r))"
      using a mset_eq_imp_distinct_iff [of _ "[1..<r_next_handle r]"] unfolding accounted_def by (metis distinct_upt)
    then show ?thesis by simp
  qed
  then have k: "handles ?r' = remove1 h (handles r)"
    using Some keys_filter_other [of "r_children r" h]
    by (simp add: finalize_one_def Let_def emit_def tick_def handles_def)
  have e: "exits ?r' = exits r @ [h]" using Some
    by (simp add: finalize_one_def Let_def exits_def emit_def tick_def List.map_filter_def exit_of_def)
  have rest: "r_queue ?r' = r_queue r" "r_next_handle ?r' = r_next_handle r" "r_active ?r' = r_active r - 1"
    using Some by (simp_all add: finalize_one_def Let_def emit_def tick_def)
  have "mset (exits ?r' @ handles ?r') = mset (exits r @ handles r)" using m by (simp add: e k)
  then have "mset (exits ?r' @ handles ?r' @ q) = mset (exits r @ handles r @ q)" for q
    by (metis append_assoc mset_append)
  then have "mset (exits ?r' @ handles ?r' @ launches [] @ launches (r_queue r)) = mset [1..<r_next_handle r]"
    using a by (simp only: accounted_def)
  moreover have len: "length (handles ?r') = length (handles r) - 1" using m by (simp add: k length_remove1)
  have "length (handles ?r') + n = length (handles r) + n - 1" for n
    using len length_pos_if_in_set [OF m] by linarith
  then have "r_active r - 1 = length (handles ?r' @ launches [] @ launches (r_queue r))"
    using a by (simp add: accounted_def)
  ultimately show ?thesis using a unfolding accounted_def rest by blast
qed

lemma reactor_turn_accounted:
  assumes a: "accounted [] r"
  shows "accounted [] (snd (reactor_turn os r))"
proof -
  let ?r1 = "drain_commands os r"
  let ?r2 = "enforce_deadlines os (reap_children os ?r1)"
  have 1: "accounted [] ?r1" by (rule drain_commands_accounted [OF a])
  have 2: "accounted [] ?r2"
    using 1 quiet_accounted [OF reap_quiet] quiet_accounted [OF enforce_quiet] by simp
  have "accounted [] r' \<Longrightarrow> accounted [] (foldl (finalize_one os) r' hs)" for hs r'
    by (induction hs arbitrary: r') (simp_all add: finalize_one_accounted)
  then have 3: "accounted [] (finalize_children os ?r2)" using 2 by (simp add: finalize_children_def)
  then have 4: "accounted [] (poll_once os (finalize_children os ?r2))"
    using quiet_accounted [OF poll_quiet] by simp
  have run: "accounted [] (r'\<lparr>r_running := b\<rparr>) = accounted [] r'" for r' b
    by (simp add: accounted_def handles_def exits_def)
  show ?thesis using 1 3 4 by (simp add: reactor_turn_def Let_def run)
qed

section \<open>The reactor keeps the contract\<close>

definition runner_start :: "Millis \<Rightarrow> RunnerSystem" where
  "runner_start grace = ([], False, Runner_new grace)"

fun sys_issued :: "RunnerSystem \<Rightarrow> ProcessHandle list" where
  "sys_issued (cmds, stopped, r) = launches cmds"

fun sys_reported :: "RunnerSystem \<Rightarrow> ProcessHandle list" where
  "sys_reported (cmds, stopped, r) = exits r"

fun sys_owed :: "RunnerSystem \<Rightarrow> ProcessHandle list" where
  "sys_owed (cmds, stopped, r) = handles r @ launches (r_queue r)"

definition sys_ok :: "RunnerSystem \<Rightarrow> bool" where
  "sys_ok x = (case x of (cmds, stopped, r) \<Rightarrow> accounted [] r \<and> launches cmds = [1..<r_next_handle r])"

lemma reactor_turn_next: "r_next_handle (snd (reactor_turn os r)) = r_next_handle r"
proof -
  have c: "r_next_handle (handle_command os r c) = r_next_handle r" for r c
  proof (cases c)
    case (kLaunch h spec cbs)
    then show ?thesis
      by (simp add: handle_launch_def report_spawn_failure_def emit_def tick_def Let_def split: option.splits SpawnAnswer.splits)
  qed (use terminate_quiet shutdown_quiet in \<open>auto simp: quiet_def\<close>)
  have "r_next_handle (foldl (handle_command os) r cs) = r_next_handle r" for cs r
    by (induction cs arbitrary: r) (simp_all add: c)
  then have d: "r_next_handle (drain_commands os r) = r_next_handle r" by (simp add: drain_commands_def)
  have f1: "r_next_handle (finalize_one os r h) = r_next_handle r" for r h
    by (simp add: finalize_one_def Let_def emit_def tick_def split: option.splits)
  have "r_next_handle (foldl (finalize_one os) r hs) = r_next_handle r" for hs r
    by (induction hs arbitrary: r) (simp_all add: f1)
  then have f: "r_next_handle (finalize_children os r) = r_next_handle r" for r by (simp add: finalize_children_def)
  show ?thesis using d f poll_quiet enforce_quiet reap_quiet unfolding quiet_def
    by (simp add: reactor_turn_def Let_def)
qed

lemma rstep_sys_ok:
  assumes "rstep os x y" "sys_ok x"
  shows "sys_ok y"
  using assms
proof (cases rule: rstep.cases)
  case (r_turn r stopped r' cmds)
  then show ?thesis
    using assms(2) reactor_turn_accounted [of r os] reactor_turn_next [of os r] by (simp add: sys_ok_def)
next
  case (r_launch spec cbs r h r' cmds stopped)
  then have "h = r_next_handle r"
    "r' = r\<lparr>r_next_handle := r_next_handle r + 1, r_active := r_active r + 1,
              r_queue := r_queue r @ [kLaunch (r_next_handle r) spec cbs]\<rparr>"
    by (auto simp: launch_def split: if_splits)
  moreover have "accounted [] r" "launches cmds = [1..<r_next_handle r]" using assms(2) r_launch by (simp_all add: sys_ok_def)
  moreover from this have "[1..<Suc (r_next_handle r)] = [1..<r_next_handle r] @ [r_next_handle r]"
    by (simp add: accounted_def)
  ultimately show ?thesis using r_launch(2)
    by (simp add: sys_ok_def accounted_def handles_def exits_def atLeastLessThanSuc)
next
  case (r_refuse spec cbs r r' cmds stopped)
  then have "r' = r \<or> r_next_handle r = 0" by (auto simp: launch_def kInvalidHandle_def split: if_splits)
  then show ?thesis using assms(2) r_refuse by (auto simp: sys_ok_def accounted_def)
qed (use assms(2) in \<open>auto simp: sys_ok_def accounted_def request_terminate_def request_shutdown_def handles_def exits_def\<close>)

lemma runner_start_ok: "sys_ok (runner_start grace)"
  by (simp add: sys_ok_def runner_start_def Runner_new_def accounted_def handles_def exits_def)

lemma reach_sys_ok: "(rstep os)\<^sup>*\<^sup>* (runner_start grace) x \<Longrightarrow> sys_ok x"
  by (induction rule: rtranclp_induct) (auto intro: runner_start_ok rstep_sys_ok)

lemma sys_ok_conserves:
  "sys_ok x \<Longrightarrow> mset (sys_reported x @ sys_owed x) = mset (sys_issued x) \<and> distinct (sys_issued x)"
  by (cases x) (auto simp: sys_ok_def accounted_def)

interpretation reactor: process_runner "rstep os" "runner_start grace" sys_issued sys_reported sys_owed
  for os grace
proof unfold_locales
  show "sys_issued (runner_start grace) = [] \<and> sys_reported (runner_start grace) = [] \<and>
      sys_owed (runner_start grace) = []"
    by (simp add: runner_start_def Runner_new_def handles_def exits_def)
next
  fix r r'
  assume "(rstep os)\<^sup>*\<^sup>* (runner_start grace) r" "rstep os r r'"
  then have "sys_ok r'" using reach_sys_ok rstep_sys_ok by blast
  then show "mset (sys_reported r' @ sys_owed r') = mset (sys_issued r')" "distinct (sys_issued r')"
    using sys_ok_conserves by blast+
qed

lemma reach_active: "(rstep os)\<^sup>*\<^sup>* (runner_start grace) (cmds, stopped, r) \<Longrightarrow>
    active_count r = length (sys_owed (cmds, stopped, r))"
  using reach_sys_ok by (fastforce simp: sys_ok_def accounted_def active_count_def)

section \<open>Why an outcome is reported as cancelled\<close>

text \<open>The commands that make a cancellation of \<open>h\<close> legitimate.\<close>

definition cancel_asked :: "Command list \<Rightarrow> ProcessHandle \<Rightarrow> bool" where
  "cancel_asked cmds h \<longleftrightarrow> kTerminate h True \<in> set cmds \<or> kShutdown \<in> set cmds"

definition cancel_justified :: "Command list \<Rightarrow> Runner \<Rightarrow> bool" where
  "cancel_justified cmds r \<longleftrightarrow>
     (\<forall>(h, c) \<in> set (r_children r). ch_forced_outcome c = poCancelled \<longrightarrow> cancel_asked cmds h) \<and>
     (\<forall>h res. on_exit h res \<in> set (r_out r) \<longrightarrow> pr_outcome res = poCancelled \<longrightarrow> cancel_asked cmds h)"

lemma upd_child_justified:
  assumes "cancel_justified cmds r" "\<And>c. ch_forced_outcome (f c) = poCancelled \<Longrightarrow> ch_forced_outcome c = poCancelled \<or> cancel_asked cmds h"
  shows "cancel_justified cmds (upd_child h f r)"
  using assms unfolding cancel_justified_def upd_child_def by (fastforce dest: map_modify_mem)

lemma emit_justified:
  assumes "cancel_justified cmds r" "\<And>h res. on_exit h res \<in> set es \<Longrightarrow> pr_outcome res = poCancelled \<Longrightarrow> cancel_asked cmds h"
  shows "cancel_justified cmds (emit es r)"
  using assms by (auto simp: cancel_justified_def emit_def)

lemma tick_justified [simp]:
  "cancel_justified cmds (tick r) = cancel_justified cmds r"
  "cancel_justified cmds (r\<lparr>r_running := b\<rparr>) = cancel_justified cmds r"
  by (simp_all add: cancel_justified_def tick_def)

lemma foldl_justified:
  "(\<And>r x. x \<in> set xs \<Longrightarrow> cancel_justified cmds r \<Longrightarrow> cancel_justified cmds (f r x)) \<Longrightarrow> cancel_justified cmds r \<Longrightarrow>
   cancel_justified cmds (foldl f r xs)"
  by (induction xs arbitrary: r) auto

lemma drain_justified:
  assumes "cancel_justified cmds r"
  shows "cancel_justified cmds (drain_stdout os h c r)" "cancel_justified cmds (drain_stderr os h c r)"
  using assms unfolding drain_stdout_def drain_stderr_def Let_def
  by (auto simp: split_beta intro!: emit_justified upd_child_justified)

lemma handle_launch_justified:
  assumes "cancel_justified cmds r"
  shows "cancel_justified cmds (handle_launch os h spec cbs r)"
  using assms
  by (auto simp: handle_launch_def report_spawn_failure_def Let_def cancel_justified_def emit_def tick_def
      ProcessResult_default_def new_child_def split: option.splits SpawnAnswer.splits)

lemma handle_terminate_justified:
  assumes "cancel_justified cmds r" "b \<Longrightarrow> cancel_asked cmds h"
  shows "cancel_justified cmds (handle_terminate os h b r)"
  using assms by (auto simp: handle_terminate_def Let_def split: option.splits if_splits
      intro!: upd_child_justified emit_justified)

lemma handle_shutdown_justified:
  assumes "cancel_justified cmds r" "kShutdown \<in> set cmds"
  shows "cancel_justified cmds (handle_shutdown r)"
proof -
  have "cancel_justified cmds (kill_one r h)" if "cancel_justified cmds r" for r h
    using that assms(2) by (auto simp: kill_one_def cancel_asked_def split: option.splits
        intro!: upd_child_justified emit_justified)
  moreover have "cancel_justified cmds (r\<lparr>r_shutting_down := True, r_running := False\<rparr>)"
    using assms(1) by (simp add: cancel_justified_def)
  ultimately show ?thesis unfolding handle_shutdown_def by (intro foldl_justified)
qed

lemma handle_command_justified:
  assumes "cancel_justified cmds r" "c \<in> set cmds"
  shows "cancel_justified cmds (handle_command os r c)"
  using assms by (cases c) (auto simp: handle_launch_justified cancel_asked_def
      intro: handle_terminate_justified handle_shutdown_justified)

lemma child_mem: "child r h = Some c \<Longrightarrow> (h, c) \<in> set (r_children r)"
  by (simp add: child_def map_of_SomeD)

lemma reap_justified: "cancel_justified cmds r \<Longrightarrow> cancel_justified cmds (reap_children os r)"
proof -
  have d: "cancel_justified cmds r \<Longrightarrow> cancel_justified cmds (drain_open_stderr os h (drain_open_stdout os h r))" for r h
    by (simp add: drain_open_stdout_def drain_open_stderr_def drain_justified split: option.splits)
  have "cancel_justified cmds (reap_one os t r h)" if "cancel_justified cmds r" for t r h
    using that d [OF that, of h]
    by (auto simp: reap_one_def Let_def note_wait_def note_pipes_def split: option.splits if_splits
        intro!: upd_child_justified)
  then show "cancel_justified cmds r \<Longrightarrow> ?thesis" unfolding reap_children_def by (intro foldl_justified) simp_all
qed

lemma enforce_justified: "cancel_justified cmds r \<Longrightarrow> cancel_justified cmds (enforce_deadlines os r)"
proof -
  have "cancel_justified cmds (enforce_one t r h)" if "cancel_justified cmds r" for t r h
    using that by (auto simp: enforce_one_def split: option.splits if_splits intro!: upd_child_justified emit_justified)
  then show "cancel_justified cmds r \<Longrightarrow> ?thesis" unfolding enforce_deadlines_def by (intro foldl_justified) simp_all
qed

lemma finalize_justified: "cancel_justified cmds r \<Longrightarrow> cancel_justified cmds (finalize_children os r)"
proof -
  have "cancel_justified cmds (finalize_one os r h)" if j: "cancel_justified cmds r" for r h
  proof (cases "child r h")
    case (Some c)
    have o: "pr_outcome (child_result c t) = poCancelled \<Longrightarrow> ch_forced_outcome c = poCancelled" for t
      by (simp add: child_result_def Let_def split: if_splits WaitStatus.splits)
    have "ch_forced_outcome c = poCancelled \<Longrightarrow> cancel_asked cmds h"
      using j child_mem [OF Some] by (fastforce simp: cancel_justified_def)
    then have "cancel_justified cmds (emit [on_exit h (child_result c (os_now os (r_tick r)))] (tick r))"
      using j o by (intro emit_justified) auto
    then show ?thesis using Some by (auto simp: finalize_one_def Let_def cancel_justified_def)
  qed (use j in \<open>simp add: finalize_one_def\<close>)
  then show "cancel_justified cmds r \<Longrightarrow> ?thesis" unfolding finalize_children_def by (intro foldl_justified)
qed

lemma poll_justified: "cancel_justified cmds r \<Longrightarrow> cancel_justified cmds (poll_once os r)"
proof -
  have "cancel_justified cmds (service os rev r fd)" if "cancel_justified cmds r" for rev r fd
    using that by (simp add: service_def drain_justified split: option.splits)
  then show "cancel_justified cmds r \<Longrightarrow> ?thesis" unfolding poll_once_def by (intro foldl_justified) simp_all
qed

lemma reactor_turn_justified:
  assumes "cancel_justified cmds r" "set (r_queue r) \<subseteq> set cmds"
  shows "cancel_justified cmds (snd (reactor_turn os r))"
proof -
  have q: "cancel_justified cmds (r\<lparr>r_queue := []\<rparr>)" using assms(1) by (simp add: cancel_justified_def)
  have d: "cancel_justified cmds (drain_commands os r)"
    unfolding drain_commands_def
    by (rule foldl_justified [OF _ q], rule handle_command_justified) (use assms(2) in auto)
  have f: "cancel_justified cmds
      (finalize_children os (enforce_deadlines os (reap_children os (drain_commands os r))))"
    using d by (intro finalize_justified enforce_justified reap_justified)
  show ?thesis using d f poll_justified [OF f, of os] by (simp add: reactor_turn_def Let_def)
qed

lemma reactor_turn_queue: "r_queue (snd (reactor_turn os r)) = []"
proof -
  have c: "r_queue (handle_command os r c) = r_queue r" for r c
  proof (cases c)
    case (kLaunch h spec cbs)
    then show ?thesis
      by (simp add: handle_launch_def report_spawn_failure_def emit_def tick_def Let_def split: option.splits SpawnAnswer.splits)
  qed (use terminate_quiet shutdown_quiet in \<open>auto simp: quiet_def\<close>)
  have "r_queue (foldl (handle_command os) r cs) = r_queue r" for cs r
    by (induction cs arbitrary: r) (simp_all add: c)
  then have d: "r_queue (drain_commands os r) = []" by (simp add: drain_commands_def)
  have f1: "r_queue (finalize_one os r h) = r_queue r" for r h
    by (simp add: finalize_one_def Let_def emit_def tick_def split: option.splits)
  have "r_queue (foldl (finalize_one os) r hs) = r_queue r" for hs r
    by (induction hs arbitrary: r) (simp_all add: f1)
  then have f: "r_queue (finalize_children os r) = r_queue r" for r by (simp add: finalize_children_def)
  show ?thesis using d f poll_quiet enforce_quiet reap_quiet unfolding quiet_def
    by (simp add: reactor_turn_def Let_def)
qed

lemma reach_justified:
  "(rstep os)\<^sup>*\<^sup>* (runner_start grace) x \<Longrightarrow>
   (case x of (cmds, stopped, r) \<Rightarrow> cancel_justified cmds r \<and> set (r_queue r) \<subseteq> set cmds)"
proof (induction rule: rtranclp_induct)
  case base
  show ?case by (simp add: runner_start_def Runner_new_def cancel_justified_def)
next
  case (step x y)
  have grow: "cancel_justified (cmds @ more) r" if "cancel_justified cmds r" for cmds more r
    using that by (fastforce simp: cancel_justified_def cancel_asked_def)
  have same: "cancel_justified cmds (r\<lparr>r_queue := q\<rparr>) = cancel_justified cmds r"
    "cancel_justified cmds (r\<lparr>r_next_handle := n\<rparr>) = cancel_justified cmds r"
    "cancel_justified cmds (r\<lparr>r_active := n\<rparr>) = cancel_justified cmds r" for cmds r q n
    by (simp_all add: cancel_justified_def)
  from step(2) show ?case
  proof (cases rule: rstep.cases)
    case (r_turn r stopped r' cmds)
    then show ?thesis using step.IH reactor_turn_justified [of cmds r os] reactor_turn_queue [of os r] by simp
  next
    case (r_launch spec cbs r h r' cmds stopped)
    then show ?thesis using step.IH grow by (auto simp: launch_def same split: if_splits)
  next
    case (r_refuse spec cbs r r' cmds stopped)
    then have "r' = r \<or> r_next_handle r = 0" by (auto simp: launch_def kInvalidHandle_def split: if_splits)
    moreover have "r_next_handle r \<noteq> 0" using reach_sys_ok [OF step(1)] r_refuse by (simp add: sys_ok_def accounted_def)
    ultimately show ?thesis using step.IH r_refuse by simp
  next
    case (r_terminate cmds stopped r h b)
    then show ?thesis using step.IH grow by (auto simp: request_terminate_def same)
  next
    case (r_shutdown cmds stopped r)
    then show ?thesis using step.IH grow by (auto simp: request_shutdown_def same)
  qed
qed

section \<open>Shutting down\<close>

lemma reactor_turn_stops:
  assumes "reactor_turn os r = (True, r')"
  shows "r_children r' = []" "\<not> r_running r'"
  using assms by (auto simp: reactor_turn_def Let_def split: if_splits)

lemma reach_stopped:
  "(rstep os)\<^sup>*\<^sup>* (runner_start grace) x \<Longrightarrow>
   (case x of (cmds, stopped, r) \<Rightarrow> stopped \<longrightarrow> \<not> r_running r \<and> handles r = [] \<and> launches (r_queue r) = [])"
proof (induction rule: rtranclp_induct)
  case base
  show ?case by (simp add: runner_start_def)
next
  case (step x y)
  from step(2) show ?case
  proof (cases rule: rstep.cases)
    case (r_turn r stopped r' cmds)
    then show ?thesis
      using reactor_turn_stops [of os r r'] reactor_turn_queue [of os r] by (auto simp: handles_def)
  qed (use step.IH in \<open>auto simp: launch_def request_terminate_def request_shutdown_def handles_def kInvalidHandle_def
        split: if_splits\<close>)
qed

section \<open>Deadlines\<close>

text \<open>What one pass of \<^verbatim>\<open>enforce_deadlines\<close> at time \<open>t\<close> does to a child.\<close>

definition escalate :: "Millis \<Rightarrow> TimePoint \<Rightarrow> Child \<Rightarrow> Child" where
  "escalate grace t c =
     (if ch_exited c then c
      else if ch_term_stage c = 0 \<and> (case ch_deadline c of Some d \<Rightarrow> d \<le> t | None \<Rightarrow> False)
      then c\<lparr>ch_term_stage := 1, ch_term_sent_at := t, ch_forced := True, ch_forced_outcome := poTimedOut\<rparr>
      else if ch_term_stage c = 1 \<and> grace * ticks_per_ms \<le> t - ch_term_sent_at c then c\<lparr>ch_term_stage := 2\<rparr>
      else c)"

lemma map_modify_absent: "map_of kvs h = None \<Longrightarrow> map_modify h f kvs = kvs"
  by (induction kvs) (auto split: if_splits)

lemma map_modify_cong: "map_of kvs h = Some c \<Longrightarrow> f c = g c \<Longrightarrow> map_modify h f kvs = map_modify h g kvs"
  by (induction kvs) (auto split: if_splits)

lemma map_modify_id: "map_modify h (\<lambda>c. c) kvs = kvs"
  by (induction kvs) auto

lemma enforce_one_children:
  "r_children (enforce_one t r h) = map_modify h (escalate (r_terminate_grace r) t) (r_children r) \<and>
   r_terminate_grace (enforce_one t r h) = r_terminate_grace r"
proof (cases "child r h")
  case None
  then show ?thesis by (simp add: enforce_one_def child_def map_modify_absent)
next
  case (Some c)
  let ?f = "escalate (r_terminate_grace r) t"
  have m: "map_of (r_children r) h = Some c" using Some by (simp add: child_def)
  have same: "r_children r = map_modify h ?f (r_children r)" if "?f c = c"
    using map_modify_cong [OF m, of ?f "\<lambda>c. c"] that by (simp add: map_modify_id)
  consider (exited) "ch_exited c"
    | (late) d where "\<not> ch_exited c" "ch_term_stage c = 0" "ch_deadline c = Some d" "d \<le> t"
    | (grace) "\<not> ch_exited c" "ch_term_stage c = 1" "r_terminate_grace r * ticks_per_ms \<le> t - ch_term_sent_at c"
    | (wait) "\<not> ch_exited c" "\<not> (ch_term_stage c = 0 \<and> (case ch_deadline c of Some d \<Rightarrow> d \<le> t | None \<Rightarrow> False))"
        "\<not> (ch_term_stage c = 1 \<and> r_terminate_grace r * ticks_per_ms \<le> t - ch_term_sent_at c)"
    by (cases "ch_deadline c") (fastforce simp del: One_nat_def)+
  then show ?thesis
  proof cases
    case exited
    then show ?thesis using Some same by (simp add: enforce_one_def escalate_def)
  next
    case late
    then have "map_modify h ?f (r_children r) = map_modify h (\<lambda>c. c\<lparr>ch_term_stage := 1, ch_term_sent_at := t,
        ch_forced := True, ch_forced_outcome := poTimedOut\<rparr>) (r_children r)"
      by (intro map_modify_cong [OF m]) (simp add: escalate_def)
    with late show ?thesis using Some
      by (simp add: enforce_one_def upd_child_def emit_def)
  next
    case grace
    then have "map_modify h ?f (r_children r) = map_modify h (\<lambda>c. c\<lparr>ch_term_stage := 2\<rparr>) (r_children r)"
      by (intro map_modify_cong [OF m]) (simp add: escalate_def)
    with grace show ?thesis using Some
      by (simp add: enforce_one_def upd_child_def emit_def split: option.splits)
  next
    case wait
    then have "enforce_one t r h = r" using Some by (auto simp: enforce_one_def split: option.splits)
    moreover have "?f c = c" using wait by (auto simp: escalate_def)
    ultimately show ?thesis using same by simp
  qed
qed

lemma map_modify_map:
  "distinct (map fst kvs) \<Longrightarrow> map_modify h f kvs = map (\<lambda>(k, c). (k, if k = h then f c else c)) kvs"
proof (induction kvs)
  case (Cons kv kvs)
  obtain k c where kv: "kv = (k, c)" by (cases kv)
  have "map (\<lambda>(k, c). (k, if k = h then f c else c)) kvs = kvs" if "k = h"
    using Cons.prems that by (intro map_idI) (force simp: kv)
  with Cons show ?case by (cases "k = h") (simp_all add: kv)
qed simp

lemma enforce_deadlines_children:
  assumes "distinct (handles r)"
  shows "r_children (enforce_deadlines os r) =
    map (\<lambda>(h, c). (h, escalate (r_terminate_grace r) (os_now os (r_tick r)) c)) (r_children r)"
proof -
  let ?t = "os_now os (r_tick r)"
  have *: "r_children (foldl (enforce_one ?t) r' hs) =
      map (\<lambda>(h, c). (h, if h \<in> set hs then escalate (r_terminate_grace r') ?t c else c)) (r_children r')"
    if "distinct (map fst (r_children r'))" "distinct hs" for r' hs
    using that
  proof (induction hs arbitrary: r')
    case Nil
    show ?case by (simp add: case_prod_unfold)
  next
    case (Cons h hs)
    let ?f = "escalate (r_terminate_grace r') ?t" and ?r = "enforce_one ?t r' h"
    have e: "r_children ?r = map (\<lambda>(k, c). (k, if k = h then ?f c else c)) (r_children r')"
      "r_terminate_grace ?r = r_terminate_grace r'"
      using enforce_one_children [of ?t r' h] map_modify_map [OF Cons.prems(1)] by simp_all
    have "distinct (map fst (r_children ?r))" using Cons.prems(1) by (simp add: e case_prod_unfold o_def)
    with Cons have "r_children (foldl (enforce_one ?t) ?r hs) =
      map (\<lambda>(h, c). (h, if h \<in> set hs then escalate (r_terminate_grace ?r) ?t c else c)) (r_children ?r)" by simp
    then have "r_children (foldl (enforce_one ?t) ?r hs) =
      map (\<lambda>(h, c). (h, if h \<in> set hs then ?f c else c)) (r_children ?r)" unfolding e(2) .
    then show ?case using Cons.prems(2) by (auto simp: e)
  qed
  have "distinct (map fst (r_children (tick r)))" using assms by (simp add: handles_def tick_def)
  from * [OF this, of "map fst (r_children r)"] this show ?thesis
    by (auto simp: enforce_deadlines_def tick_def intro!: map_cong) (force)
qed

section \<open>How long the reactor sleeps\<close>

lemma consider_le:
  "foldl consider_time e ts = Some m \<Longrightarrow> (\<forall>x \<in> set ts. m \<le> x) \<and> (\<forall>x. e = Some x \<longrightarrow> m \<le> x)"
proof (induction ts arbitrary: e)
  case (Cons t ts)
  then have "(\<forall>x \<in> set ts. m \<le> x) \<and> (\<forall>x. consider_time e t = Some x \<longrightarrow> m \<le> x)" by simp
  then show ?case by (auto simp: consider_time_def split: option.splits if_splits)
qed simp

lemma consider_some: "e \<noteq> None \<or> ts \<noteq> [] \<Longrightarrow> foldl consider_time e ts \<noteq> None"
proof (induction ts arbitrary: e)
  case (Cons t ts)
  have "consider_time e t \<noteq> None" by (simp add: consider_time_def split: option.splits)
  with Cons.IH [of "consider_time e t"] show ?case by simp
qed simp

lemma next_timeout_range: "-1 \<le> next_timeout_ms t r \<and> next_timeout_ms t r \<le> 1000"
  by (simp add: next_timeout_ms_def Let_def split: option.splits)

lemma next_timeout_overdue:
  assumes "(h, c) \<in> set (r_children r)" "w \<in> set (wake_times (r_terminate_grace r) c)" "w \<le> t"
  shows "next_timeout_ms t r = 0"
proof -
  let ?ts = "concat (map (\<lambda>(h, c). wake_times (r_terminate_grace r) c) (r_children r))"
  have w: "w \<in> set ?ts" using assms(1,2) by fastforce
  then obtain m where m: "foldl consider_time None ?ts = Some m" using consider_some [of None ?ts] by fastforce
  then have "m \<le> t" using consider_le [OF m] w assms(3) by fastforce
  then have "trunc_div (m - t) ticks_per_ms \<le> 0"
    by (cases "m = t") (simp_all add: trunc_div_def ticks_per_ms_def sgn_if pos_imp_zdiv_nonneg_iff)
  then show ?thesis by (simp add: next_timeout_ms_def m)
qed

end
