(* ===== verification/Pipeline_Document.thy ===== *)
theory Pipeline_Document
  imports Json Artifacts
begin

text \<open>
  Reading and writing pipeline documents, \<^verbatim>\<open>src/src/core/serialization/pipeline_document.cpp\<close>.
  Parsing and printing JSON texts is the codec's job (theory \<open>Json\<close>); everything the program
  does with the parsed document is modelled, every reported error included. A reader returns
  the errors it appended and its value.
\<close>

section \<open>Errors and typed field accessors\<close>

record LoadError =
  le_location :: string
  le_message :: string

record LoadResult =
  lr_pipeline :: "PipelineDefinition option"
  lr_errors :: "LoadError list"

definition lr_ok :: "LoadResult \<Rightarrow> bool" where
  "lr_ok r \<longleftrightarrow> lr_pipeline r \<noteq> None \<and> lr_errors r = []"

definition LoadError_to_string :: "LoadError \<Rightarrow> string" where
  "LoadError_to_string e = (if le_location e = [] then le_message e else le_location e @ '': '' @ le_message e)"

type_synonym 'a reader = "LoadError list \<times> 'a"

definition load_error :: "string \<Rightarrow> string \<Rightarrow> LoadError" where
  "load_error location message = \<lparr>le_location = location, le_message = message\<rparr>"

definition kSupportedSchemaVersion :: int where "kSupportedSchemaVersion = 1"

text \<open>The narrowing casts \<^verbatim>\<open>static_cast<int>\<close> and \<^verbatim>\<open>get<std::int64_t>\<close> of an unsigned value.\<close>

definition to_int32 :: "int \<Rightarrow> int" where
  "to_int32 v = (v + 2 ^ 31) mod 2 ^ 32 - 2 ^ 31"

definition to_int64 :: "int \<Rightarrow> int" where
  "to_int64 v = (v + 2 ^ 63) mod 2 ^ 64 - 2 ^ 63"

definition at_key :: "string \<Rightarrow> string \<Rightarrow> string" where
  "at_key loc key = loc @ ''.'' @ key"

definition at_index :: "string \<Rightarrow> nat \<Rightarrow> string" where
  "at_index loc i = loc @ ''['' @ to_string_int (int i) @ '']''"

text \<open>\<^verbatim>\<open>contains(key)\<close> with a member that is not null.\<close>

definition member :: "Json \<Rightarrow> string \<Rightarrow> Json option" where
  "member parent key = (case jfind parent key of Some JNull \<Rightarrow> None | v \<Rightarrow> v)"

definition as_string :: "Json \<Rightarrow> string \<Rightarrow> string \<Rightarrow> bool \<Rightarrow> string option reader" where
  "as_string parent key loc required =
     (case member parent key of
        None \<Rightarrow> (if required then [load_error (at_key loc key) ''required string field is missing''] else [], None)
      | Some (JStr s) \<Rightarrow> ([], Some s)
      | Some _ \<Rightarrow> ([load_error (at_key loc key) ''expected a string''], None))"

definition as_int :: "Json \<Rightarrow> string \<Rightarrow> string \<Rightarrow> int option reader" where
  "as_int parent key loc =
     (case member parent key of
        None \<Rightarrow> ([], None)
      | Some (JInt i) \<Rightarrow> ([], Some (to_int64 i))
      | Some _ \<Rightarrow> ([load_error (at_key loc key) ''expected an integer''], None))"

definition as_double :: "Json \<Rightarrow> string \<Rightarrow> string \<Rightarrow> rat option reader" where
  "as_double parent key loc =
     (case member parent key of
        None \<Rightarrow> ([], None)
      | Some (JInt i) \<Rightarrow> ([], Some (of_int i))
      | Some (JFloat x) \<Rightarrow> ([], Some x)
      | Some _ \<Rightarrow> ([load_error (at_key loc key) ''expected a number''], None))"

definition as_bool :: "Json \<Rightarrow> string \<Rightarrow> string \<Rightarrow> bool option reader" where
  "as_bool parent key loc =
     (case member parent key of
        None \<Rightarrow> ([], None)
      | Some (JBool b) \<Rightarrow> ([], Some b)
      | Some _ \<Rightarrow> ([load_error (at_key loc key) ''expected a boolean''], None))"

fun string_items :: "string \<Rightarrow> nat \<Rightarrow> Json list \<Rightarrow> string list reader" where
  "string_items loc i [] = ([], [])"
| "string_items loc i (JStr s # vs) = (let (es, out) = string_items loc (Suc i) vs in (es, s # out))"
| "string_items loc i (v # vs) =
     (let (es, out) = string_items loc (Suc i) vs in (load_error (at_index loc i) ''expected a string'' # es, out))"

definition as_string_array :: "Json \<Rightarrow> string \<Rightarrow> string \<Rightarrow> string list reader" where
  "as_string_array parent key loc =
     (case member parent key of
        None \<Rightarrow> ([], [])
      | Some (JArr vs) \<Rightarrow> string_items (at_key loc key) 0 vs
      | Some _ \<Rightarrow> ([load_error (at_key loc key) ''expected an array of strings''], []))"

section \<open>Parts of a task\<close>

definition parse_retry :: "Json \<Rightarrow> RetryPolicy \<Rightarrow> string \<Rightarrow> RetryPolicy reader" where
  "parse_retry parent base loc =
     (case jfind parent ''retry'' of
        None \<Rightarrow> ([], base)
      | Some (JObj r) \<Rightarrow>
          let rl = at_key loc ''retry'';
              (e1, v1) = as_int (JObj r) ''max_retries'' rl;
              (e2, v2) = as_int (JObj r) ''base_delay_ms'' rl;
              (e3, v3) = as_int (JObj r) ''max_delay_ms'' rl;
              (e4, v4) = as_double (JObj r) ''backoff_multiplier'' rl
          in (e1 @ e2 @ e3 @ e4,
              base\<lparr>max_retries := (case v1 of Some v \<Rightarrow> to_int32 v | None \<Rightarrow> max_retries base),
                   base_delay := (case v2 of Some v \<Rightarrow> v | None \<Rightarrow> base_delay base),
                   max_delay := (case v3 of Some v \<Rightarrow> v | None \<Rightarrow> max_delay base),
                   backoff_multiplier := (case v4 of Some v \<Rightarrow> v | None \<Rightarrow> backoff_multiplier base)\<rparr>)
      | Some _ \<Rightarrow> ([load_error (at_key loc ''retry'') ''expected an object''], base))"

definition parse_resources :: "Json \<Rightarrow> ResourceRequirements \<Rightarrow> string \<Rightarrow> ResourceRequirements reader" where
  "parse_resources parent base loc =
     (case jfind parent ''resources'' of
        None \<Rightarrow> ([], base)
      | Some (JObj r) \<Rightarrow>
          let rl = at_key loc ''resources'';
              (e1, v1) = as_int (JObj r) ''cpu_cores'' rl;
              (e2, v2) = as_int (JObj r) ''memory_mb'' rl;
              (e3, v3) = as_int (JObj r) ''gpu_count'' rl
          in (e1 @ e2 @ e3,
              base\<lparr>cpu_cores := (case v1 of Some v \<Rightarrow> to_int32 v | None \<Rightarrow> cpu_cores base),
                   memory_mb := (case v2 of Some v \<Rightarrow> v | None \<Rightarrow> memory_mb base),
                   gpu_count := (case v3 of Some v \<Rightarrow> to_int32 v | None \<Rightarrow> gpu_count base)\<rparr>)
      | Some _ \<Rightarrow> ([load_error (at_key loc ''resources'') ''expected an object''], base))"

text \<open>The part of a path after its last slash or backslash.\<close>

definition base_name :: "string \<Rightarrow> string" where
  "base_name path = rev (takeWhile (\<lambda>c. c \<noteq> CHR ''/'' \<and> c \<noteq> CHR 0x5C) (rev path))"

definition artifact_object_message :: string where
  "artifact_object_message =
     ''expected a string or an object with '' @ [CHR 0x27] @ ''name'' @ [CHR 0x27] @ '' and ''
       @ [CHR 0x27] @ ''path'' @ [CHR 0x27]"

fun parse_artifact_item :: "string \<Rightarrow> Json \<Rightarrow> ArtifactDecl option reader" where
  "parse_artifact_item el (JStr path) =
     ([], Some \<lparr>decl_name = base_name path, decl_path = path, decl_checksum = False\<rparr>)"
| "parse_artifact_item el (JObj kvs) =
     (let (e1, p) = as_string (JObj kvs) ''path'' el True;
          (e2, n) = as_string (JObj kvs) ''name'' el False;
          (e3, c) = as_bool (JObj kvs) ''checksum'' el;
          path = (case p of Some v \<Rightarrow> v | None \<Rightarrow> [])
      in (e1 @ e2 @ e3,
          Some \<lparr>decl_name = (case n of Some v \<Rightarrow> v | None \<Rightarrow> if path \<noteq> [] then base_name path else []),
                decl_path = path, decl_checksum = (case c of Some v \<Rightarrow> v | None \<Rightarrow> False)\<rparr>))"
| "parse_artifact_item el _ = ([load_error el artifact_object_message], None)"

fun artifact_items :: "string \<Rightarrow> nat \<Rightarrow> Json list \<Rightarrow> ArtifactDecl list reader" where
  "artifact_items loc i [] = ([], [])"
| "artifact_items loc i (v # vs) =
     (let (e, d) = parse_artifact_item (at_index loc i) v;
          (es, out) = artifact_items loc (Suc i) vs
      in (e @ es, case d of Some x \<Rightarrow> x # out | None \<Rightarrow> out))"

definition parse_artifacts :: "Json \<Rightarrow> string \<Rightarrow> string \<Rightarrow> ArtifactDecl list reader" where
  "parse_artifacts parent key loc =
     (case member parent key of
        None \<Rightarrow> ([], [])
      | Some (JArr vs) \<Rightarrow> artifact_items (at_key loc key) 0 vs
      | Some _ \<Rightarrow> ([load_error (at_key loc key) ''expected an array''], []))"

fun env_items :: "string \<Rightarrow> (string \<times> Json) list \<Rightarrow> EnvVar list reader" where
  "env_items loc [] = ([], [])"
| "env_items loc ((k, JStr v) # kvs) = (let (es, out) = env_items loc kvs in (es, (k, v) # out))"
| "env_items loc ((k, _) # kvs) =
     (let (es, out) = env_items loc kvs in (load_error (at_key loc k) ''expected a string'' # es, out))"

definition parse_env :: "Json \<Rightarrow> string \<Rightarrow> EnvVar list reader" where
  "parse_env tj tloc =
     (case jfind tj ''env'' of
        None \<Rightarrow> ([], [])
      | Some (JObj kvs) \<Rightarrow> env_items (at_key tloc ''env'') kvs
      | Some _ \<Rightarrow> ([load_error (at_key tloc ''env'') ''expected an object of string values''], []))"

section \<open>Defaults\<close>

record Defaults =
  df_interpreter :: string
  df_retry :: RetryPolicy
  df_resources :: ResourceRequirements
  df_timeout :: "Millis option"
  df_cache :: bool

definition Defaults_init :: Defaults where
  "Defaults_init =
     \<lparr>df_interpreter = ''python3'', df_retry = RetryPolicy_none, df_resources = single_core,
      df_timeout = None, df_cache = True\<rparr>"

definition parse_defaults :: "Json \<Rightarrow> Defaults reader" where
  "parse_defaults doc =
     (case jfind doc ''defaults'' of
        None \<Rightarrow> ([], Defaults_init)
      | Some (JObj kvs) \<Rightarrow>
          let dj = JObj kvs;
              (e1, s) = as_string dj ''python_interpreter'' ''defaults'' False;
              (e2, r) = parse_retry dj (df_retry Defaults_init) ''defaults'';
              (e3, q) = parse_resources dj (df_resources Defaults_init) ''defaults'';
              (e4, t) = as_int dj ''timeout_ms'' ''defaults'';
              (e5, b) = as_bool dj ''cache'' ''defaults''
          in (e1 @ e2 @ e3 @ e4 @ e5,
              \<lparr>df_interpreter = (case s of Some v \<Rightarrow> v | None \<Rightarrow> df_interpreter Defaults_init),
               df_retry = r, df_resources = q, df_timeout = t,
               df_cache = (case b of Some v \<Rightarrow> v | None \<Rightarrow> df_cache Defaults_init)\<rparr>)
      | Some _ \<Rightarrow> ([load_error ''defaults'' ''expected an object''], Defaults_init))"

section \<open>Tasks\<close>

definition unknown_type_message :: "string \<Rightarrow> string" where
  "unknown_type_message s =
     ''unknown task type '' @ [CHR 0x27] @ s @ [CHR 0x27] @ '' (expected '' @ [CHR 0x27] @ ''python'' @ [CHR 0x27]
       @ '' or '' @ [CHR 0x27] @ ''executable'' @ [CHR 0x27] @ '')''"

definition parse_type :: "Json \<Rightarrow> string \<Rightarrow> TaskType reader" where
  "parse_type tj tloc =
     (let (e, s) = as_string tj ''type'' tloc True in
      case s of
        None \<Rightarrow> (e, ttExecutable)
      | Some txt \<Rightarrow>
          (case parse_task_type txt of
             None \<Rightarrow> (e @ [load_error (at_key tloc ''type'') (unknown_type_message txt)], ttExecutable)
           | Some ty \<Rightarrow> (e, ty)))"

definition parse_program :: "Json \<Rightarrow> string \<Rightarrow> string \<Rightarrow> TaskType \<Rightarrow> (string \<times> string) reader" where
  "parse_program tj tloc dflt ty =
     (if ty = ttPython
      then let (e1, i) = as_string tj ''interpreter'' tloc False;
               (e2, s) = as_string tj ''script'' tloc True
           in (e1 @ e2, (case i of Some v \<Rightarrow> v | None \<Rightarrow> dflt, case s of Some v \<Rightarrow> v | None \<Rightarrow> []))
      else let (e, x) = as_string tj ''executable'' tloc True in (e, (case x of Some v \<Rightarrow> v | None \<Rightarrow> [], [])))"

definition parse_timeout :: "Json \<Rightarrow> string \<Rightarrow> Millis option \<Rightarrow> Millis option reader" where
  "parse_timeout tj tloc dflt =
     (if member tj ''timeout_ms'' \<noteq> None then as_int tj ''timeout_ms'' tloc else ([], dflt))"

text \<open>One element of \<^verbatim>\<open>tasks\<close>: the task and the edges its \<^verbatim>\<open>depends_on\<close> adds.\<close>

definition parse_task :: "Defaults \<Rightarrow> string \<Rightarrow> Json \<Rightarrow> (TaskDefinition \<times> Edge list) option reader" where
  "parse_task df tloc tj =
     (case tj of
        JObj kvs \<Rightarrow>
          let (e1, id) = as_string tj ''id'' tloc True;
              tid = (case id of Some v \<Rightarrow> v | None \<Rightarrow> []);
              (e2, n) = as_string tj ''name'' tloc False;
              (e3, ty) = parse_type tj tloc;
              (e4, prog, script) = parse_program tj tloc (df_interpreter df) ty;
              (e5, args) = as_string_array tj ''arguments'' tloc;
              (e6, env) = parse_env tj tloc;
              (e7, wd) = as_string tj ''working_directory'' tloc False;
              (e8, ins) = parse_artifacts tj ''inputs'' tloc;
              (e9, outs) = parse_artifacts tj ''outputs'' tloc;
              (e10, rt) = parse_retry tj (df_retry df) tloc;
              (e11, rs) = parse_resources tj (df_resources df) tloc;
              (e12, tmo) = parse_timeout tj tloc (df_timeout df);
              (e13, prio) = as_int tj ''priority'' tloc;
              (e14, ca) = as_bool tj ''cache'' tloc;
              (e15, deps) = as_string_array tj ''depends_on'' tloc
          in (e1 @ e2 @ e3 @ e4 @ e5 @ e6 @ e7 @ e8 @ e9 @ e10 @ e11 @ e12 @ e13 @ e14 @ e15,
              Some (\<lparr>td_id = tid, td_name = (case n of Some v \<Rightarrow> v | None \<Rightarrow> tid), td_type = ty, td_program = prog,
                     td_script = script, td_arguments = args, td_environment = env,
                     td_working_directory = (case wd of Some v \<Rightarrow> v | None \<Rightarrow> []), td_inputs = ins,
                     td_outputs = outs, td_retry = rt, td_resources = rs, td_timeout = tmo,
                     td_priority = to_int32 (case prio of Some v \<Rightarrow> v | None \<Rightarrow> 0),
                     td_cache_enabled = (case ca of Some v \<Rightarrow> v | None \<Rightarrow> df_cache df)\<rparr>,
                    map (\<lambda>dep. \<lparr>edge_from = dep, edge_to = tid\<rparr>) deps))
      | _ \<Rightarrow> ([load_error tloc ''expected an object''], None))"

fun task_items :: "Defaults \<Rightarrow> nat \<Rightarrow> Json list \<Rightarrow> (TaskDefinition list \<times> Edge list) reader" where
  "task_items df i [] = ([], ([], []))"
| "task_items df i (v # vs) =
     (let (e, t) = parse_task df (at_index ''tasks'' i) v;
          (es, (ts, eds)) = task_items df (Suc i) vs
      in (e @ es, case t of Some (x, ed) \<Rightarrow> (x # ts, ed @ eds) | None \<Rightarrow> (ts, eds)))"

definition parse_tasks :: "Json \<Rightarrow> Defaults \<Rightarrow> (TaskDefinition list \<times> Edge list) reader" where
  "parse_tasks doc df =
     (case jfind doc ''tasks'' of
        Some (JArr vs) \<Rightarrow>
          let (es, r) = task_items df 0 vs
          in ((if vs = [] then [load_error ''tasks'' ''a pipeline must define at least one task''] else []) @ es, r)
      | _ \<Rightarrow> ([load_error ''tasks'' ''required array field is missing or not an array''], ([], [])))"

section \<open>Explicit dependencies\<close>

definition from_to_message :: string where
  "from_to_message =
     ''expected an object with '' @ [CHR 0x27] @ ''from'' @ [CHR 0x27] @ '' and '' @ [CHR 0x27] @ ''to'' @ [CHR 0x27]"

fun parse_dependency :: "string \<Rightarrow> Json \<Rightarrow> Edge list reader" where
  "parse_dependency dl (JObj kvs) =
     (let (e1, f) = as_string (JObj kvs) ''from'' dl True;
          (e2, t) = as_string (JObj kvs) ''to'' dl True
      in (e1 @ e2, case (f, t) of (Some a, Some b) \<Rightarrow> [\<lparr>edge_from = a, edge_to = b\<rparr>] | _ \<Rightarrow> []))"
| "parse_dependency dl _ = ([load_error dl from_to_message], [])"

fun dependency_items :: "nat \<Rightarrow> Json list \<Rightarrow> Edge list reader" where
  "dependency_items i [] = ([], [])"
| "dependency_items i (v # vs) =
     (let (e, d) = parse_dependency (at_index ''dependencies'' i) v;
          (es, ds) = dependency_items (Suc i) vs
      in (e @ es, d @ ds))"

definition parse_dependencies :: "Json \<Rightarrow> Edge list reader" where
  "parse_dependencies doc =
     (case jfind doc ''dependencies'' of
        None \<Rightarrow> ([], [])
      | Some (JArr vs) \<Rightarrow> dependency_items 0 vs
      | Some _ \<Rightarrow> ([load_error ''dependencies'' ''expected an array''], []))"

section \<open>The whole document\<close>

definition version_message :: "int \<Rightarrow> string" where
  "version_message v =
     ''unsupported schema version '' @ to_string_int v @ '' (this build understands version ''
       @ to_string_int kSupportedSchemaVersion @ '')''"

definition load_document :: "Json \<Rightarrow> string \<Rightarrow> LoadError list \<times> PipelineDefinition" where
  "load_document doc base_directory =
     (let (e1, v) = as_int doc ''schema_version'' [];
          e2 = (case v of Some x \<Rightarrow> if x \<noteq> kSupportedSchemaVersion
                                    then [load_error ''schema_version'' (version_message x)] else [] | None \<Rightarrow> []);
          (e3, n) = as_string doc ''name'' [] True;
          e4 = (if n = Some [] then [load_error ''name'' ''pipeline name must not be empty''] else []);
          (e5, d) = as_string doc ''description'' [] False;
          (e6, c) = as_int doc ''max_concurrency'' [];
          (e7, df) = parse_defaults doc;
          (e8, ts, eds) = parse_tasks doc df;
          (e9, deps) = parse_dependencies doc
      in (e1 @ e2 @ e3 @ e4 @ e5 @ e6 @ e7 @ e8 @ e9,
          \<lparr>pd_schema_version = (case v of Some x \<Rightarrow> to_int32 x | None \<Rightarrow> 1),
           pd_name = (case n of Some x \<Rightarrow> x | None \<Rightarrow> []),
           pd_description = (case d of Some x \<Rightarrow> x | None \<Rightarrow> []), pd_base_directory = base_directory,
           pd_tasks = ts, pd_edges = eds @ deps,
           pd_max_concurrency = (case c of Some x \<Rightarrow> to_int32 x | None \<Rightarrow> 0)\<rparr>))"

definition load_pipeline_from_json :: "JsonCodec \<Rightarrow> string \<Rightarrow> string \<Rightarrow> LoadResult" where
  "load_pipeline_from_json codec text base_directory =
     (case parse codec text of
        None \<Rightarrow> \<lparr>lr_pipeline = None, lr_errors = [load_error [] ''document is not valid JSON'']\<rparr>
      | Some (JObj kvs) \<Rightarrow>
          let (es, p) = load_document (JObj kvs) base_directory
          in if es \<noteq> [] then \<lparr>lr_pipeline = None, lr_errors = es\<rparr>
             else \<lparr>lr_pipeline = Some p, lr_errors = []\<rparr>
      | Some _ \<Rightarrow> \<lparr>lr_pipeline = None, lr_errors = [load_error [] ''top-level value must be a JSON object'']\<rparr>)"

definition parent_path :: "string \<Rightarrow> string" where
  "parent_path p =
     (if CHR ''/'' \<notin> set p then []
      else let d = rev (dropWhile (\<lambda>c. c = CHR ''/'') (dropWhile (\<lambda>c. c \<noteq> CHR ''/'') (rev p)))
           in if d = [] then ''/'' else d)"

definition absolute_path :: "string \<Rightarrow> string \<Rightarrow> string" where
  "absolute_path cwd p = (if is_absolute p then p else path_append cwd p)"

definition load_pipeline_from_file ::
    "JsonCodec \<Rightarrow> (string \<Rightarrow> string option) \<Rightarrow> string \<Rightarrow> string \<Rightarrow> LoadResult" where
  "load_pipeline_from_file codec contents cwd file =
     (case contents file of
        None \<Rightarrow> \<lparr>lr_pipeline = None, lr_errors = [load_error [] (''cannot open pipeline file: '' @ file)]\<rparr>
      | Some text \<Rightarrow>
          let base = parent_path file
          in load_pipeline_from_json codec text (absolute_path cwd (if base = [] then cwd else base)))"

section \<open>Serialisation\<close>

definition obj_of :: "(string \<times> Json) list \<Rightarrow> (string \<times> Json) list" where
  "obj_of kvs = foldl (\<lambda>o1 (k, v). obj_set k v o1) [] kvs"

definition retry_to_json :: "RetryPolicy \<Rightarrow> Json" where
  "retry_to_json p = JObj (obj_of
     [(''max_retries'', JInt (max_retries p)), (''base_delay_ms'', JInt (base_delay p)),
      (''backoff_multiplier'', JFloat (backoff_multiplier p)), (''max_delay_ms'', JInt (max_delay p))])"

definition resources_to_json :: "ResourceRequirements \<Rightarrow> Json" where
  "resources_to_json r = JObj (obj_of
     [(''cpu_cores'', JInt (cpu_cores r)), (''memory_mb'', JInt (memory_mb r)), (''gpu_count'', JInt (gpu_count r))])"

definition artifacts_to_json :: "ArtifactDecl list \<Rightarrow> Json" where
  "artifacts_to_json decls = JArr (map (\<lambda>d. JObj (obj_of
     [(''name'', JStr (decl_name d)), (''path'', JStr (decl_path d)), (''checksum'', JBool (decl_checksum d))])) decls)"

definition task_to_json :: "TaskDefinition \<Rightarrow> Json" where
  "task_to_json t = JObj (obj_of
     ([(''id'', JStr (td_id t)), (''name'', JStr (td_name t)), (''type'', JStr (to_string_TaskType (td_type t)))]
      @ (if td_type t = ttPython then [(''interpreter'', JStr (td_program t)), (''script'', JStr (td_script t))]
         else [(''executable'', JStr (td_program t))])
      @ [(''arguments'', JArr (map JStr (td_arguments t)))]
      @ (if td_environment t \<noteq> [] then [(''env'', JObj (obj_of (map (\<lambda>(k, v). (k, JStr v)) (td_environment t))))] else [])
      @ (if td_working_directory t \<noteq> [] then [(''working_directory'', JStr (td_working_directory t))] else [])
      @ (if td_inputs t \<noteq> [] then [(''inputs'', artifacts_to_json (td_inputs t))] else [])
      @ (if td_outputs t \<noteq> [] then [(''outputs'', artifacts_to_json (td_outputs t))] else [])
      @ [(''retry'', retry_to_json (td_retry t)), (''resources'', resources_to_json (td_resources t))]
      @ (case td_timeout t of Some x \<Rightarrow> [(''timeout_ms'', JInt x)] | None \<Rightarrow> [])
      @ [(''priority'', JInt (td_priority t)), (''cache'', JBool (td_cache_enabled t))]))"

definition edge_to_json :: "Edge \<Rightarrow> Json" where
  "edge_to_json e = JObj (obj_of [(''from'', JStr (edge_from e)), (''to'', JStr (edge_to e))])"

definition pipeline_to_json :: "PipelineDefinition \<Rightarrow> (string \<times> Json) list" where
  "pipeline_to_json p = obj_of
     ([(''schema_version'', JInt (pd_schema_version p)), (''name'', JStr (pd_name p))]
      @ (if pd_description p \<noteq> [] then [(''description'', JStr (pd_description p))] else [])
      @ (if 0 < pd_max_concurrency p then [(''max_concurrency'', JInt (pd_max_concurrency p))] else [])
      @ [(''tasks'', JArr (map task_to_json (pd_tasks p))),
         (''dependencies'', JArr (map edge_to_json (pd_edges p)))])"

definition dump_pipeline :: "JsonCodec \<Rightarrow> PipelineDefinition \<Rightarrow> string" where
  "dump_pipeline codec p = dump codec (JObj (pipeline_to_json p))"

section \<open>Objects built member by member\<close>

lemma map_of_obj_set [simp]: "map_of (obj_set k v kvs) = (map_of kvs)(k \<mapsto> v)"
  by (induction kvs) (auto simp: fun_eq_iff)

lemma obj_of_snoc: "obj_of (kvs @ [(k, v)]) = obj_set k v (obj_of kvs)"
  by (simp add: obj_of_def)

lemma map_of_obj_of [simp]: "map_of (obj_of kvs) = map_of (rev kvs)"
  by (induction kvs rule: rev_induct) (auto simp: obj_of_snoc obj_of_def)

lemma obj_set_last: "\<forall>k' \<in> set (map fst kvs). k' < k \<Longrightarrow> obj_set k v kvs = kvs @ [(k, v)]"
  by (induction kvs) auto

lemma obj_of_sorted: "sorted_wrt (<) (map fst kvs) \<Longrightarrow> obj_of kvs = kvs"
proof (induction kvs rule: rev_induct)
  case Nil
  then show ?case by (simp add: obj_of_def)
next
  case (snoc kv kvs)
  then show ?case
    by (cases kv) (auto simp: obj_of_snoc sorted_wrt_append obj_set_last)
qed

section \<open>The fields of a canonical definition\<close>

definition in_int32 :: "int \<Rightarrow> bool" where
  "in_int32 v \<longleftrightarrow> - (2 ^ 31) \<le> v \<and> v < 2 ^ 31"

definition in_int64 :: "int \<Rightarrow> bool" where
  "in_int64 v \<longleftrightarrow> - (2 ^ 63) \<le> v \<and> v < 2 ^ 63"

text \<open>
  What the types of the code give of a task (the integer widths), what a document can
  express (the environment is an object, so one value per key in key order; only a Python
  task has a script).
\<close>

definition canonical_retry :: "RetryPolicy \<Rightarrow> bool" where
  "canonical_retry r \<longleftrightarrow> in_int32 (max_retries r) \<and> in_int64 (base_delay r) \<and> in_int64 (max_delay r)"

definition canonical_resources :: "ResourceRequirements \<Rightarrow> bool" where
  "canonical_resources r \<longleftrightarrow> in_int32 (cpu_cores r) \<and> in_int64 (memory_mb r) \<and> in_int32 (gpu_count r)"

definition canonical_task :: "TaskDefinition \<Rightarrow> bool" where
  "canonical_task t \<longleftrightarrow>
     (td_type t = ttExecutable \<longrightarrow> td_script t = []) \<and> sorted_wrt (<) (map fst (td_environment t)) \<and>
     canonical_retry (td_retry t) \<and> canonical_resources (td_resources t) \<and>
     (case td_timeout t of Some v \<Rightarrow> in_int64 v | None \<Rightarrow> True) \<and> in_int32 (td_priority t)"

definition canonical :: "PipelineDefinition \<Rightarrow> bool" where
  "canonical p \<longleftrightarrow>
     pd_schema_version p = kSupportedSchemaVersion \<and> pd_name p \<noteq> [] \<and> pd_tasks p \<noteq> [] \<and>
     in_int32 (pd_max_concurrency p) \<and> list_all canonical_task (pd_tasks p)"

lemma to_int32_id [simp]: "in_int32 v \<Longrightarrow> to_int32 v = v"
  by (simp add: in_int32_def to_int32_def)

lemma to_int64_id [simp]: "in_int64 v \<Longrightarrow> to_int64 v = v"
  by (simp add: in_int64_def to_int64_def)

lemma in_int32_to_int32 [simp]: "in_int32 (to_int32 v)"
  by (simp add: in_int32_def to_int32_def)

lemma in_int64_to_int64 [simp]: "in_int64 (to_int64 v)"
  by (simp add: in_int64_def to_int64_def)

lemma in_int32_64 [simp]: "in_int32 v \<Longrightarrow> in_int64 v"
  by (simp add: in_int32_def in_int64_def)

section \<open>Reading back what was written\<close>

lemmas reader_defs = as_string_def as_int_def as_double_def as_bool_def as_string_array_def member_def

lemma parse_retry_back:
  "jfind tj ''retry'' = Some (retry_to_json r) \<Longrightarrow> canonical_retry r \<Longrightarrow> parse_retry tj base loc = ([], r)"
  by (simp add: parse_retry_def retry_to_json_def reader_defs canonical_retry_def)

lemma parse_resources_back:
  "jfind tj ''resources'' = Some (resources_to_json r) \<Longrightarrow> canonical_resources r \<Longrightarrow> parse_resources tj base loc = ([], r)"
  by (simp add: parse_resources_def resources_to_json_def reader_defs canonical_resources_def)

lemma string_items_back: "string_items loc i (map JStr xs) = ([], xs)"
  by (induction xs arbitrary: i) auto

lemma artifact_items_back:
  "artifact_items loc i (map (\<lambda>d. JObj (obj_of [(''name'', JStr (decl_name d)), (''path'', JStr (decl_path d)),
     (''checksum'', JBool (decl_checksum d))])) ds) = ([], ds)"
  by (induction ds arbitrary: i) (auto simp: reader_defs)

lemma env_items_back: "env_items loc (map (\<lambda>(k, v). (k, JStr v)) env) = ([], env)"
  by (induction env) auto

lemma parse_artifacts_back:
  "jfind tj key = (if ds \<noteq> [] then Some (artifacts_to_json ds) else None) \<Longrightarrow> parse_artifacts tj key loc = ([], ds)"
  by (auto simp: parse_artifacts_def member_def artifacts_to_json_def artifact_items_back)

lemma env_object: "sorted_wrt (<) (map fst env) \<Longrightarrow>
    obj_of (map (\<lambda>(k, v). (k, JStr v)) env) = map (\<lambda>(k, v). (k, JStr v)) env"
  by (rule obj_of_sorted) (simp add: comp_def case_prod_unfold)

lemma parse_env_back:
  "jfind tj ''env'' = (if env \<noteq> [] then Some (JObj (obj_of (map (\<lambda>(k, v). (k, JStr v)) env))) else None) \<Longrightarrow>
   sorted_wrt (<) (map fst env) \<Longrightarrow> parse_env tj tloc = ([], env)"
  by (auto simp: parse_env_def env_object env_items_back)

text \<open>Members that may be absent, as one table of optional values.\<close>

fun present :: "(string \<times> Json option) list \<Rightarrow> (string \<times> Json) list" where
  "present [] = []"
| "present ((k, v) # kvs) = (case v of None \<Rightarrow> [] | Some x \<Rightarrow> [(k, x)]) @ present kvs"

lemma present_none: "k \<notin> set (map fst kvs) \<Longrightarrow> map_of (rev (present kvs)) k = None"
  by (induction kvs rule: present.induct) (auto simp: map_add_def split: option.split)

lemma map_of_present:
  "distinct (map fst kvs) \<Longrightarrow> map_of (rev (present kvs)) k = Option.bind (map_of kvs k) id"
proof (induction kvs rule: present.induct)
  case (2 k' v kvs)
  then show ?case
    using present_none [of k' kvs] by (cases v) (auto simp: map_add_def split: option.split)
qed simp

definition given :: "bool \<Rightarrow> Json \<Rightarrow> Json option" where
  "given b v = (if b then Some v else None)"

lemma task_to_json_present:
  "task_to_json t = JObj (obj_of (present
     [(''id'', Some (JStr (td_id t))), (''name'', Some (JStr (td_name t))), (''type'', Some (JStr (to_string_TaskType (td_type t)))),
      (''interpreter'', given (td_type t = ttPython) (JStr (td_program t))), (''script'', given (td_type t = ttPython) (JStr (td_script t))),
      (''executable'', given (td_type t \<noteq> ttPython) (JStr (td_program t))),
      (''arguments'', Some (JArr (map JStr (td_arguments t)))),
      (''env'', given (td_environment t \<noteq> []) (JObj (obj_of (map (\<lambda>(k, v). (k, JStr v)) (td_environment t))))),
      (''working_directory'', given (td_working_directory t \<noteq> []) (JStr (td_working_directory t))),
      (''inputs'', given (td_inputs t \<noteq> []) (artifacts_to_json (td_inputs t))),
      (''outputs'', given (td_outputs t \<noteq> []) (artifacts_to_json (td_outputs t))),
      (''retry'', Some (retry_to_json (td_retry t))), (''resources'', Some (resources_to_json (td_resources t))),
      (''timeout_ms'', map_option JInt (td_timeout t)), (''priority'', Some (JInt (td_priority t))),
      (''cache'', Some (JBool (td_cache_enabled t)))]))"
  unfolding task_to_json_def given_def by (cases "td_timeout t") simp_all

lemma task_member:
  "jfind (task_to_json t) ''id'' = Some (JStr (td_id t))"
  "jfind (task_to_json t) ''name'' = Some (JStr (td_name t))"
  "jfind (task_to_json t) ''type'' = Some (JStr (to_string_TaskType (td_type t)))"
  "jfind (task_to_json t) ''interpreter'' = (if td_type t = ttPython then Some (JStr (td_program t)) else None)"
  "jfind (task_to_json t) ''script'' = (if td_type t = ttPython then Some (JStr (td_script t)) else None)"
  "jfind (task_to_json t) ''executable'' = (if td_type t = ttPython then None else Some (JStr (td_program t)))"
  "jfind (task_to_json t) ''arguments'' = Some (JArr (map JStr (td_arguments t)))"
  "jfind (task_to_json t) ''env'' =
     (if td_environment t \<noteq> [] then Some (JObj (obj_of (map (\<lambda>(k, v). (k, JStr v)) (td_environment t)))) else None)"
  "jfind (task_to_json t) ''working_directory'' =
     (if td_working_directory t \<noteq> [] then Some (JStr (td_working_directory t)) else None)"
  "jfind (task_to_json t) ''inputs'' = (if td_inputs t \<noteq> [] then Some (artifacts_to_json (td_inputs t)) else None)"
  "jfind (task_to_json t) ''outputs'' = (if td_outputs t \<noteq> [] then Some (artifacts_to_json (td_outputs t)) else None)"
  "jfind (task_to_json t) ''retry'' = Some (retry_to_json (td_retry t))"
  "jfind (task_to_json t) ''resources'' = Some (resources_to_json (td_resources t))"
  "jfind (task_to_json t) ''timeout_ms'' = map_option JInt (td_timeout t)"
  "jfind (task_to_json t) ''priority'' = Some (JInt (td_priority t))"
  "jfind (task_to_json t) ''cache'' = Some (JBool (td_cache_enabled t))"
  "jfind (task_to_json t) ''depends_on'' = None"
  by (simp_all add: task_to_json_present map_of_present given_def del: present.simps)

lemma parse_type_back:
  "jfind tj ''type'' = Some (JStr (to_string_TaskType ty)) \<Longrightarrow> parse_type tj tloc = ([], ty)"
  by (simp add: parse_type_def reader_defs parse_task_type_to_string)

lemma parse_program_back:
  "td_type t = ttExecutable \<longrightarrow> td_script t = [] \<Longrightarrow>
   parse_program (task_to_json t) tloc dflt (td_type t) = ([], (td_program t, td_script t))"
  by (cases "td_type t") (simp_all add: parse_program_def reader_defs task_member)

lemma parse_timeout_back:
  "(case td_timeout t of Some v \<Rightarrow> in_int64 v | None \<Rightarrow> True) \<Longrightarrow>
   parse_timeout (task_to_json t) tloc None = ([], td_timeout t)"
  by (cases "td_timeout t") (simp_all add: parse_timeout_def reader_defs task_member)

lemma parse_task_back:
  assumes "canonical_task t" "df_timeout df = None"
  shows "parse_task df tloc (task_to_json t) = ([], Some (t, []))"
proof -
  have parts: "td_type t = ttExecutable \<longrightarrow> td_script t = []" "sorted_wrt (<) (map fst (td_environment t))"
    "canonical_retry (td_retry t)" "canonical_resources (td_resources t)"
    "case td_timeout t of Some v \<Rightarrow> in_int64 v | None \<Rightarrow> True" "in_int32 (td_priority t)"
    using assms(1) by (simp_all add: canonical_task_def)
  obtain kvs where J: "task_to_json t = JObj kvs"
    by (simp add: task_to_json_def)
  show ?thesis
    unfolding parse_task_def J Json.case
    unfolding J [symmetric]
    by (simp add: parse_type_back task_member parse_program_back parts parse_env_back parse_artifacts_back
        parse_retry_back parse_resources_back parse_timeout_back assms(2))
       (simp add: reader_defs task_member string_items_back parts)
qed

lemma task_items_back:
  "list_all canonical_task ts \<Longrightarrow> df_timeout df = None \<Longrightarrow> task_items df i (map task_to_json ts) = ([], (ts, []))"
  by (induction ts arbitrary: i) (simp_all add: parse_task_back)

lemma parse_dependency_back: "parse_dependency dl (edge_to_json e) = ([], [e])"
  by (simp add: edge_to_json_def reader_defs)

lemma dependency_items_back: "dependency_items i (map edge_to_json es) = ([], es)"
  by (induction es arbitrary: i) (simp_all add: parse_dependency_back)

lemma document_member:
  "map_of (pipeline_to_json p) ''schema_version'' = Some (JInt (pd_schema_version p))"
  "map_of (pipeline_to_json p) ''name'' = Some (JStr (pd_name p))"
  "map_of (pipeline_to_json p) ''description'' =
     (if pd_description p \<noteq> [] then Some (JStr (pd_description p)) else None)"
  "map_of (pipeline_to_json p) ''max_concurrency'' =
     (if 0 < pd_max_concurrency p then Some (JInt (pd_max_concurrency p)) else None)"
  "map_of (pipeline_to_json p) ''defaults'' = None"
  "map_of (pipeline_to_json p) ''tasks'' = Some (JArr (map task_to_json (pd_tasks p)))"
  "map_of (pipeline_to_json p) ''dependencies'' = Some (JArr (map edge_to_json (pd_edges p)))"
  unfolding pipeline_to_json_def map_of_obj_of by (simp_all add: map_add_def)

lemma load_document_back:
  assumes "canonical p" "0 \<le> pd_max_concurrency p"
  shows "load_document (JObj (pipeline_to_json p)) (pd_base_directory p) = ([], p)"
proof -
  have parts: "pd_schema_version p = 1" "pd_name p \<noteq> []" "pd_tasks p \<noteq> []" "in_int32 (pd_max_concurrency p)"
    "list_all canonical_task (pd_tasks p)"
    using assms(1) by (simp_all add: canonical_def kSupportedSchemaVersion_def)
  have "parse_defaults (JObj (pipeline_to_json p)) = ([], Defaults_init)"
    by (simp add: parse_defaults_def document_member)
  moreover have "parse_tasks (JObj (pipeline_to_json p)) Defaults_init = ([], (pd_tasks p, []))"
    using parts by (simp add: parse_tasks_def document_member task_items_back Defaults_init_def)
  moreover have "parse_dependencies (JObj (pipeline_to_json p)) = ([], pd_edges p)"
    by (simp add: parse_dependencies_def document_member dependency_items_back)
  moreover have "to_int64 1 = 1" "to_int32 1 = 1"
    by (simp_all add: to_int64_def to_int32_def)
  ultimately show ?thesis
    unfolding load_document_def using assms(2) parts
    by (simp add: reader_defs document_member kSupportedSchemaVersion_def)
qed

section \<open>What loads is canonical\<close>

text \<open>The objects of a parsed document have one member per key, in key order.\<close>

fun ordered_json :: "Json \<Rightarrow> bool" where
  "ordered_json (JArr vs) = list_all ordered_json vs"
| "ordered_json (JObj kvs) = (sorted_wrt (<) (map fst kvs) \<and> list_all (\<lambda>kv. ordered_json (snd kv)) kvs)"
| "ordered_json _ = True"

lemma ordered_member: "ordered_json j \<Longrightarrow> jfind j k = Some v \<Longrightarrow> ordered_json v"
  by (cases j) (auto simp: list_all_iff dest!: map_of_SomeD)

lemma as_int_range: "snd (as_int j k loc) = Some v \<Longrightarrow> in_int64 v"
  by (auto simp: as_int_def split: option.splits Json.Json.splits)

lemma parse_retry_range: "canonical_retry base \<Longrightarrow> canonical_retry (snd (parse_retry j base loc))"
  unfolding parse_retry_def
  by (auto simp: Let_def case_prod_unfold canonical_retry_def as_int_range split: option.split Json.split)

lemma parse_resources_range: "canonical_resources base \<Longrightarrow> canonical_resources (snd (parse_resources j base loc))"
  unfolding parse_resources_def
  by (auto simp: Let_def case_prod_unfold canonical_resources_def as_int_range split: option.split Json.split)

lemma parse_timeout_range:
  "(case dflt of Some v \<Rightarrow> in_int64 v | None \<Rightarrow> True) \<Longrightarrow>
   (case snd (parse_timeout j loc dflt) of Some v \<Rightarrow> in_int64 v | None \<Rightarrow> True)"
  unfolding parse_timeout_def by (auto simp: as_int_range split: option.split)

lemma env_items_keys: "set (map fst (snd (env_items loc kvs))) \<subseteq> set (map fst kvs)"
  by (induction loc kvs rule: env_items.induct) (auto simp: case_prod_unfold Let_def)

lemma env_items_sorted:
  "sorted_wrt (<) (map fst kvs) \<Longrightarrow> sorted_wrt (<) (map fst (snd (env_items loc kvs)))"
proof (induction kvs)
  case (Cons kv kvs)
  obtain k v where "kv = (k, v)"
    by (cases kv)
  moreover have "k < k'" if "k' \<in> set (map fst (snd (env_items loc kvs)))" for k'
    using subsetD [OF env_items_keys that] Cons.prems \<open>kv = (k, v)\<close> by auto
  ultimately show ?case
    using Cons by (cases v) (force simp: case_prod_unfold Let_def)+
qed simp

lemma parse_env_sorted:
  assumes "ordered_json tj"
  shows "sorted_wrt (<) (map fst (snd (parse_env tj tloc)))"
proof (cases "jfind tj ''env''")
  case (Some v)
  then show ?thesis
    using ordered_member [OF assms Some] by (cases v) (simp_all add: parse_env_def env_items_sorted)
qed (simp add: parse_env_def)

definition canonical_defaults :: "Defaults \<Rightarrow> bool" where
  "canonical_defaults df \<longleftrightarrow>
     canonical_retry (df_retry df) \<and> canonical_resources (df_resources df) \<and>
     (case df_timeout df of Some v \<Rightarrow> in_int64 v | None \<Rightarrow> True)"

lemma canonical_defaults_init [simp]: "canonical_defaults Defaults_init"
  by (simp add: canonical_defaults_def Defaults_init_def canonical_retry_def canonical_resources_def
      RetryPolicy_none_def single_core_def in_int32_def in_int64_def)

lemma parse_defaults_canonical: "canonical_defaults (snd (parse_defaults doc))"
proof (cases "jfind doc ''defaults''")
  case None
  then show ?thesis by (simp add: parse_defaults_def)
next
  case (Some dj)
  have "canonical_retry (df_retry Defaults_init)" "canonical_resources (df_resources Defaults_init)"
    "df_timeout Defaults_init = None"
    using canonical_defaults_init by (simp_all add: canonical_defaults_def Defaults_init_def)
  then show ?thesis
    using Some unfolding parse_defaults_def
    by (cases dj) (auto simp: Let_def case_prod_unfold canonical_defaults_def as_int_range
        parse_retry_range parse_resources_range split: option.split)
qed

lemma parse_task_canonical:
  assumes "parse_task df tloc tj = (es, Some (t, eds))" "canonical_defaults df" "ordered_json tj"
  shows "canonical_task t"
proof -
  obtain kvs where J: "tj = JObj kvs"
    using assms(1) by (cases tj) (simp_all add: parse_task_def)
  have "td_type t = snd (parse_type tj tloc)" "td_script t = snd (snd (parse_program tj tloc (df_interpreter df) (td_type t)))"
    "td_environment t = snd (parse_env tj tloc)" "td_retry t = snd (parse_retry tj (df_retry df) tloc)"
    "td_resources t = snd (parse_resources tj (df_resources df) tloc)"
    "td_timeout t = snd (parse_timeout tj tloc (df_timeout df))" "\<exists>v. td_priority t = to_int32 v"
    using assms(1) unfolding J parse_task_def by (auto simp: case_prod_unfold Let_def)
  moreover have "td_type t = ttExecutable \<Longrightarrow> snd (snd (parse_program tj tloc (df_interpreter df) (td_type t))) = []"
    by (simp add: parse_program_def case_prod_unfold Let_def)
  ultimately show ?thesis
    using assms(2,3) parse_env_sorted [OF assms(3), of tloc]
    by (auto simp: canonical_task_def canonical_defaults_def parse_retry_range parse_resources_range parse_timeout_range)
qed

lemma task_items_canonical:
  assumes "canonical_defaults df"
  shows "list_all ordered_json vs \<Longrightarrow> list_all canonical_task (fst (snd (task_items df i vs)))"
proof (induction vs arbitrary: i)
  case (Cons v vs)
  have "canonical_task t" if "snd (parse_task df (at_index ''tasks'' i) v) = Some (t, eds)" for t eds
    using parse_task_canonical [of df "at_index ''tasks'' i" v "fst (parse_task df (at_index ''tasks'' i) v)" t eds]
      assms Cons.prems that by (simp add: prod_eq_iff)
  then show ?case
    using Cons by (auto simp: case_prod_unfold Let_def split: option.split)
qed simp

lemma task_items_length: "fst (task_items df i vs) = [] \<Longrightarrow> length (fst (snd (task_items df i vs))) = length vs"
proof (induction vs arbitrary: i)
  case (Cons v vs)
  have "fst (parse_task df (at_index ''tasks'' i) v) = [] \<Longrightarrow> snd (parse_task df (at_index ''tasks'' i) v) \<noteq> None"
    by (cases v) (auto simp: parse_task_def case_prod_unfold Let_def)
  then show ?case
    using Cons by (auto simp: case_prod_unfold Let_def)
qed simp

lemma load_document_canonical:
  assumes "load_document doc base = ([], p)" "ordered_json doc"
  shows "canonical p \<and> pd_base_directory p = base \<and>
    (\<exists>vs. jfind doc ''tasks'' = Some (JArr vs) \<and> length (pd_tasks p) = length vs)"
proof -
  define df where "df = snd (parse_defaults doc)"
  have L: "fst (load_document doc base) = []" "snd (load_document doc base) = p"
    using assms(1) by simp_all
  have no: "fst (as_string doc ''name'' [] True) = []" "snd (as_string doc ''name'' [] True) \<noteq> Some []"
    "fst (parse_tasks doc df) = []"
    using L(1) by (auto simp: load_document_def case_prod_unfold Let_def df_def split: if_splits)
  obtain vs where vs: "jfind doc ''tasks'' = Some (JArr vs)"
    using no(3) by (auto simp: parse_tasks_def split: option.splits Json.Json.splits)
  have ts: "fst (task_items df 0 vs) = []" "vs \<noteq> []" "pd_tasks p = fst (snd (task_items df 0 vs))"
    using no(3) L(2) by (auto simp: load_document_def case_prod_unfold Let_def df_def parse_tasks_def vs split: if_splits)
  have "list_all canonical_task (pd_tasks p)"
    unfolding ts using ordered_member [OF assms(2) vs] parse_defaults_canonical
    by (auto simp: df_def intro!: task_items_canonical)
  moreover have "length (pd_tasks p) = length vs"
    unfolding ts using task_items_length [OF ts(1)] .
  moreover have "\<exists>n. snd (as_string doc ''name'' [] True) = Some n"
    using no(1) by (auto simp: as_string_def split: option.splits Json.Json.splits)
  moreover have "\<forall>v. snd (as_int doc ''schema_version'' []) = Some v \<longrightarrow> v = 1"
    using L(1) by (auto simp: load_document_def case_prod_unfold Let_def kSupportedSchemaVersion_def split: if_splits option.splits)
  moreover have "pd_schema_version p = (case snd (as_int doc ''schema_version'' []) of Some x \<Rightarrow> to_int32 x | None \<Rightarrow> 1)"
    "pd_name p = (case snd (as_string doc ''name'' [] True) of Some x \<Rightarrow> x | None \<Rightarrow> [])" "pd_base_directory p = base"
    "pd_max_concurrency p = (case snd (as_int doc ''max_concurrency'' []) of Some x \<Rightarrow> to_int32 x | None \<Rightarrow> 0)"
    using L(2) by (auto simp: load_document_def case_prod_unfold Let_def)
  moreover have "to_int32 1 = 1" "in_int32 0"
    by (simp_all add: to_int32_def in_int32_def)
  ultimately show ?thesis
    using ts(2) no(2) vs by (auto simp: canonical_def kSupportedSchemaVersion_def split: option.splits)
qed

end
