(* ===== verification/Sample_Systems.thy ===== *)
theory Sample_Systems
  imports Sample_Run Runner_Contract Pipeline_Document
begin

text \<open>
  Concrete runs of the process runner and a concrete document, for the instances of the theorems
  about them: a child that is launched and cancelled before it is reaped, a child that outlives
  its timeout, and the sample pipeline as a document.
\<close>

section \<open>A cancelled child\<close>

definition sample_os :: Os where
  "sample_os = \<lparr>os_environ = [''A=1''], os_spawn = (\<lambda>_. spStarted 7), os_now = (\<lambda>k. int k),
     os_read = (\<lambda>_. [rdEof]), os_wait = (\<lambda>_. Some (wSignalled 15)), os_poll = (\<lambda>_ _. True)\<rparr>"

definition sample_spec :: ProcessSpec where
  "sample_spec = \<lparr>sp_program = ''/bin/a'', sp_argv = [''a''], sp_environment = [], sp_inherit_environment = True,
     sp_working_directory = [], sp_timeout = None\<rparr>"

definition sample_launch :: Command where
  "sample_launch = kLaunch 1 sample_spec \<lparr>cb_on_stdout = True, cb_on_stderr = False\<rparr>"

definition asked_runner :: Runner where
  "asked_runner = request_terminate 1 True
     (snd (launch sample_spec \<lparr>cb_on_stdout = True, cb_on_stderr = False\<rparr> (Runner_new 5000)))"

definition cancelled_runner :: Runner where
  "cancelled_runner = snd (reactor_turn sample_os asked_runner)"


lemma asked_reachable:
  "(rstep sample_os)\<^sup>*\<^sup>* (runner_start 5000) ([sample_launch, kTerminate 1 True], False, asked_runner)"
proof -
  let ?cbs = "\<lparr>cb_on_stdout = True, cb_on_stderr = False\<rparr>"
  let ?r = "snd (launch sample_spec ?cbs (Runner_new 5000))"
  have l: "launch sample_spec ?cbs (Runner_new 5000) = (1, ?r)"
    by (simp add: launch_def Runner_new_def)
  have "rstep sample_os (runner_start 5000) ([] @ [kLaunch 1 sample_spec ?cbs], False, ?r)"
    unfolding runner_start_def by (rule r_launch [OF l]) (simp add: kInvalidHandle_def)
  then show ?thesis
    using r_terminate [of sample_os "[sample_launch]" False ?r 1 True]
    by (auto simp: asked_runner_def sample_launch_def)
qed

lemma cancelled_turn: "reactor_turn sample_os asked_runner = (False, cancelled_runner)"
proof -
  have "fst (reactor_turn sample_os asked_runner) = False"
    by code_simp
  then show ?thesis
    unfolding cancelled_runner_def by (metis prod.collapse)
qed

lemma cancelled_reachable:
  "(rstep sample_os)\<^sup>*\<^sup>* (runner_start 5000) ([sample_launch, kTerminate 1 True], False, cancelled_runner)"
  using asked_reachable r_turn [OF cancelled_turn, of "[sample_launch, kTerminate 1 True]"] by auto

lemma cancelled_exit:
  "on_exit 1 \<lparr>pr_outcome = poCancelled, pr_exit_code = -1, pr_term_signal = 15, pr_pid = Some 7, pr_spawn_error = [],
     pr_duration = 0\<rparr> \<in> set (r_out cancelled_runner)" "exits cancelled_runner = [1]"
  by code_simp+


section \<open>A child that outlives its timeout\<close>

definition slow_os :: Os where
  "slow_os = sample_os\<lparr>os_now := (\<lambda>k. int k * 10 * ticks_per_ms), os_read := (\<lambda>_. []), os_wait := (\<lambda>_. None),
     os_poll := (\<lambda>_ _. False)\<rparr>"

definition slow_launched :: Runner where
  "slow_launched = snd (launch (sample_spec\<lparr>sp_timeout := Some 65\<rparr>) \<lparr>cb_on_stdout = True, cb_on_stderr = False\<rparr>
     (Runner_new 5000))"

definition slow_runner :: Runner where
  "slow_runner = snd (reactor_turn slow_os slow_launched)"

lemma slow_reachable:
  "(rstep slow_os)\<^sup>*\<^sup>* (runner_start 5000)
     ([kLaunch 1 (sample_spec\<lparr>sp_timeout := Some 65\<rparr>) \<lparr>cb_on_stdout = True, cb_on_stderr = False\<rparr>], False, slow_runner)"
proof -
  let ?cbs = "\<lparr>cb_on_stdout = True, cb_on_stderr = False\<rparr>" and ?spec = "sample_spec\<lparr>sp_timeout := Some 65\<rparr>"
  have l: "launch ?spec ?cbs (Runner_new 5000) = (1, slow_launched)"
    by (simp add: slow_launched_def launch_def Runner_new_def)
  have "rstep slow_os (runner_start 5000) ([] @ [kLaunch 1 ?spec ?cbs], False, slow_launched)"
    unfolding runner_start_def by (rule r_launch [OF l]) (simp add: kInvalidHandle_def)
  moreover have "\<not> fst (reactor_turn slow_os slow_launched)"
    by code_simp
  then have "reactor_turn slow_os slow_launched = (False, slow_runner)"
    by (simp add: slow_runner_def prod_eq_iff)
  from r_turn [OF this] have "rstep slow_os ([kLaunch 1 ?spec ?cbs], False, slow_launched)
    ([kLaunch 1 ?spec ?cbs], False, slow_runner)" .
  ultimately show ?thesis
    by auto
qed

lemma slow_stage:
  "map (\<lambda>(h, c). (h, ch_term_stage (escalate 5000 (os_now slow_os (r_tick slow_runner)) c))) (r_children slow_runner) = [(1, 1)]"
  "r_terminate_grace slow_runner = 5000"
  by code_simp+

section \<open>The sample pipeline as a document\<close>

lemma sample_canonical: "canonical (sample_pipeline [])"
  by code_simp

definition sample_codec :: JsonCodec where
  "sample_codec = \<lparr>dump = (\<lambda>_. ''{}''), parse = (\<lambda>_. Some (JObj (pipeline_to_json (sample_pipeline []))))\<rparr>"

lemma sample_ordered: "ordered_json (JObj (pipeline_to_json (sample_pipeline [])))"
  by code_simp

end
