(* ===== verification/Storage.thy ===== *)
theory Storage
  imports Cache
begin

text \<open>
  The tables behind the repositories, \<^verbatim>\<open>src/src/core/storage/repositories.cpp\<close>, and the schema,
  \<^verbatim>\<open>schema.cpp\<close>. A table is the list of its rows in the order of insertion. The statements
  are the ones of the source, with SQLite's documented meaning: a new row of a table with an
  \<^verbatim>\<open>INTEGER PRIMARY KEY\<close> gets one more than the largest id, \<^verbatim>\<open>UNIQUE\<close> and \<^verbatim>\<open>REFERENCES\<close>
  clauses are enforced (\<^verbatim>\<open>PRAGMA foreign_keys = ON\<close>), and a negative \<^verbatim>\<open>LIMIT\<close> is no limit.
  An operation returns its result, or the error it throws, and the database afterwards.
\<close>

section \<open>Rows\<close>

record PipelineRecord =
  pl_id :: int
  pl_name :: string
  pl_definition_json :: string
  pl_definition_hash :: string
  pl_created_at :: int

record PipelineRunRecord =
  prun_id :: int
  prun_pipeline_id :: int
  prun_name :: string
  prun_state :: string
  prun_max_concurrency :: int
  prun_created_at :: int
  prun_started_at :: "int option"
  prun_finished_at :: "int option"

record TaskRunRecord =
  trun_id :: int
  trun_run_id :: int
  trun_task_id :: string
  trun_state :: string
  trun_ready_at :: "int option"
  trun_started_at :: "int option"
  trun_finished_at :: "int option"
  trun_attempts :: int

record TaskAttemptRecord =
  tatt_id :: int
  tatt_task_run_id :: int
  tatt_attempt_number :: int
  tatt_state :: string
  tatt_result_kind :: string
  tatt_exit_code :: "int option"
  tatt_term_signal :: "int option"
  tatt_pid :: "int option"
  tatt_started_at :: "int option"
  tatt_finished_at :: "int option"
  tatt_message :: "string option"

record LogRecord =
  log_run_id :: int
  log_task_id :: "string option"
  log_attempt_number :: "int option"
  log_ts :: int
  log_severity :: string
  log_stream :: string
  log_message :: string

record ArtifactRecord =
  arec_run_id :: int
  arec_task_id :: string
  arec_role :: string
  arec_logical_name :: string
  arec_path :: string
  arec_size_bytes :: "int option"
  arec_modified_unix_ms :: "int option"
  arec_checksum :: "string option"

record Database =
  db_pipelines :: "PipelineRecord list"
  db_runs :: "PipelineRunRecord list"
  db_task_runs :: "TaskRunRecord list"
  db_attempts :: "TaskAttemptRecord list"
  db_logs :: "LogRecord list"          \<comment> \<open>in the order of their ids\<close>
  db_cache :: CacheTable
  db_artifacts :: "ArtifactRecord list"

definition empty_database :: Database where
  "empty_database = \<lparr>db_pipelines = [], db_runs = [], db_task_runs = [], db_attempts = [], db_logs = [],
     db_cache = [], db_artifacts = []\<rparr>"

datatype DatabaseError = UniqueViolation | ForeignKeyViolation | RowVanished | NewerSchema | TableExists

type_synonym 'a db_op = "Database \<Rightarrow> (DatabaseError + 'a) \<times> Database"

definition fresh_id :: "int list \<Rightarrow> int" where
  "fresh_id ids = foldr max ids 0 + 1"

definition limit_rows :: "int \<Rightarrow> 'a list \<Rightarrow> 'a list" where
  "limit_rows n rows = (if n < 0 then rows else take (nat n) rows)"

section \<open>PipelineRepository\<close>

definition pipelines_upsert :: "string \<Rightarrow> string \<Rightarrow> string \<Rightarrow> int \<Rightarrow> int db_op" where
  "pipelines_upsert name definition_json definition_hash created_at db =
     (let db1 = (if definition_hash \<in> set (map pl_definition_hash (db_pipelines db)) then db
                 else db\<lparr>db_pipelines := db_pipelines db @
                   [\<lparr>pl_id = fresh_id (map pl_id (db_pipelines db)), pl_name = name,
                     pl_definition_json = definition_json, pl_definition_hash = definition_hash,
                     pl_created_at = created_at\<rparr>]\<rparr>)
      in case List.find (\<lambda>r. pl_definition_hash r = definition_hash) (db_pipelines db1) of
           None \<Rightarrow> (Inl RowVanished, db1)
         | Some r \<Rightarrow> (Inr (pl_id r), db1))"

definition pipelines_get :: "int \<Rightarrow> Database \<Rightarrow> PipelineRecord option" where
  "pipelines_get i db = List.find (\<lambda>r. pl_id r = i) (db_pipelines db)"

section \<open>PipelineRunRepository\<close>

definition runs_create :: "int \<Rightarrow> string \<Rightarrow> int \<Rightarrow> string \<Rightarrow> int \<Rightarrow> int db_op" where
  "runs_create pipeline_id name max_conc state created_at db =
     (if pipeline_id \<notin> set (map pl_id (db_pipelines db)) then (Inl ForeignKeyViolation, db)
      else let new = fresh_id (map prun_id (db_runs db))
           in (Inr new, db\<lparr>db_runs := db_runs db @
                [\<lparr>prun_id = new, prun_pipeline_id = pipeline_id, prun_name = name, prun_state = state,
                  prun_max_concurrency = max_conc, prun_created_at = created_at, prun_started_at = None,
                  prun_finished_at = None\<rparr>]\<rparr>))"

definition update_run :: "int \<Rightarrow> (PipelineRunRecord \<Rightarrow> PipelineRunRecord) \<Rightarrow> Database \<Rightarrow> Database" where
  "update_run i f db = db\<lparr>db_runs := map (\<lambda>r. if prun_id r = i then f r else r) (db_runs db)\<rparr>"

definition runs_set_state :: "int \<Rightarrow> string \<Rightarrow> Database \<Rightarrow> Database" where
  "runs_set_state i state = update_run i (prun_state_update (\<lambda>_. state))"

definition runs_mark_started :: "int \<Rightarrow> int \<Rightarrow> Database \<Rightarrow> Database" where
  "runs_mark_started i ts = update_run i (\<lambda>r. r\<lparr>prun_state := ''RUNNING'', prun_started_at := Some ts\<rparr>)"

definition runs_mark_finished :: "int \<Rightarrow> string \<Rightarrow> int \<Rightarrow> Database \<Rightarrow> Database" where
  "runs_mark_finished i state ts = update_run i (\<lambda>r. r\<lparr>prun_state := state, prun_finished_at := Some ts\<rparr>)"

definition runs_get :: "int \<Rightarrow> Database \<Rightarrow> PipelineRunRecord option" where
  "runs_get i db = List.find (\<lambda>r. prun_id r = i) (db_runs db)"

definition runs_list_recent :: "int \<Rightarrow> Database \<Rightarrow> PipelineRunRecord list" where
  "runs_list_recent bound db =
     limit_rows bound (sort_key (\<lambda>r. - prun_created_at r) (sort_key (\<lambda>r. - prun_id r) (db_runs db)))"

definition runs_list_in_state :: "string \<Rightarrow> Database \<Rightarrow> PipelineRunRecord list" where
  "runs_list_in_state state db = sort_key prun_id (filter (\<lambda>r. prun_state r = state) (db_runs db))"

section \<open>TaskRunRepository\<close>

definition task_runs_create :: "int \<Rightarrow> string \<Rightarrow> string \<Rightarrow> int db_op" where
  "task_runs_create run task_id state db =
     (if list_ex (\<lambda>r. trun_run_id r = run \<and> trun_task_id r = task_id) (db_task_runs db) then (Inl UniqueViolation, db)
      else if run \<notin> set (map prun_id (db_runs db)) then (Inl ForeignKeyViolation, db)
      else let new = fresh_id (map trun_id (db_task_runs db))
           in (Inr new, db\<lparr>db_task_runs := db_task_runs db @
                [\<lparr>trun_id = new, trun_run_id = run, trun_task_id = task_id, trun_state = state, trun_ready_at = None,
                  trun_started_at = None, trun_finished_at = None, trun_attempts = 0\<rparr>]\<rparr>))"

definition update_task_run :: "int \<Rightarrow> (TaskRunRecord \<Rightarrow> TaskRunRecord) \<Rightarrow> Database \<Rightarrow> Database" where
  "update_task_run i f db = db\<lparr>db_task_runs := map (\<lambda>r. if trun_id r = i then f r else r) (db_task_runs db)\<rparr>"

definition task_runs_set_state :: "int \<Rightarrow> string \<Rightarrow> Database \<Rightarrow> Database" where
  "task_runs_set_state i state = update_task_run i (trun_state_update (\<lambda>_. state))"

definition task_runs_set_ready_at :: "int \<Rightarrow> int \<Rightarrow> Database \<Rightarrow> Database" where
  "task_runs_set_ready_at i ts = update_task_run i (trun_ready_at_update (\<lambda>_. Some ts))"

definition task_runs_set_started_at :: "int \<Rightarrow> int \<Rightarrow> Database \<Rightarrow> Database" where
  "task_runs_set_started_at i ts = update_task_run i (trun_started_at_update (\<lambda>_. Some ts))"

definition task_runs_set_finished_at :: "int \<Rightarrow> int \<Rightarrow> Database \<Rightarrow> Database" where
  "task_runs_set_finished_at i ts = update_task_run i (trun_finished_at_update (\<lambda>_. Some ts))"

definition task_runs_set_attempts :: "int \<Rightarrow> int \<Rightarrow> Database \<Rightarrow> Database" where
  "task_runs_set_attempts i n = update_task_run i (trun_attempts_update (\<lambda>_. n))"

definition task_runs_list_for_run :: "int \<Rightarrow> Database \<Rightarrow> TaskRunRecord list" where
  "task_runs_list_for_run run db = sort_key trun_id (filter (\<lambda>r. trun_run_id r = run) (db_task_runs db))"

section \<open>TaskAttemptRepository\<close>

definition attempts_insert :: "TaskAttemptRecord \<Rightarrow> int db_op" where
  "attempts_insert rec db =
     (if list_ex (\<lambda>r. tatt_task_run_id r = tatt_task_run_id rec \<and> tatt_attempt_number r = tatt_attempt_number rec)
           (db_attempts db) then (Inl UniqueViolation, db)
      else if tatt_task_run_id rec \<notin> set (map trun_id (db_task_runs db)) then (Inl ForeignKeyViolation, db)
      else let new = fresh_id (map tatt_id (db_attempts db))
           in (Inr new, db\<lparr>db_attempts := db_attempts db @ [rec\<lparr>tatt_id := new\<rparr>]\<rparr>))"

definition attempts_list_for_task_run :: "int \<Rightarrow> Database \<Rightarrow> TaskAttemptRecord list" where
  "attempts_list_for_task_run task_run_id db =
     sort_key tatt_attempt_number (filter (\<lambda>r. tatt_task_run_id r = task_run_id) (db_attempts db))"

section \<open>LogRepository\<close>

definition logs_insert :: "LogRecord \<Rightarrow> unit db_op" where
  "logs_insert rec db =
     (if log_run_id rec \<notin> set (map prun_id (db_runs db)) then (Inl ForeignKeyViolation, db)
      else (Inr (), db\<lparr>db_logs := db_logs db @ [rec]\<rparr>))"

fun logs_insert_all :: "LogRecord list \<Rightarrow> unit db_op" where
  "logs_insert_all [] db = (Inr (), db)"
| "logs_insert_all (rec # recs) db =
     (case logs_insert rec db of (Inl e, db1) \<Rightarrow> (Inl e, db1) | (Inr _, db1) \<Rightarrow> logs_insert_all recs db1)"

text \<open>One transaction: an error rolls every row of the batch back.\<close>

definition logs_insert_batch :: "LogRecord list \<Rightarrow> unit db_op" where
  "logs_insert_batch records db =
     (if records = [] then (Inr (), db)
      else case logs_insert_all records db of (Inl e, _) \<Rightarrow> (Inl e, db) | (Inr _, db1) \<Rightarrow> (Inr (), db1))"

definition logs_query :: "int \<Rightarrow> string option \<Rightarrow> int \<Rightarrow> Database \<Rightarrow> LogRecord list" where
  "logs_query run task_id bound db =
     limit_rows bound (sort_key log_ts (filter (\<lambda>r. log_run_id r = run \<and>
       (case task_id of None \<Rightarrow> True | Some t \<Rightarrow> log_task_id r = Some t)) (db_logs db)))"

section \<open>ArtifactRepository\<close>

definition artifacts_insert :: "ArtifactRecord \<Rightarrow> unit db_op" where
  "artifacts_insert rec db =
     (if arec_run_id rec \<notin> set (map prun_id (db_runs db)) then (Inl ForeignKeyViolation, db)
      else (Inr (), db\<lparr>db_artifacts := db_artifacts db @ [rec]\<rparr>))"

definition artifacts_list_for_run :: "int \<Rightarrow> Database \<Rightarrow> ArtifactRecord list" where
  "artifacts_list_for_run run db = filter (\<lambda>r. arec_run_id r = run) (db_artifacts db)"

section \<open>Schema\<close>

text \<open>A database file: its \<^verbatim>\<open>user_version\<close> and, once the first migration has run, its tables.\<close>

record DatabaseFile =
  df_user_version :: int
  df_tables :: "Database option"

definition kCurrentSchemaVersion :: int where "kCurrentSchemaVersion = 1"

text \<open>
  \<^verbatim>\<open>kMigrations\<close> has one element, which creates the tables; it fails when they exist, and the
  transaction is rolled back. (A negative version would index before the array.)
\<close>

definition run_migrations :: "DatabaseFile \<Rightarrow> (DatabaseError + unit) \<times> DatabaseFile" where
  "run_migrations file =
     (case df_tables file of
        Some _ \<Rightarrow> (Inl TableExists, file)
      | None \<Rightarrow> (Inr (), file\<lparr>df_tables := Some empty_database\<rparr>))"

definition migrate_to_latest :: "DatabaseFile \<Rightarrow> (DatabaseError + unit) \<times> DatabaseFile" where
  "migrate_to_latest file =
     (if kCurrentSchemaVersion < df_user_version file then (Inl NewerSchema, file)
      else if df_user_version file = kCurrentSchemaVersion then (Inr (), file)
      else case run_migrations file of
             (Inl e, file1) \<Rightarrow> (Inl e, file1)
           | (Inr _, file1) \<Rightarrow> (Inr (), file1\<lparr>df_user_version := kCurrentSchemaVersion\<rparr>))"

section \<open>Integrity\<close>

text \<open>What the schema declares: keys are unique and references point to rows.\<close>

definition keys_ok :: "Database \<Rightarrow> bool" where
  "keys_ok db \<longleftrightarrow>
     distinct (map pl_id (db_pipelines db)) \<and> distinct (map pl_definition_hash (db_pipelines db)) \<and>
     distinct (map prun_id (db_runs db)) \<and> distinct (map trun_id (db_task_runs db)) \<and>
     distinct (map (\<lambda>r. (trun_run_id r, trun_task_id r)) (db_task_runs db)) \<and>
     distinct (map tatt_id (db_attempts db)) \<and>
     distinct (map (\<lambda>r. (tatt_task_run_id r, tatt_attempt_number r)) (db_attempts db)) \<and> table_ok (db_cache db)"

definition references_ok :: "Database \<Rightarrow> bool" where
  "references_ok db \<longleftrightarrow>
     prun_pipeline_id ` set (db_runs db) \<subseteq> pl_id ` set (db_pipelines db) \<and>
     trun_run_id ` set (db_task_runs db) \<subseteq> prun_id ` set (db_runs db) \<and>
     tatt_task_run_id ` set (db_attempts db) \<subseteq> trun_id ` set (db_task_runs db) \<and>
     log_run_id ` set (db_logs db) \<subseteq> prun_id ` set (db_runs db) \<and>
     arec_run_id ` set (db_artifacts db) \<subseteq> prun_id ` set (db_runs db)"

definition db_ok :: "Database \<Rightarrow> bool" where
  "db_ok db \<longleftrightarrow> keys_ok db \<and> references_ok db"

lemmas db_ok_defs = db_ok_def keys_ok_def references_ok_def

lemma db_ok_empty: "db_ok empty_database"
  by (simp add: db_ok_defs empty_database_def table_ok_def)

lemma foldr_max_ge: "x \<in> set ids \<Longrightarrow> x \<le> foldr max ids (0::int)"
  by (induction ids) auto

lemma fresh_id_new [simp]: "fresh_id ids \<notin> set ids"
  using foldr_max_ge [of "fresh_id ids" ids] by (auto simp: fresh_id_def)

lemma fresh_id_image [simp]: "fresh_id (map f rows) \<notin> f ` set rows"
  using fresh_id_new [of "map f rows"] by simp

lemma fresh_id_neq [simp]: "r \<in> set rows \<Longrightarrow> f r \<noteq> fresh_id (map f rows)"
  by (metis fresh_id_image image_eqI)

text \<open>An update that keeps the columns of keys and references.\<close>

lemma keep: "(\<And>r. g (f r) = g r) \<Longrightarrow> g (if c then f r else r) = g r"
  by simp

lemma update_run_ok:
  assumes "db_ok db" and f: "\<And>r. prun_id (f r) = prun_id r" "\<And>r. prun_pipeline_id (f r) = prun_pipeline_id r"
  shows "db_ok (update_run i f db)"
  using assms(1) unfolding db_ok_defs update_run_def
  by (simp add: o_def image_image keep [of prun_id f, OF f(1)] keep [of prun_pipeline_id f, OF f(2)] del: if_image_distrib)

lemma update_task_run_ok:
  assumes "db_ok db" and f: "\<And>r. trun_id (f r) = trun_id r" "\<And>r. trun_run_id (f r) = trun_run_id r"
    "\<And>r. trun_task_id (f r) = trun_task_id r"
  shows "db_ok (update_task_run i f db)"
  using assms(1) unfolding db_ok_defs update_task_run_def
  by (simp add: o_def image_image keep [of trun_id f, OF f(1)] keep [of trun_run_id f, OF f(2)]
      keep [of trun_task_id f, OF f(3)] del: if_image_distrib)

lemma run_updates_ok:
  assumes "db_ok db"
  shows "db_ok (runs_set_state i st db)" "db_ok (runs_mark_started i ts db)" "db_ok (runs_mark_finished i st ts db)"
  unfolding runs_set_state_def runs_mark_started_def runs_mark_finished_def
  by (rule update_run_ok [OF assms]; simp)+

lemma task_run_updates_ok:
  assumes "db_ok db"
  shows "db_ok (task_runs_set_state i st db)" "db_ok (task_runs_set_ready_at i ts db)"
    "db_ok (task_runs_set_started_at i ts db)" "db_ok (task_runs_set_finished_at i ts db)"
    "db_ok (task_runs_set_attempts i n db)"
  unfolding task_runs_set_state_def task_runs_set_ready_at_def task_runs_set_started_at_def
    task_runs_set_finished_at_def task_runs_set_attempts_def
  by (rule update_task_run_ok [OF assms]; simp)+

lemma upsert_ok: "db_ok db \<Longrightarrow> db_ok (snd (pipelines_upsert name js h ts db))"
  by (auto simp: pipelines_upsert_def db_ok_defs Let_def split: option.split)

lemma runs_create_ok: "db_ok db \<Longrightarrow> db_ok (snd (runs_create p name mc st ts db))"
  by (auto simp: runs_create_def db_ok_defs Let_def)

lemma task_runs_create_ok: "db_ok db \<Longrightarrow> db_ok (snd (task_runs_create run tid st db))"
  by (auto simp: task_runs_create_def db_ok_defs Let_def list_ex_iff)

lemma attempts_insert_ok: "db_ok db \<Longrightarrow> db_ok (snd (attempts_insert rec db))"
  by (auto simp: attempts_insert_def db_ok_defs Let_def list_ex_iff)

lemma logs_insert_ok: "db_ok db \<Longrightarrow> db_ok (snd (logs_insert rec db))"
  by (auto simp: logs_insert_def db_ok_defs)

lemma logs_insert_all_ok: "db_ok db \<Longrightarrow> db_ok (snd (logs_insert_all recs db))"
proof (induction recs arbitrary: db)
  case (Cons rec recs)
  then show ?case
    using logs_insert_ok [OF Cons.prems, of rec] by (auto split: prod.split sum.split)
qed simp

lemma logs_insert_batch_ok: "db_ok db \<Longrightarrow> db_ok (snd (logs_insert_batch recs db))"
  using logs_insert_all_ok [of db recs] by (auto simp: logs_insert_batch_def split: prod.split sum.split)

lemma artifacts_insert_ok: "db_ok db \<Longrightarrow> db_ok (snd (artifacts_insert rec db))"
  by (auto simp: artifacts_insert_def db_ok_defs)

text \<open>Every statement that writes, one rule each.\<close>

inductive db_step :: "Database \<Rightarrow> Database \<Rightarrow> bool" where
  "db_step db (snd (pipelines_upsert name js h ts db))"
| "db_step db (snd (runs_create p name mc st ts db))"
| "db_step db (runs_set_state i st db)"
| "db_step db (runs_mark_started i ts db)"
| "db_step db (runs_mark_finished i st ts db)"
| "db_step db (snd (task_runs_create i tid st db))"
| "db_step db (task_runs_set_state i st db)"
| "db_step db (task_runs_set_ready_at i ts db)"
| "db_step db (task_runs_set_started_at i ts db)"
| "db_step db (task_runs_set_finished_at i ts db)"
| "db_step db (task_runs_set_attempts i n db)"
| "db_step db (snd (attempts_insert att db))"
| "db_step db (snd (logs_insert l db))"
| "db_step db (snd (logs_insert_batch ls db))"
| "db_step db (snd (artifacts_insert a db))"
| "db_step db (db\<lparr>db_cache := repo_store (db_cache db) k tid ec js ts\<rparr>)"
| "db_step db (db\<lparr>db_cache := repo_touch (db_cache db) k ts\<rparr>)"
| "db_step db (db\<lparr>db_cache := repo_remove (db_cache db) k\<rparr>)"
| "db_step db (db\<lparr>db_cache := snd (repo_clear_all (db_cache db))\<rparr>)"
| "db_step db (db\<lparr>db_cache := snd (repo_prune_older_than (db_cache db) cutoff)\<rparr>)"

lemma table_ok_rest: "table_ok t \<Longrightarrow> table_ok (snd (repo_clear_all t))"
  "table_ok t \<Longrightarrow> table_ok (snd (repo_prune_older_than t cutoff))"
  by (simp_all add: table_ok_def repo_clear_all_def repo_prune_older_than_def distinct_map_filter)

lemma cache_write_ok: "db_ok db \<Longrightarrow> table_ok t \<Longrightarrow> db_ok (db\<lparr>db_cache := t\<rparr>)"
  by (simp add: db_ok_defs)

lemma db_ok_cache: "db_ok db \<Longrightarrow> table_ok (db_cache db)"
  by (simp add: db_ok_defs)

lemma db_step_ok: "db_step db db' \<Longrightarrow> db_ok db \<Longrightarrow> db_ok db'"
  by (induction rule: db_step.induct)
     (simp_all only: upsert_ok runs_create_ok run_updates_ok task_runs_create_ok task_run_updates_ok attempts_insert_ok
        logs_insert_ok logs_insert_batch_ok artifacts_insert_ok cache_write_ok db_ok_cache table_ok_store table_ok_touch
        table_ok_remove table_ok_rest)

lemma db_reachable_ok: "db_step\<^sup>*\<^sup>* empty_database db \<Longrightarrow> db_ok db"
  by (induction rule: rtranclp_induct) (auto intro: db_ok_empty db_step_ok)

end
