(* ===== verification/Validator.thy ===== *)
theory Validator
  imports Dag_Build Artifacts Resource_Pool "HOL-Library.Multiset"
begin

text \<open>
  Pipeline validation, \<^verbatim>\<open>src/src/core/validation/pipeline_validator.cpp\<close>: every check with the
  issue it reports, in the order of the code. What the machine answers (files, directories,
  access rights, the variable \<^verbatim>\<open>PATH\<close>, the current directory) is an argument, and so is the
  order in which the standard library walks over the table of task ids.
\<close>

section \<open>Reports\<close>

datatype Severity = kError | kWarning

record ValidationIssue =
  vi_severity :: Severity
  vi_task_id :: string
  vi_field :: string
  vi_message :: string

type_synonym ValidationReport = "ValidationIssue list"

definition issue_to_string :: "ValidationIssue \<Rightarrow> string" where
  "issue_to_string i =
     (let prefix = (if vi_severity i = kError then ''error'' else ''warning'');
          subject = (if vi_task_id i = [] then ''pipeline'' else ''task '' @ [CHR 0x27] @ vi_task_id i @ [CHR 0x27]);
          loc = (if vi_field i = [] then [] else '' ['' @ vi_field i @ '']'')
      in prefix @ '': '' @ subject @ loc @ '': '' @ vi_message i)"

definition is_error :: "ValidationIssue \<Rightarrow> bool" where
  "is_error i \<longleftrightarrow> vi_severity i = kError"

definition report_ok :: "ValidationReport \<Rightarrow> bool" where
  "report_ok rep = list_all (\<lambda>i. \<not> is_error i) rep"

definition has_warnings :: "ValidationReport \<Rightarrow> bool" where
  "has_warnings rep = list_ex (\<lambda>i. vi_severity i = kWarning) rep"

definition report_errors :: "ValidationReport \<Rightarrow> ValidationIssue list" where
  "report_errors rep = filter is_error rep"

definition report_warnings :: "ValidationReport \<Rightarrow> ValidationIssue list" where
  "report_warnings rep = filter (\<lambda>i. vi_severity i = kWarning) rep"

definition sink_error :: "string \<Rightarrow> string \<Rightarrow> string \<Rightarrow> ValidationIssue" where
  "sink_error task field msg = \<lparr>vi_severity = kError, vi_task_id = task, vi_field = field, vi_message = msg\<rparr>"

definition sink_warn :: "string \<Rightarrow> string \<Rightarrow> string \<Rightarrow> ValidationIssue" where
  "sink_warn task field msg = \<lparr>vi_severity = kWarning, vi_task_id = task, vi_field = field, vi_message = msg\<rparr>"

definition report_if :: "bool \<Rightarrow> ValidationIssue \<Rightarrow> ValidationReport" where
  "report_if b i = (if b then [i] else [])"

section \<open>The machine and the options\<close>

record Machine =
  m_fs :: FileSystem
  m_is_directory :: "string \<Rightarrow> bool"
  m_may_execute :: "string \<Rightarrow> bool"   \<comment> \<open>\<^verbatim>\<open>access(p, X_OK) == 0\<close>\<close>
  m_path :: "string option"             \<comment> \<open>\<^verbatim>\<open>getenv("PATH")\<close>\<close>
  m_current_path :: string
  m_bucket_order :: "(string \<times> nat) list \<Rightarrow> (string \<times> nat) list"

record ValidationOptions =
  vo_check_executables :: bool
  vo_check_root_inputs_exist :: bool
  vo_resource_pool :: "ResourcePool option"

section \<open>Programs\<close>

definition is_regular_file :: "Machine \<Rightarrow> string \<Rightarrow> bool" where
  "is_regular_file m p = (case m_fs m p of Some info \<Rightarrow> fi_regular info | None \<Rightarrow> False)"

definition is_executable_file :: "Machine \<Rightarrow> string \<Rightarrow> bool" where
  "is_executable_file m p \<longleftrightarrow> is_regular_file m p \<and> m_may_execute m p"

text \<open>The search through the directories of \<^verbatim>\<open>PATH\<close>; empty ones are passed over.\<close>

fun search_path :: "Machine \<Rightarrow> string \<Rightarrow> string list \<Rightarrow> string option" where
  "search_path m program [] = None"
| "search_path m program (dir # dirs) =
     (if dir \<noteq> [] \<and> is_executable_file m (path_append dir program) then Some (path_append dir program)
      else search_path m program dirs)"

definition resolve_program :: "Machine \<Rightarrow> string \<Rightarrow> string \<Rightarrow> string option" where
  "resolve_program m program work_dir =
     (if program = [] then None
      else if CHR ''/'' \<in> set program then
        let p = (if is_absolute program then program else lexically_normal (path_append work_dir program))
        in if is_executable_file m p then Some p else None
      else case m_path m of
             None \<Rightarrow> None
           | Some paths \<Rightarrow> search_path m program (split paths (CHR '':'')))"

definition candidate_path :: "string \<Rightarrow> string \<Rightarrow> string option" where
  "candidate_path program work_dir =
     (if CHR ''/'' \<notin> set program then None
      else if is_absolute program then Some program
      else Some (lexically_normal (path_append work_dir program)))"

section \<open>Ids, graph and promised files\<close>

fun count_id :: "string \<Rightarrow> (string \<times> nat) list \<Rightarrow> (string \<times> nat) list" where
  "count_id v [] = [(v, 1)]"
| "count_id v ((w, n) # counts) = (if w = v then (w, Suc n) # counts else (w, n) # count_id v counts)"

definition task_ids :: "PipelineDefinition \<Rightarrow> string list" where
  "task_ids p = filter (\<lambda>v. v \<noteq> []) (map td_id (pd_tasks p))"

definition id_counts :: "PipelineDefinition \<Rightarrow> (string \<times> nat) list" where
  "id_counts p = foldl (\<lambda>counts v. count_id v counts) [] (task_ids p)"

definition check_ids :: "Machine \<Rightarrow> PipelineDefinition \<Rightarrow> ValidationReport" where
  "check_ids m p =
     concat (map (\<lambda>t. report_if (td_id t = []) (sink_error [] ''id'' ''a task has an empty id'')) (pd_tasks p)) @
     concat (map (\<lambda>(v, n). report_if (1 < n) (sink_error v ''id'' (''task id is used '' @ to_string_int (int n) @ '' times'')))
       (m_bucket_order m (id_counts p)))"

definition edge_pairs :: "PipelineDefinition \<Rightarrow> (string \<times> string) list" where
  "edge_pairs p = map (\<lambda>e. (edge_from e, edge_to e)) (pd_edges p)"

definition build_graph :: "PipelineDefinition \<Rightarrow> DagBuildResult" where
  "build_graph p = build (task_ids p) (edge_pairs p)"

definition check_graph :: "PipelineDefinition \<Rightarrow> ValidationReport" where
  "check_graph p =
     (if br_ok (build_graph p) then []
      else map (\<lambda>de. sink_error [] ''dependencies'' (de_message de)) (br_errors (build_graph p)))"

definition artifact_base :: "Machine \<Rightarrow> PipelineDefinition \<Rightarrow> string" where
  "artifact_base m p = (if pd_base_directory p = [] then m_current_path m else pd_base_directory p)"

text \<open>Which task promises a file; a later declaration replaces an earlier one.\<close>

definition produced_by :: "Machine \<Rightarrow> PipelineDefinition \<Rightarrow> string \<Rightarrow> string option" where
  "produced_by m p =
     map_of (rev (concat (map (\<lambda>t. map (\<lambda>d. (lexically_normal (resolve_artifact_path (artifact_base m p) t d), td_id t))
       (filter (\<lambda>d. decl_path d \<noteq> []) (td_outputs t))) (pd_tasks p))))"

definition produced_upstream :: "Machine \<Rightarrow> PipelineDefinition \<Rightarrow> TaskDefinition \<Rightarrow> string option \<Rightarrow> bool" where
  "produced_upstream m p consumer path =
     (case path of
        None \<Rightarrow> False
      | Some f \<Rightarrow>
          (case produced_by m p (lexically_normal f) of
             None \<Rightarrow> False
           | Some producer \<Rightarrow>
               if producer = td_id consumer then False
               else case br_dag (build_graph p) of
                      None \<Rightarrow> True
                    | Some g \<Rightarrow> td_id consumer \<in> set (transitive_dependents g producer)))"

section \<open>One task\<close>

definition program_found :: "Machine \<Rightarrow> PipelineDefinition \<Rightarrow> TaskDefinition \<Rightarrow> bool" where
  "program_found m p t =
     (let work_dir = resolve_working_dir (artifact_base m p) t
      in resolve_program m (td_program t) work_dir \<noteq> None \<or>
         produced_upstream m p t (candidate_path (td_program t) work_dir))"

definition script_path :: "Machine \<Rightarrow> PipelineDefinition \<Rightarrow> TaskDefinition \<Rightarrow> string" where
  "script_path m p t =
     (if is_absolute (td_script t) then td_script t
      else lexically_normal (path_append (resolve_working_dir (artifact_base m p) t) (td_script t)))"

definition check_work_dir :: "Machine \<Rightarrow> PipelineDefinition \<Rightarrow> TaskDefinition \<Rightarrow> ValidationReport" where
  "check_work_dir m p t =
     (let work_dir = resolve_working_dir (artifact_base m p) t
      in report_if (td_working_directory t \<noteq> [] \<and> \<not> m_is_directory m work_dir)
           (sink_error (td_id t) ''working_directory'' (''working directory does not exist: '' @ work_dir)))"

definition check_program :: "Machine \<Rightarrow> ValidationOptions \<Rightarrow> PipelineDefinition \<Rightarrow> TaskDefinition \<Rightarrow> ValidationReport" where
  "check_program m opt p t =
     (if td_type t = ttPython then
        report_if (td_script t = []) (sink_error (td_id t) ''script'' ''python task has no script'') @
        (if td_program t = [] then [sink_error (td_id t) ''interpreter'' ''python task has no interpreter'']
         else report_if (vo_check_executables opt \<and> \<not> program_found m p t)
                (sink_error (td_id t) ''interpreter'' (''Python interpreter not found: '' @ td_program t))) @
        report_if (td_script t \<noteq> [] \<and> vo_check_executables opt \<and> \<not> is_regular_file m (script_path m p t) \<and>
                   \<not> produced_upstream m p t (Some (script_path m p t)))
          (sink_error (td_id t) ''script'' (''script file not found: '' @ script_path m p t))
      else if td_program t = [] then [sink_error (td_id t) ''executable'' ''executable task has no executable'']
      else report_if (vo_check_executables opt \<and> \<not> program_found m p t)
             (sink_error (td_id t) ''executable'' (''executable not found or not runnable: '' @ td_program t)))"

definition check_limits :: "ValidationOptions \<Rightarrow> TaskDefinition \<Rightarrow> ValidationReport" where
  "check_limits opt t =
     report_if (max_retries (td_retry t) < 0)
       (sink_error (td_id t) ''retry.max_retries'' ''max_retries must not be negative'') @
     report_if (backoff_multiplier (td_retry t) < 0)
       (sink_error (td_id t) ''retry.backoff_multiplier'' ''backoff_multiplier must not be negative'') @
     report_if (cpu_cores (td_resources t) < 1)
       (sink_error (td_id t) ''resources.cpu_cores'' ''a task must request at least 1 CPU core'') @
     report_if (memory_mb (td_resources t) < 0 \<or> gpu_count (td_resources t) < 0)
       (sink_error (td_id t) ''resources'' ''resource requirements must not be negative'') @
     report_if (case td_timeout t of Some v \<Rightarrow> v \<le> 0 | None \<Rightarrow> False)
       (sink_error (td_id t) ''timeout_ms'' ''timeout must be positive when set'') @
     (case vo_resource_pool opt of
        None \<Rightarrow> []
      | Some pool \<Rightarrow> report_if (\<not> can_ever_fit pool (td_resources t))
          (sink_error (td_id t) ''resources'' (''task requires '' @ describe (td_resources t) @
             '' which exceeds machine capacity ('' @ describe_pool pool @ '')'')))"

fun check_decls :: "string \<Rightarrow> string \<Rightarrow> string list \<Rightarrow> ArtifactDecl list \<Rightarrow> ValidationReport" where
  "check_decls task kind seen [] = []"
| "check_decls task kind seen (d # ds) =
     report_if (decl_path d = []) (sink_error task kind ''an artifact declaration has an empty path'') @
     report_if (decl_name d \<noteq> [] \<and> decl_name d \<in> set seen)
       (sink_warn task kind (''duplicate artifact logical name '' @ [CHR 0x27] @ decl_name d @ [CHR 0x27])) @
     check_decls task kind (if decl_name d \<noteq> [] then decl_name d # seen else seen) ds"

definition non_root :: "PipelineDefinition \<Rightarrow> string set" where
  "non_root p = set (map edge_to (pd_edges p))"

definition check_root_inputs :: "Machine \<Rightarrow> ValidationOptions \<Rightarrow> PipelineDefinition \<Rightarrow> TaskDefinition \<Rightarrow> ValidationReport" where
  "check_root_inputs m opt p t =
     (if vo_check_root_inputs_exist opt \<and> td_id t \<notin> non_root p
      then map (\<lambda>missing. sink_error (td_id t) ''inputs''
             (''declared input '' @ [CHR 0x27] @ missing @ [CHR 0x27] @ '' does not exist''))
           (missing_inputs (m_fs m) (artifact_base m p) t)
      else [])"

definition check_task :: "Machine \<Rightarrow> ValidationOptions \<Rightarrow> PipelineDefinition \<Rightarrow> TaskDefinition \<Rightarrow> ValidationReport" where
  "check_task m opt p t =
     (if td_id t = [] then []
      else check_work_dir m p t @ check_program m opt p t @ check_limits opt t @
        check_decls (td_id t) ''inputs'' [] (td_inputs t) @ check_decls (td_id t) ''outputs'' [] (td_outputs t) @
        check_root_inputs m opt p t)"

definition validate_pipeline :: "Machine \<Rightarrow> ValidationOptions \<Rightarrow> PipelineDefinition \<Rightarrow> ValidationReport" where
  "validate_pipeline m opt p =
     report_if (pd_name p = []) (sink_error [] ''name'' ''pipeline has no name'') @
     check_ids m p @ check_graph p @ concat (map (check_task m opt p) (pd_tasks p))"

section \<open>When a report has no error\<close>

named_theorems ok_simps

lemma report_ok_simps [ok_simps]:
  "report_ok []"
  "report_ok (a @ b) \<longleftrightarrow> report_ok a \<and> report_ok b"
  "report_ok (i # rep) \<longleftrightarrow> \<not> is_error i \<and> report_ok rep"
  "report_ok (concat reps) \<longleftrightarrow> (\<forall>rep \<in> set reps. report_ok rep)"
  "report_ok (report_if c i) \<longleftrightarrow> (c \<longrightarrow> \<not> is_error i)"
  "report_ok (map h xs) \<longleftrightarrow> (\<forall>x \<in> set xs. \<not> is_error (h x))"
  "is_error (sink_error t fld msg)" "\<not> is_error (sink_warn t fld msg)"
  by (auto simp: report_ok_def report_if_def is_error_def sink_error_def sink_warn_def list_all_iff)

lemma report_partition: "mset (report_errors rep) + mset (report_warnings rep) = mset rep"
proof -
  have "is_error i \<longleftrightarrow> vi_severity i \<noteq> kWarning" for i
    unfolding is_error_def by (cases "vi_severity i") auto
  then have "mset (report_errors rep) = filter_mset (\<lambda>i. vi_severity i \<noteq> kWarning) (mset rep)"
    by (simp add: report_errors_def)
  then show ?thesis
    using multiset_partition [of "mset rep" "\<lambda>i. vi_severity i = kWarning"]
    by (simp add: report_warnings_def union_commute)
qed

lemma build_errors_nonempty: "\<not> br_ok (build nodes edges) \<Longrightarrow> br_errors (build nodes edges) \<noteq> []"
  by (auto simp: build_def br_ok_def Let_def split: prod.splits if_splits)

lemma check_graph_ok [ok_simps]: "report_ok (check_graph p) \<longleftrightarrow> br_ok (build_graph p)"
  using build_errors_nonempty by (auto simp: check_graph_def build_graph_def ok_simps)

lemma count_id_map: "map_of (count_id v counts) = (map_of counts)(v \<mapsto> (case map_of counts v of None \<Rightarrow> 1 | Some n \<Rightarrow> Suc n))"
  by (induction counts) (auto simp: fun_eq_iff)

lemma count_id_fst: "fst ` set (count_id v counts) = insert v (fst ` set counts)"
  by (induction v counts rule: count_id.induct) auto

lemma count_id_keys: "distinct (map fst counts) \<Longrightarrow> distinct (map fst (count_id v counts))"
  by (induction v counts rule: count_id.induct) (auto simp: count_id_fst)

lemma id_counts_spec:
  "map_of (id_counts p) v = (if v \<in> set (task_ids p) then Some (count_list (task_ids p) v) else None) \<and>
   distinct (map fst (id_counts p))"
proof -
  have "map_of (foldl (\<lambda>counts v. count_id v counts) [] xs) v = (if v \<in> set xs then Some (count_list xs v) else None) \<and>
     distinct (map fst (foldl (\<lambda>counts v. count_id v counts) [] xs))" for xs :: "string list"
    by (induction xs rule: rev_induct) (auto simp: count_id_map count_id_keys count_list_0_iff)
  then show ?thesis
    by (simp add: id_counts_def)
qed

lemma id_counts_mem: "(v, n) \<in> set (id_counts p) \<longleftrightarrow> v \<in> set (task_ids p) \<and> n = count_list (task_ids p) v"
  using id_counts_spec [of p v] map_of_eq_Some_iff [of "id_counts p" v n] by (auto split: if_splits)

lemma count_at_most_one: "(\<forall>v \<in> set xs. count_list xs v \<le> 1) \<longleftrightarrow> distinct xs"
  by (induction xs) (auto simp: count_list_0_iff le_Suc_eq split: if_splits)

text \<open>The order in which the table is walked lists exactly its entries.\<close>

definition lists_all :: "Machine \<Rightarrow> bool" where
  "lists_all m \<longleftrightarrow> (\<forall>xs. set (m_bucket_order m xs) = set xs)"

lemma check_ids_ok:
  assumes "lists_all m"
  shows "report_ok (check_ids m p) \<longleftrightarrow> (\<forall>t \<in> set (pd_tasks p). td_id t \<noteq> []) \<and> distinct (task_ids p)"
proof -
  have "report_ok (check_ids m p) \<longleftrightarrow> (\<forall>t \<in> set (pd_tasks p). td_id t \<noteq> []) \<and> (\<forall>(v, n) \<in> set (id_counts p). n \<le> 1)"
    using assms by (auto simp: check_ids_def ok_simps lists_all_def case_prod_unfold not_less)
  also have "(\<forall>(v, n) \<in> set (id_counts p). n \<le> 1) \<longleftrightarrow> (\<forall>v \<in> set (task_ids p). count_list (task_ids p) v \<le> 1)"
    by (auto simp: id_counts_mem)
  finally show ?thesis
    by (simp only: count_at_most_one)
qed

lemma check_decls_ok: "report_ok (check_decls task kind seen ds) \<longleftrightarrow> (\<forall>d \<in> set ds. decl_path d \<noteq> [])"
  by (induction task kind seen ds rule: check_decls.induct) (auto simp: ok_simps)

section \<open>What is accepted\<close>

definition task_valid :: "Machine \<Rightarrow> ValidationOptions \<Rightarrow> PipelineDefinition \<Rightarrow> TaskDefinition \<Rightarrow> bool" where
  "task_valid m opt p t \<longleftrightarrow>
     (td_working_directory t = [] \<or> m_is_directory m (resolve_working_dir (artifact_base m p) t)) \<and>
     td_program t \<noteq> [] \<and> (vo_check_executables opt \<longrightarrow> program_found m p t) \<and>
     (td_type t = ttPython \<longrightarrow> td_script t \<noteq> [] \<and>
        (vo_check_executables opt \<longrightarrow>
           is_regular_file m (script_path m p t) \<or> produced_upstream m p t (Some (script_path m p t)))) \<and>
     0 \<le> max_retries (td_retry t) \<and> 0 \<le> backoff_multiplier (td_retry t) \<and>
     1 \<le> cpu_cores (td_resources t) \<and> 0 \<le> memory_mb (td_resources t) \<and> 0 \<le> gpu_count (td_resources t) \<and>
     (case td_timeout t of Some v \<Rightarrow> 0 < v | None \<Rightarrow> True) \<and>
     (case vo_resource_pool opt of Some pool \<Rightarrow> can_ever_fit pool (td_resources t) | None \<Rightarrow> True) \<and>
     (\<forall>d \<in> set (td_inputs t) \<union> set (td_outputs t). decl_path d \<noteq> []) \<and>
     (vo_check_root_inputs_exist opt \<and> td_id t \<notin> non_root p \<longrightarrow>
        missing_inputs (m_fs m) (artifact_base m p) t = [])"

lemma check_limits_ok:
  "report_ok (check_limits opt t) \<longleftrightarrow>
     0 \<le> max_retries (td_retry t) \<and> 0 \<le> backoff_multiplier (td_retry t) \<and>
     1 \<le> cpu_cores (td_resources t) \<and> 0 \<le> memory_mb (td_resources t) \<and> 0 \<le> gpu_count (td_resources t) \<and>
     (case td_timeout t of Some v \<Rightarrow> 0 < v | None \<Rightarrow> True) \<and>
     (case vo_resource_pool opt of Some pool \<Rightarrow> can_ever_fit pool (td_resources t) | None \<Rightarrow> True)"
  by (auto simp: check_limits_def ok_simps not_less not_le split: option.split)

lemma check_program_ok:
  "report_ok (check_program m opt p t) \<longleftrightarrow>
     td_program t \<noteq> [] \<and> (vo_check_executables opt \<longrightarrow> program_found m p t) \<and>
     (td_type t = ttPython \<longrightarrow> td_script t \<noteq> [] \<and>
        (vo_check_executables opt \<longrightarrow>
           is_regular_file m (script_path m p t) \<or> produced_upstream m p t (Some (script_path m p t))))"
  by (auto simp: check_program_def ok_simps)

lemma check_task_ok:
  "td_id t \<noteq> [] \<Longrightarrow> report_ok (check_task m opt p t) \<longleftrightarrow> task_valid m opt p t"
  unfolding check_task_def task_valid_def
  by (auto simp: ok_simps check_limits_ok check_program_ok check_decls_ok check_work_dir_def check_root_inputs_def Let_def)

lemma task_ids_all: "\<forall>t \<in> set (pd_tasks p). td_id t \<noteq> [] \<Longrightarrow> task_ids p = map td_id (pd_tasks p)"
  by (auto simp: task_ids_def filter_id_conv)

lemma validate_ok_iff:
  assumes "lists_all m"
  shows "report_ok (validate_pipeline m opt p) \<longleftrightarrow>
    pd_name p \<noteq> [] \<and> (\<forall>t \<in> set (pd_tasks p). td_id t \<noteq> []) \<and>
    br_ok (build (map td_id (pd_tasks p)) (edge_pairs p)) \<and> (\<forall>t \<in> set (pd_tasks p). task_valid m opt p t)"
proof (cases "\<forall>t \<in> set (pd_tasks p). td_id t \<noteq> []")
  case True
  have "br_ok (build nodes es) \<Longrightarrow> distinct nodes" for nodes es
    using build_wf(1) build_wf(2) by (force simp: br_ok_def dag_wf_def Let_def)
  then show ?thesis
    using True task_ids_all [OF True]
    by (auto simp: validate_pipeline_def ok_simps check_ids_ok [OF assms] build_graph_def check_task_ok)
next
  case False
  then show ?thesis
    by (auto simp: validate_pipeline_def ok_simps check_ids_ok [OF assms])
qed

end
