(* ===== verification/Numerals.thy ===== *)
theory Numerals
  imports Util
begin

text \<open>
  Reading decimal integers as the C library does: \<^verbatim>\<open>strtol\<close> (used by the option parser) and
  \<^verbatim>\<open>std::stoi\<close> (used for environment variables). Both skip white space, accept a sign, read
  the longest run of digits and stop at the first other character.
\<close>

definition is_digit :: "char \<Rightarrow> bool" where
  "is_digit c \<longleftrightarrow> CHR ''0'' \<le> c \<and> c \<le> CHR ''9''"

definition digit_value :: "char \<Rightarrow> int" where
  "digit_value c = int (of_char c) - 48"

definition digits_value :: "string \<Rightarrow> int" where
  "digits_value ds = foldl (\<lambda>n c. 10 * n + digit_value c) 0 ds"

definition scan_sign :: "string \<Rightarrow> bool \<times> string" where
  "scan_sign s =
     (case s of
        c # cs \<Rightarrow> if c = CHR ''-'' then (True, cs) else if c = CHR ''+'' then (False, cs) else (False, s)
      | [] \<Rightarrow> (False, s))"

text \<open>The number and what follows it, or nothing if there is no digit.\<close>

definition scan_int :: "string \<Rightarrow> (int \<times> string) option" where
  "scan_int s =
     (let (neg, u) = scan_sign (dropWhile is_space s);
          ds = takeWhile is_digit u
      in if ds = [] then None
         else Some (if neg then - digits_value ds else digits_value ds, dropWhile is_digit u))"

definition clamp :: "int \<Rightarrow> int \<Rightarrow> int \<Rightarrow> int" where
  "clamp lo hi v = max lo (min hi v)"

text \<open>\<^verbatim>\<open>strtol(s, &end, 10)\<close> with the test for a complete match that the callers make.\<close>

definition strtol_exact :: "string \<Rightarrow> int option" where
  "strtol_exact s =
     (case scan_int s of
        Some (v, []) \<Rightarrow> Some (clamp (- (2 ^ 63)) (2 ^ 63 - 1) v)
      | _ \<Rightarrow> None)"

text \<open>\<^verbatim>\<open>std::stoi\<close>, with every exception turned into an absent value.\<close>

definition stoi :: "string \<Rightarrow> int option" where
  "stoi s =
     (case scan_int s of
        Some (v, _) \<Rightarrow> if - (2 ^ 31) \<le> v \<and> v < 2 ^ 31 then Some v else None
      | None \<Rightarrow> None)"

end
