(* ===== verification/Config.thy ===== *)
theory Config
  imports Pipeline_Document Numerals
begin

text \<open>
  The engine's settings, \<^verbatim>\<open>src/src/core/engine/config.cpp\<close>: built-in defaults, a JSON file, the
  environment, and the final clamping. The number of hardware threads, the environment and the
  readable files are arguments.
\<close>

record Config =
  c_state_dir :: string
  c_max_concurrency :: int
  c_python_interpreter :: string
  c_database_path :: string
  c_cache_enabled :: bool
  c_compute_checksums :: bool
  c_verify_outputs :: bool
  c_resource_capacity :: ResourceCapacity
  c_log_level :: string

definition detect_cpu_count :: "nat \<Rightarrow> int" where
  "detect_cpu_count hc = (if hc = 0 then 4 else int hc)"

type_synonym getenv = "string \<Rightarrow> string option"

definition env_text :: "getenv \<Rightarrow> string \<Rightarrow> string option" where
  "env_text getenv name = (case getenv name of Some [] \<Rightarrow> None | v \<Rightarrow> v)"

definition env_int :: "getenv \<Rightarrow> string \<Rightarrow> int option" where
  "env_int getenv name = (case env_text getenv name of None \<Rightarrow> None | Some v \<Rightarrow> stoi v)"

definition env_bool :: "getenv \<Rightarrow> string \<Rightarrow> bool option" where
  "env_bool getenv name =
     (case env_text getenv name of
        None \<Rightarrow> None
      | Some v \<Rightarrow>
          let w = to_lower v in
          if w \<in> {''1'', ''true'', ''yes'', ''on''} then Some True
          else if w \<in> {''0'', ''false'', ''no'', ''off''} then Some False
          else None)"

definition config_defaults :: "nat \<Rightarrow> Config" where
  "config_defaults hc =
     \<lparr>c_state_dir = ''.flowforge'', c_max_concurrency = min (detect_cpu_count hc) 8, c_python_interpreter = ''python3'',
      c_database_path = [], c_cache_enabled = True, c_compute_checksums = False, c_verify_outputs = True,
      c_resource_capacity = \<lparr>total_cpu_cores = detect_cpu_count hc, total_memory_mb = 2 ^ 20, total_gpu_count = 0\<rparr>,
      c_log_level = ''info''\<rparr>"

section \<open>The configuration file\<close>

definition string_member :: "Json \<Rightarrow> string \<Rightarrow> string \<Rightarrow> string" where
  "string_member doc key dflt = (case jfind doc key of Some (JStr s) \<Rightarrow> s | _ \<Rightarrow> dflt)"

definition int_member :: "(int \<Rightarrow> int) \<Rightarrow> Json \<Rightarrow> string \<Rightarrow> int \<Rightarrow> int" where
  "int_member narrow doc key dflt = (case jfind doc key of Some (JInt i) \<Rightarrow> narrow i | _ \<Rightarrow> dflt)"

definition bool_member :: "Json \<Rightarrow> string \<Rightarrow> bool \<Rightarrow> bool" where
  "bool_member doc key dflt = (case jfind doc key of Some (JBool b) \<Rightarrow> b | _ \<Rightarrow> dflt)"

definition apply_resources :: "Json \<Rightarrow> ResourceCapacity \<Rightarrow> ResourceCapacity" where
  "apply_resources doc rc =
     (case jfind doc ''resources'' of
        Some (JObj r) \<Rightarrow>
          rc\<lparr>total_cpu_cores := int_member to_int32 (JObj r) ''cpu_cores'' (total_cpu_cores rc),
             total_memory_mb := int_member to_int64 (JObj r) ''memory_mb'' (total_memory_mb rc),
             total_gpu_count := int_member to_int32 (JObj r) ''gpu_count'' (total_gpu_count rc)\<rparr>
      | _ \<Rightarrow> rc)"

definition apply_json :: "Config \<Rightarrow> Json \<Rightarrow> Config" where
  "apply_json cfg doc =
     (case doc of
        JObj kvs \<Rightarrow>
          \<lparr>c_state_dir = string_member doc ''state_dir'' (c_state_dir cfg),
           c_max_concurrency = int_member to_int32 doc ''max_concurrency'' (c_max_concurrency cfg),
           c_python_interpreter = string_member doc ''python_interpreter'' (c_python_interpreter cfg),
           c_database_path = string_member doc ''database_path'' (c_database_path cfg),
           c_cache_enabled = bool_member doc ''cache_enabled'' (c_cache_enabled cfg),
           c_compute_checksums = bool_member doc ''compute_checksums'' (c_compute_checksums cfg),
           c_verify_outputs = bool_member doc ''verify_outputs'' (c_verify_outputs cfg),
           c_resource_capacity = apply_resources doc (c_resource_capacity cfg),
           c_log_level = string_member doc ''log_level'' (c_log_level cfg)\<rparr>
      | _ \<Rightarrow> cfg)"

record LoadOptions =
  lo_working_dir :: string
  lo_explicit_config_file :: "string option"

definition config_candidates :: "LoadOptions \<Rightarrow> Config \<Rightarrow> string list" where
  "config_candidates opt cfg =
     (case lo_explicit_config_file opt of
        Some f \<Rightarrow> [f]
      | None \<Rightarrow> [path_append (path_append (lo_working_dir opt) (c_state_dir cfg)) ''config.json'',
                 path_append (lo_working_dir opt) ''flowforge.json''])"

text \<open>The first file that opens is the one that counts, even if it is malformed.\<close>

fun apply_files :: "JsonCodec \<Rightarrow> (string \<Rightarrow> string option) \<Rightarrow> string list \<Rightarrow> Config \<Rightarrow> Config" where
  "apply_files codec contents [] cfg = cfg"
| "apply_files codec contents (path # paths) cfg =
     (case contents path of
        None \<Rightarrow> apply_files codec contents paths cfg
      | Some txt \<Rightarrow> (case parse codec txt of Some doc \<Rightarrow> apply_json cfg doc | None \<Rightarrow> cfg))"

section \<open>The environment\<close>

definition override :: "'a option \<Rightarrow> 'a \<Rightarrow> 'a" where
  "override v dflt = (case v of Some x \<Rightarrow> x | None \<Rightarrow> dflt)"

definition apply_env :: "getenv \<Rightarrow> Config \<Rightarrow> Config" where
  "apply_env getenv cfg =
     cfg\<lparr>c_state_dir := override (env_text getenv ''FLOWFORGE_STATE_DIR'') (c_state_dir cfg),
         c_max_concurrency := override (env_int getenv ''FLOWFORGE_MAX_CONCURRENCY'') (c_max_concurrency cfg),
         c_python_interpreter := override (env_text getenv ''FLOWFORGE_PYTHON'') (c_python_interpreter cfg),
         c_database_path := override (env_text getenv ''FLOWFORGE_DB'') (c_database_path cfg),
         c_cache_enabled := override (env_bool getenv ''FLOWFORGE_CACHE'') (c_cache_enabled cfg),
         c_compute_checksums := override (env_bool getenv ''FLOWFORGE_CHECKSUMS'') (c_compute_checksums cfg),
         c_log_level := override (env_text getenv ''FLOWFORGE_LOG_LEVEL'') (c_log_level cfg),
         c_resource_capacity := (c_resource_capacity cfg)\<lparr>total_cpu_cores :=
           override (env_int getenv ''FLOWFORGE_CPU_CORES'') (total_cpu_cores (c_resource_capacity cfg))\<rparr>\<rparr>"

definition clamp_config :: "Config \<Rightarrow> Config" where
  "clamp_config cfg =
     cfg\<lparr>c_max_concurrency := (if c_max_concurrency cfg < 1 then 1 else c_max_concurrency cfg),
         c_resource_capacity := (c_resource_capacity cfg)\<lparr>total_cpu_cores :=
           (if total_cpu_cores (c_resource_capacity cfg) < 1 then 1 else total_cpu_cores (c_resource_capacity cfg))\<rparr>\<rparr>"

definition config_load ::
    "nat \<Rightarrow> getenv \<Rightarrow> JsonCodec \<Rightarrow> (string \<Rightarrow> string option) \<Rightarrow> LoadOptions \<Rightarrow> Config" where
  "config_load hc getenv codec contents opt =
     (let cfg = config_defaults hc
      in clamp_config (apply_env getenv (apply_files codec contents (config_candidates opt cfg) cfg)))"

definition resolved_database_path :: "Config \<Rightarrow> string" where
  "resolved_database_path cfg =
     (if c_database_path cfg \<noteq> [] then c_database_path cfg else path_append (c_state_dir cfg) ''flowforge.sqlite'')"

definition cancel_dir :: "Config \<Rightarrow> string" where
  "cancel_dir cfg = path_append (c_state_dir cfg) ''cancel''"

section \<open>Bounds and precedence\<close>

lemma stoi_range: "stoi s = Some v \<Longrightarrow> in_int32 v"
  by (auto simp: stoi_def in_int32_def split: option.splits if_splits)

lemma env_int_range: "env_int getenv name = Some v \<Longrightarrow> in_int32 v"
  by (auto simp: env_int_def dest: stoi_range split: option.splits)

definition config_in_range :: "Config \<Rightarrow> bool" where
  "config_in_range cfg \<longleftrightarrow> in_int32 (c_max_concurrency cfg) \<and> in_int32 (total_cpu_cores (c_resource_capacity cfg)) \<and>
     in_int64 (total_memory_mb (c_resource_capacity cfg)) \<and> in_int32 (total_gpu_count (c_resource_capacity cfg))"

lemma int_member_range: "in_int32 d \<Longrightarrow> in_int32 (int_member to_int32 j k d)"
    "in_int64 d \<Longrightarrow> in_int64 (int_member to_int64 j k d)"
  by (auto simp: int_member_def split: option.split Json.split)

lemma apply_json_range: "config_in_range cfg \<Longrightarrow> config_in_range (apply_json cfg doc)"
  by (cases doc) (auto simp: config_in_range_def apply_json_def apply_resources_def int_member_range simp del: in_int32_64
      split: option.split Json.split)

lemma apply_files_range: "config_in_range cfg \<Longrightarrow> config_in_range (apply_files codec contents paths cfg)"
  by (induction paths) (auto simp: apply_json_range split: option.split)

lemma apply_env_range: "config_in_range cfg \<Longrightarrow> config_in_range (apply_env getenv cfg)"
  by (auto simp: config_in_range_def apply_env_def override_def env_int_range split: option.split)

lemma config_load_range:
  assumes "hc < 2 ^ 31"
  shows "config_in_range (config_load hc getenv codec contents opt)"
proof -
  have "config_in_range (config_defaults hc)"
    using assms by (auto simp: config_in_range_def config_defaults_def detect_cpu_count_def in_int32_def in_int64_def min_def)
  then have "config_in_range (apply_env getenv (apply_files codec contents (config_candidates opt (config_defaults hc)) (config_defaults hc)))"
    by (simp add: apply_files_range apply_env_range)
  moreover have "config_in_range cfg \<Longrightarrow> config_in_range (clamp_config cfg)" for cfg
    by (auto simp: config_in_range_def clamp_config_def in_int32_def)
  ultimately show ?thesis
    by (simp add: config_load_def Let_def)
qed

lemma config_load_at_least_one:
  "1 \<le> c_max_concurrency (config_load hc getenv codec contents opt)"
  "1 \<le> total_cpu_cores (c_resource_capacity (config_load hc getenv codec contents opt))"
  by (simp_all add: config_load_def Let_def clamp_config_def)

text \<open>A non-empty environment variable wins over the file, the file over the default.\<close>

lemma config_load_state_dir:
  "c_state_dir (config_load hc getenv codec contents opt) =
     (case env_text getenv ''FLOWFORGE_STATE_DIR'' of
        Some v \<Rightarrow> v
      | None \<Rightarrow> c_state_dir (apply_files codec contents (config_candidates opt (config_defaults hc)) (config_defaults hc)))"
  by (simp add: config_load_def Let_def clamp_config_def apply_env_def override_def split: option.split)

end
