(* ===== verification/Engine.thy ===== *)
theory Engine
  imports Scheduler_Effects Storage Validator Config
begin

text \<open>
  The application layer, \<^verbatim>\<open>src/src/core/engine/engine.cpp\<close>: the observer that mirrors the
  scheduler's notices into the database, a pipeline run from validation to the final row,
  recovery of runs a dead process left behind, cancellation requests and the queries. The
  clock is an argument indexed by a tick; what the scheduler did in its run is an argument of
  \<open>run_pipeline\<close>, since it depends on the children and on other threads.
\<close>

section \<open>PersistenceObserver\<close>

type_synonym clock = "nat \<Rightarrow> TimePoint"

record Persistence =
  ps_db :: Database
  ps_buffer :: "LogRecord list"
  ps_tick :: nat

definition now_ms :: "clock \<Rightarrow> Persistence \<Rightarrow> int \<times> Persistence" where
  "now_ms clk p = (to_unix_millis (clk (ps_tick p)), p\<lparr>ps_tick := Suc (ps_tick p)\<rparr>)"

definition tp_ms :: "TimePoint option \<Rightarrow> int option" where
  "tp_ms tp = map_option to_unix_millis tp"

definition if_some :: "'a option \<Rightarrow> ('a \<Rightarrow> 'b \<Rightarrow> 'b) \<Rightarrow> 'b \<Rightarrow> 'b" where
  "if_some x f y = (case x of Some v \<Rightarrow> f v y | None \<Rightarrow> y)"

definition store_task_state :: "int \<Rightarrow> TaskRun \<Rightarrow> Database \<Rightarrow> Database" where
  "store_task_state i task db =
     task_runs_set_attempts i (int (length (tr_attempts task)))
       (if_some (tr_finished_at task) (\<lambda>t. task_runs_set_finished_at i (to_unix_millis t))
         (if_some (tr_started_at task) (\<lambda>t. task_runs_set_started_at i (to_unix_millis t))
           (if_some (tr_ready_at task) (\<lambda>t. task_runs_set_ready_at i (to_unix_millis t))
             (task_runs_set_state i (to_string_TaskState (tr_state task)) db))))"

definition attempt_record :: "int \<Rightarrow> TaskAttempt \<Rightarrow> TaskAttemptRecord" where
  "attempt_record i att =
     \<lparr>tatt_id = 0, tatt_task_run_id = i, tatt_attempt_number = att_number att,
      tatt_state = to_string_TaskState (att_final_state att),
      tatt_result_kind = to_string_ResultKind (res_kind (att_result att)),
      tatt_exit_code = res_exit_code (att_result att), tatt_term_signal = res_term_signal (att_result att),
      tatt_pid = att_pid att, tatt_started_at = tp_ms (att_started_at att), tatt_finished_at = tp_ms (att_finished_at att),
      tatt_message = (if res_message (att_result att) = [] then None else Some (res_message (att_result att)))\<rparr>"

definition flush :: "Persistence \<Rightarrow> (DatabaseError + unit) \<times> Persistence" where
  "flush p =
     (if ps_buffer p = [] then (Inr (), p)
      else case logs_insert_batch (ps_buffer p) (ps_db p) of
             (Inl e, db) \<Rightarrow> (Inl e, p\<lparr>ps_db := db\<rparr>)
           | (Inr _, db) \<Rightarrow> (Inr (), p\<lparr>ps_db := db, ps_buffer := []\<rparr>))"

definition kLogBatch :: nat where "kLogBatch = 128"

definition log_record :: "int \<Rightarrow> TaskId \<Rightarrow> int \<Rightarrow> int \<Rightarrow> string \<Rightarrow> string \<Rightarrow> LogRecord" where
  "log_record run task_id attempt ts stream line =
     \<lparr>log_run_id = run, log_task_id = Some task_id, log_attempt_number = Some attempt, log_ts = ts,
      log_severity = (if stream = ''stderr'' then ''warn'' else ''info''), log_stream = stream, log_message = line\<rparr>"

definition finish_record :: "int \<Rightarrow> int \<Rightarrow> PipelineState \<Rightarrow> LogRecord" where
  "finish_record run ts st =
     \<lparr>log_run_id = run, log_task_id = None, log_attempt_number = None, log_ts = ts,
      log_severity = (if st = psSucceeded then ''info'' else ''error''), log_stream = ''engine'',
      log_message = ''pipeline '' @ to_string_PipelineState st\<rparr>"

fun persist :: "clock \<Rightarrow> int \<Rightarrow> (string \<times> int) list \<Rightarrow> Persistence \<Rightarrow> Notice \<Rightarrow> (DatabaseError + unit) \<times> Persistence" where
  "persist clk run ids p (on_run_started r) = (Inr (), p)"
| "persist clk run ids p (on_task_state_changed task prev) =
     (case map_of ids (tr_task_id task) of
        None \<Rightarrow> (Inr (), p)
      | Some i \<Rightarrow> (Inr (), p\<lparr>ps_db := store_task_state i task (ps_db p)\<rparr>))"
| "persist clk run ids p (on_task_attempt_recorded task att) =
     (case map_of ids (tr_task_id task) of
        None \<Rightarrow> (Inr (), p)
      | Some i \<Rightarrow>
          (case attempts_insert (attempt_record i att) (ps_db p) of
             (Inl e, db) \<Rightarrow> (Inl e, p\<lparr>ps_db := db\<rparr>)
           | (Inr _, db) \<Rightarrow> (Inr (), p\<lparr>ps_db := db\<rparr>)))"
| "persist clk run ids p (on_task_log task_id attempt stream line) =
     (let (ts, p1) = now_ms clk p;
          p2 = p1\<lparr>ps_buffer := ps_buffer p1 @ [log_record run task_id attempt ts stream line]\<rparr>
      in if kLogBatch \<le> length (ps_buffer p2) then flush p2 else (Inr (), p2))"
| "persist clk run ids p (on_run_finished r) =
     (let (ts, p1) = now_ms clk p
      in flush (p1\<lparr>ps_buffer := ps_buffer p1 @ [finish_record run ts (run_state r)]\<rparr>))"

fun persist_all :: "clock \<Rightarrow> int \<Rightarrow> (string \<times> int) list \<Rightarrow> Persistence \<Rightarrow> Notice list \<Rightarrow> (DatabaseError + unit) \<times> Persistence" where
  "persist_all clk run ids p [] = (Inr (), p)"
| "persist_all clk run ids p (n # ns) =
     (case persist clk run ids p n of
        (Inl e, p1) \<Rightarrow> (Inl e, p1)
      | (Inr _, p1) \<Rightarrow> persist_all clk run ids p1 ns)"

section \<open>FanoutObserver\<close>

text \<open>An observer as a function on the state it keeps; an exception of one leaves the fan-out at once.\<close>

type_synonym 's sink = "'s \<Rightarrow> Notice \<Rightarrow> (DatabaseError + unit) \<times> 's"

definition fanout_add :: "'s sink option \<Rightarrow> 's sink list \<Rightarrow> 's sink list" where
  "fanout_add obs sinks = (case obs of Some f \<Rightarrow> sinks @ [f] | None \<Rightarrow> sinks)"

fun fanout :: "'s sink list \<Rightarrow> 's sink" where
  "fanout [] s n = (Inr (), s)"
| "fanout (f # fs) s n = (case f s n of (Inl e, s1) \<Rightarrow> (Inl e, s1) | (Inr _, s1) \<Rightarrow> fanout fs s1 n)"

fun fanout_all :: "'s sink list \<Rightarrow> 's \<Rightarrow> Notice list \<Rightarrow> (DatabaseError + unit) \<times> 's" where
  "fanout_all sinks s [] = (Inr (), s)"
| "fanout_all sinks s (n # ns) =
     (case fanout sinks s n of (Inl e, s1) \<Rightarrow> (Inl e, s1) | (Inr _, s1) \<Rightarrow> fanout_all sinks s1 ns)"

section \<open>The watcher thread\<close>

text \<open>
  What the watcher sees each time it looks: whether the run is still active, the flag the signal
  handler sets, and the sentinel file. It calls \<^verbatim>\<open>cancel()\<close> at most once and ends.
\<close>

record Look =
  lk_run_active :: bool
  lk_external_cancel :: bool
  lk_sentinel :: bool

fun watcher :: "Look list \<Rightarrow> bool" where
  "watcher [] = False"
| "watcher (l # ls) =
     (if \<not> lk_run_active l then False
      else if lk_external_cancel l \<or> lk_sentinel l then True
      else watcher ls)"

lemma watcher_cancels:
  "watcher ls \<longleftrightarrow> (\<exists>l \<in> set (takeWhile lk_run_active ls). lk_external_cancel l \<or> lk_sentinel l)"
  by (induction ls) auto

section \<open>Recovery\<close>

definition recover_task :: "clock \<Rightarrow> Persistence \<Rightarrow> TaskRunRecord \<Rightarrow> Persistence" where
  "recover_task clk p tr =
     (if (case parse_task_state (trun_state tr) of Some st \<Rightarrow> \<not> is_terminal_task st | None \<Rightarrow> True)
      then let p1 = p\<lparr>ps_db := task_runs_set_state (trun_id tr) ''CANCELLED'' (ps_db p)\<rparr>;
               (ts, p2) = now_ms clk p1
           in p2\<lparr>ps_db := task_runs_set_finished_at (trun_id tr) ts (ps_db p2)\<rparr>
      else p)"

definition recover_run :: "clock \<Rightarrow> int \<times> Persistence \<Rightarrow> PipelineRunRecord \<Rightarrow> int \<times> Persistence" where
  "recover_run clk tp run =
     (case tp of (touched, p) \<Rightarrow>
      let p1 = p\<lparr>ps_db := runs_set_state (prun_id run) ''INTERRUPTED'' (ps_db p)\<rparr>;
          (ts, p2) = now_ms clk p1;
          p3 = p2\<lparr>ps_db := runs_mark_finished (prun_id run) ''INTERRUPTED'' ts (ps_db p2)\<rparr>
      in (touched + 1, foldl (recover_task clk) p3 (task_runs_list_for_run (prun_id run) (ps_db p3))))"

definition recover_state :: "clock \<Rightarrow> int \<times> Persistence \<Rightarrow> string \<Rightarrow> int \<times> Persistence" where
  "recover_state clk tp stale_state = foldl (recover_run clk) tp (runs_list_in_state stale_state (ps_db (snd tp)))"

definition recover_orphaned_runs :: "clock \<Rightarrow> Persistence \<Rightarrow> int \<times> Persistence" where
  "recover_orphaned_runs clk p = foldl (recover_state clk) (0, p) [''RUNNING'', ''CREATED'']"

section \<open>Running a pipeline\<close>

record RunRequest =
  rq_max_concurrency :: "int option"
  rq_cache_enabled :: "bool option"
  rq_compute_checksums :: "bool option"

record RunReport =
  rr_validation_failed :: bool
  rr_validation :: ValidationReport
  rr_run_id :: int
  rr_state :: PipelineState
  rr_run :: "PipelineRun option"

definition effective_concurrency :: "Config \<Rightarrow> RunRequest \<Rightarrow> PipelineDefinition \<Rightarrow> int" where
  "effective_concurrency cfg req p =
     override (rq_max_concurrency req) (if 0 < pd_max_concurrency p then pd_max_concurrency p else c_max_concurrency cfg)"

definition run_validation_options :: "Config \<Rightarrow> ValidationOptions" where
  "run_validation_options cfg =
     \<lparr>vo_check_executables = True, vo_check_root_inputs_exist = False,
      vo_resource_pool = Some (mk_ResourcePool (c_resource_capacity cfg))\<rparr>"

definition run_graph :: "PipelineDefinition \<Rightarrow> DagBuildResult" where
  "run_graph p = build (map td_id (pd_tasks p)) (edge_pairs p)"

text \<open>What the scheduler is given; \<open>world\<close> supplies the clock, the files, the policy and the runner.\<close>

definition run_env :: "RunEnv \<Rightarrow> Config \<Rightarrow> RunRequest \<Rightarrow> PipelineDefinition \<Rightarrow> Dag \<Rightarrow> RunEnv" where
  "run_env world cfg req p graph =
     world\<lparr>e_pipeline := p, e_graph := graph, e_has_cache := True,
       e_config := \<lparr>cfg_max_concurrency = effective_concurrency cfg req p,
         cfg_resource_capacity = c_resource_capacity cfg, cfg_verify_outputs = c_verify_outputs cfg,
         cfg_force_checksums = override (rq_compute_checksums req) (c_compute_checksums cfg)\<rparr>\<rparr>"

fun create_task_runs :: "int \<Rightarrow> string list \<Rightarrow> (string \<times> int) list db_op" where
  "create_task_runs run [] db = (Inr [], db)"
| "create_task_runs run (t # ts) db =
     (case task_runs_create run t ''PENDING'' db of
        (Inl e, db1) \<Rightarrow> (Inl e, db1)
      | (Inr i, db1) \<Rightarrow>
          (case create_task_runs run ts db1 of
             (Inl e, db2) \<Rightarrow> (Inl e, db2)
           | (Inr ids, db2) \<Rightarrow> (Inr ((t, i) # ids), db2)))"

definition kInvalidRunId :: int where "kInvalidRunId = -1"

definition rejected :: "ValidationReport \<Rightarrow> RunReport" where
  "rejected issues =
     \<lparr>rr_validation_failed = True, rr_validation = issues, rr_run_id = kInvalidRunId, rr_state = psFailed, rr_run = None\<rparr>"

text \<open>
  How a call ends: it returns, a database error leaves it before the run starts, or an exception
  leaves \<^verbatim>\<open>sched.run()\<close> while the watcher thread is still joinable, which ends the process.
\<close>

datatype RunOutcome = Returned RunReport | Threw DatabaseError | StdTerminate

definition finish_run :: "clock \<Rightarrow> int \<Rightarrow> (string \<times> int) list \<Rightarrow> ValidationReport \<Rightarrow> Pc \<times> Sched \<Rightarrow> Persistence \<Rightarrow>
    RunOutcome \<times> Persistence" where
  "finish_run clk run ids issues res p =
     (case res of (pc, s) \<Rightarrow>
      (case persist_all clk run ids p (s_notices s) of
        (Inl e, p1) \<Rightarrow> (StdTerminate, p1)
      | (Inr _, p1) \<Rightarrow>
          if pc = pcThrew then (StdTerminate, p1)
          else let p2 = p1\<lparr>ps_db := (ps_db p1)\<lparr>db_cache := cs_repo (s_cache s)\<rparr>\<rparr>;
                   (ts, p3) = now_ms clk p2
               in (Returned \<lparr>rr_validation_failed = False, rr_validation = issues, rr_run_id = run,
                             rr_state = run_state (s_run s), rr_run = Some (s_run s)\<rparr>,
                   p3\<lparr>ps_db := runs_mark_finished run (to_string_PipelineState (run_state (s_run s))) ts (ps_db p3)\<rparr>)))"

definition run_pipeline ::
    "clock \<Rightarrow> Machine \<Rightarrow> RunEnv \<Rightarrow> (RunEnv \<Rightarrow> CacheStore \<Rightarrow> Pc \<times> Sched) \<Rightarrow> Config \<Rightarrow> PipelineDefinition \<Rightarrow> RunRequest \<Rightarrow>
     Persistence \<Rightarrow> RunOutcome \<times> Persistence" where
  "run_pipeline clk m world sched cfg pipeline req p =
     (let issues = validate_pipeline m (run_validation_options cfg) pipeline in
      if \<not> report_ok issues then (Returned (rejected issues), p)
      else (case br_dag (run_graph pipeline) of
        None \<Rightarrow> (Returned (rejected (issues @
                  map (\<lambda>de. sink_error [] ''dependencies'' (de_message de)) (br_errors (run_graph pipeline)))), p)
      | Some graph \<Rightarrow>
          (let doc_json = dump_pipeline (e_codec world) pipeline;
               (ts1, p1) = now_ms clk p
           in (case pipelines_upsert (pd_name pipeline) doc_json (sha256_hex doc_json) ts1 (ps_db p1) of
                 (Inl e, db) \<Rightarrow> (Threw e, p1\<lparr>ps_db := db\<rparr>)
               | (Inr pipeline_id, db1) \<Rightarrow>
          (let (ts2, p2) = now_ms clk (p1\<lparr>ps_db := db1\<rparr>)
           in (case runs_create pipeline_id (pd_name pipeline) (effective_concurrency cfg req pipeline) ''CREATED'' ts2 (ps_db p2) of
                 (Inl e, db) \<Rightarrow> (Threw e, p2\<lparr>ps_db := db\<rparr>)
               | (Inr run, db2) \<Rightarrow>
          (case create_task_runs run (map td_id (pd_tasks pipeline)) db2 of
               (Inl e, db) \<Rightarrow> (Threw e, p2\<lparr>ps_db := db\<rparr>)
             | (Inr ids, db3) \<Rightarrow>
          (let (ts3, p3) = now_ms clk (p2\<lparr>ps_db := db3, ps_buffer := []\<rparr>);
               p4 = p3\<lparr>ps_db := runs_mark_started run ts3 (ps_db p3)\<rparr>;
               cache = \<lparr>cs_repo = db_cache (ps_db p4), cs_enabled = override (rq_cache_enabled req) (c_cache_enabled cfg)\<rparr>
           in finish_run clk run ids issues (sched (run_env world cfg req pipeline graph) cache) p4))))))))"

section \<open>Cancellation requests\<close>

definition sentinel :: "Config \<Rightarrow> int \<Rightarrow> string" where
  "sentinel cfg run = path_append (cancel_dir cfg) (to_string_int run)"

text \<open>The answer, and the sentinel file that is created.\<close>

definition request_cancel :: "Config \<Rightarrow> int \<Rightarrow> Database \<Rightarrow> bool \<times> string option" where
  "request_cancel cfg run db =
     (case runs_get run db of
        None \<Rightarrow> (False, None)
      | Some rec \<Rightarrow>
          if (case parse_pipeline_state (prun_state rec) of Some st \<Rightarrow> is_terminal_pipeline st | None \<Rightarrow> False)
          then (False, None)
          else (True, Some (sentinel cfg run)))"

section \<open>Queries\<close>

record TaskView =
  tv_task_id :: string
  tv_state :: TaskState
  tv_started_at :: "int option"
  tv_finished_at :: "int option"
  tv_attempts :: int
  tv_last_exit_code :: "int option"

record RunView =
  rv_id :: int
  rv_pipeline_name :: string
  rv_state :: PipelineState
  rv_created_at :: int
  rv_started_at :: "int option"
  rv_finished_at :: "int option"
  rv_max_concurrency :: int
  rv_counts :: RunCounts
  rv_tasks :: "TaskView list"

definition run_view :: "PipelineRunRecord \<Rightarrow> RunView" where
  "run_view rec =
     \<lparr>rv_id = prun_id rec, rv_pipeline_name = prun_name rec,
      rv_state = override (parse_pipeline_state (prun_state rec)) psCreated, rv_created_at = prun_created_at rec,
      rv_started_at = prun_started_at rec, rv_finished_at = prun_finished_at rec,
      rv_max_concurrency = prun_max_concurrency rec, rv_counts = RunCounts_zero, rv_tasks = []\<rparr>"

definition task_view :: "Database \<Rightarrow> TaskRunRecord \<Rightarrow> TaskView" where
  "task_view db tr =
     (let atts = attempts_list_for_task_run (trun_id tr) db
      in \<lparr>tv_task_id = trun_task_id tr, tv_state = override (parse_task_state (trun_state tr)) tsPending,
          tv_started_at = trun_started_at tr, tv_finished_at = trun_finished_at tr, tv_attempts = trun_attempts tr,
          tv_last_exit_code = (if atts \<noteq> [] then tatt_exit_code (last atts) else None)\<rparr>)"

definition add_task_view :: "Database \<Rightarrow> RunView \<Rightarrow> TaskRunRecord \<Rightarrow> RunView" where
  "add_task_view db view tr =
     (let tv = task_view db tr
      in view\<lparr>rv_counts := RunCounts_add (rv_counts view) (tv_state tv), rv_tasks := rv_tasks view @ [tv]\<rparr>)"

definition get_run :: "int \<Rightarrow> Database \<Rightarrow> RunView option" where
  "get_run i db =
     (case runs_get i db of
        None \<Rightarrow> None
      | Some rec \<Rightarrow> Some (foldl (add_task_view db) (run_view rec) (task_runs_list_for_run i db)))"

definition list_runs :: "int \<Rightarrow> Database \<Rightarrow> RunView list" where
  "list_runs bound db = map run_view (runs_list_recent bound db)"

definition get_logs :: "int \<Rightarrow> string option \<Rightarrow> int \<Rightarrow> Database \<Rightarrow> LogRecord list" where
  "get_logs run task_id bound db = logs_query run task_id bound db"

definition clear_cache :: "Persistence \<Rightarrow> int \<times> Persistence" where
  "clear_cache p =
     (case repo_clear_all (db_cache (ps_db p)) of (n, t) \<Rightarrow> (n, p\<lparr>ps_db := (ps_db p)\<lparr>db_cache := t\<rparr>\<rparr>))"

definition prune_cache :: "clock \<Rightarrow> int \<Rightarrow> Persistence \<Rightarrow> int \<times> Persistence" where
  "prune_cache clk older_than_days p =
     (let (ts, p1) = now_ms clk p;
          cutoff = ts - older_than_days * 24 * 60 * 60 * 1000
      in case repo_prune_older_than (db_cache (ps_db p1)) cutoff of
           (n, t) \<Rightarrow> (n, p1\<lparr>ps_db := (ps_db p1)\<lparr>db_cache := t\<rparr>\<rparr>))"

definition cache_entry_count :: "Database \<Rightarrow> int" where
  "cache_entry_count db = repo_count (db_cache db)"

end
