(* ===== verification/Engine_Correct.thy ===== *)
theory Engine_Correct
  imports Engine
begin

text \<open>
  What the engine guarantees: a pipeline it accepts meets the scheduler's preconditions, the
  observer loses no log line and leaves every row with the state last reported, the rows of a
  finished run agree with the report, and recovery closes every run that was left open.
\<close>

section \<open>Accepted pipelines can be scheduled\<close>

lemma accepted_graph:
  assumes "lists_all m" "report_ok (validate_pipeline m (run_validation_options cfg) p)"
  obtains g where "br_dag (run_graph p) = Some g" "dag_wf g" "g_nodes g = map td_id (pd_tasks p)"
    "\<forall>t \<in> set (pd_tasks p). task_valid m (run_validation_options cfg) p t"
proof -
  have "br_ok (run_graph p)" "\<forall>t \<in> set (pd_tasks p). task_valid m (run_validation_options cfg) p t"
    using assms(2) validate_ok_iff [OF assms(1)] by (simp_all add: run_graph_def)
  moreover obtain g where "br_dag (run_graph p) = Some g"
    using calculation(1) by (auto simp: br_ok_def)
  ultimately show ?thesis
    using that build_wf [of "map td_id (pd_tasks p)" "edge_pairs p" g] by (simp add: run_graph_def)
qed

lemma accepted_env_ok:
  assumes "lists_all m" "report_ok (validate_pipeline m (run_validation_options cfg) p)"
    "br_dag (run_graph p) = Some g" "\<forall>k. e_launch world k \<noteq> kInvalidHandle"
  shows "env_ok (run_env world cfg req p g)"
    and "\<forall>t \<in> set (pd_tasks p). fits_within (td_resources t) (c_resource_capacity cfg)"
proof -
  obtain g' where g: "br_dag (run_graph p) = Some g'" "dag_wf g'" "g_nodes g' = map td_id (pd_tasks p)"
    and v: "\<forall>t \<in> set (pd_tasks p). task_valid m (run_validation_options cfg) p t"
    using accepted_graph [OF assms(1,2)] by blast
  have "0 \<le> cpu_cores (td_resources t) \<and> 0 \<le> memory_mb (td_resources t) \<and> 0 \<le> gpu_count (td_resources t)"
    if "t \<in> set (pd_tasks p)" for t
    using v that by (auto simp: task_valid_def)
  moreover have "find_task p v \<noteq> None" if "v \<in> set (g_nodes g)" for v
    using that g assms(3) by (auto simp: find_task_def find_None_iff)
  ultimately show "env_ok (run_env world cfg req p g)"
    using g assms(3,4) by (simp add: env_ok_def run_env_def)
  show "\<forall>t \<in> set (pd_tasks p). fits_within (td_resources t) (c_resource_capacity cfg)"
    using v by (auto simp: task_valid_def run_validation_options_def can_ever_fit_def mk_ResourcePool_def)
qed

section \<open>The observer\<close>

text \<open>A log line as it is kept, up to its time stamp.\<close>

definition untimed :: "LogRecord \<Rightarrow> LogRecord" where
  "untimed r = r\<lparr>log_ts := 0\<rparr>"

fun notice_log :: "int \<Rightarrow> Notice \<Rightarrow> LogRecord list" where
  "notice_log run (on_task_log v attempt stream line) = [log_record run v attempt 0 stream line]"
| "notice_log run (on_run_finished r) = [finish_record run 0 (run_state r)]"
| "notice_log run _ = []"

definition kept_logs :: "Persistence \<Rightarrow> LogRecord list" where
  "kept_logs p = map untimed (db_logs (ps_db p) @ ps_buffer p)"

lemma logs_insert_all_logs:
  "logs_insert_all recs db = (Inr u, db') \<Longrightarrow> db' = db\<lparr>db_logs := db_logs db @ recs\<rparr>"
proof (induction recs arbitrary: db)
  case (Cons rec recs)
  then have "logs_insert_all recs (db\<lparr>db_logs := db_logs db @ [rec]\<rparr>) = (Inr u, db')"
    by (auto simp: logs_insert_def split: if_splits)
  from Cons.IH [OF this] show ?case
    by simp
qed simp

lemma flush_ok:
  "flush p = (Inr u, p') \<Longrightarrow>
   p' = p\<lparr>ps_db := (ps_db p)\<lparr>db_logs := db_logs (ps_db p) @ ps_buffer p\<rparr>, ps_buffer := []\<rparr>"
  by (auto simp: flush_def logs_insert_batch_def split: if_splits sum.splits prod.splits dest: logs_insert_all_logs)

lemma attempts_insert_frame:
  "attempts_insert rec db = (r, db') \<Longrightarrow> db_logs db' = db_logs db \<and> db_task_runs db' = db_task_runs db \<and> db_runs db' = db_runs db"
  by (auto simp: attempts_insert_def Let_def split: if_splits)

lemma store_task_state_frame [simp]:
  "db_logs (store_task_state i task db) = db_logs db" "db_runs (store_task_state i task db) = db_runs db"
  by (auto simp: store_task_state_def if_some_def task_runs_set_state_def task_runs_set_ready_at_def
      task_runs_set_started_at_def task_runs_set_finished_at_def task_runs_set_attempts_def update_task_run_def
      split: option.split)

lemma persist_logs:
  assumes "persist clk run ids p n = (Inr u, p')"
  shows "kept_logs p' = kept_logs p @ notice_log run n"
    and "db_runs (ps_db p') = db_runs (ps_db p)"
  using assms
  by (cases n; force simp: kept_logs_def Let_def now_ms_def untimed_def log_record_def finish_record_def
      split: option.splits sum.splits prod.splits if_splits dest!: flush_ok attempts_insert_frame)+

lemma persist_all_logs:
  "persist_all clk run ids p ns = (Inr u, p') \<Longrightarrow>
   kept_logs p' = kept_logs p @ concat (map (notice_log run) ns) \<and> db_runs (ps_db p') = db_runs (ps_db p)"
proof (induction ns arbitrary: p)
  case (Cons n ns)
  then obtain p1 where 1: "persist clk run ids p n = (Inr (), p1)" "persist_all clk run ids p1 ns = (Inr u, p')"
    by (auto split: prod.splits sum.splits)
  with Cons.IH persist_logs [OF 1(1)] show ?case
    by simp
qed simp

lemma persist_all_append:
  "persist_all clk run ids p (ns @ ms) =
     (case persist_all clk run ids p ns of (Inl e, p1) \<Rightarrow> (Inl e, p1) | (Inr _, p1) \<Rightarrow> persist_all clk run ids p1 ms)"
  by (induction ns arbitrary: p) (auto split: prod.split sum.split)

lemma finished_flushes:
  "persist_all clk run ids p (ns @ [on_run_finished r]) = (Inr u, p') \<Longrightarrow> ps_buffer p' = []"
  by (auto simp: persist_all_append Let_def now_ms_def split: prod.splits sum.splits dest!: flush_ok)

section \<open>Task rows\<close>

definition rows :: "Database \<Rightarrow> ((int \<times> int \<times> string) \<times> string) list" where
  "rows db = map (\<lambda>r. ((trun_id r, trun_run_id r, trun_task_id r), trun_state r)) (db_task_runs db)"

fun told_row :: "(string \<times> int) list \<Rightarrow> int \<Rightarrow> string \<Rightarrow> Notice \<Rightarrow> string" where
  "told_row ids i s (on_task_state_changed task prev) =
     (if map_of ids (tr_task_id task) = Some i then to_string_TaskState (tr_state task) else s)"
| "told_row ids i s _ = s"

lemma rows_setters [simp]:
  "rows (task_runs_set_ready_at i ts db) = rows db" "rows (task_runs_set_started_at i ts db) = rows db"
  "rows (task_runs_set_finished_at i ts db) = rows db" "rows (task_runs_set_attempts i n db) = rows db"
  by (simp_all add: rows_def task_runs_set_ready_at_def task_runs_set_started_at_def task_runs_set_finished_at_def
      task_runs_set_attempts_def update_task_run_def)

lemma rows_set_state:
  "rows (task_runs_set_state i st db) = map (\<lambda>(k, s). (k, if fst k = i then st else s)) (rows db)"
  by (simp add: rows_def task_runs_set_state_def update_task_run_def)

lemma rows_store:
  "rows (store_task_state i task db) =
     map (\<lambda>(k, s). (k, if fst k = i then to_string_TaskState (tr_state task) else s)) (rows db)"
  by (simp add: store_task_state_def if_some_def rows_set_state split: option.split)

lemma rows_cong: "db_task_runs db' = db_task_runs db \<Longrightarrow> rows db' = rows db"
  by (simp add: rows_def)

lemma persist_rows:
  assumes "persist clk run ids p n = (Inr u, p')"
  shows "rows (ps_db p') = map (\<lambda>(k, s). (k, told_row ids (fst k) s n)) (rows (ps_db p))"
proof (cases n)
  case (on_task_state_changed task prev)
  with assms show ?thesis
    by (auto simp: rows_store split: option.splits intro!: map_idI [symmetric])
next
  case (on_task_attempt_recorded task att)
  with assms show ?thesis
    by (auto split: option.splits prod.splits sum.splits dest!: attempts_insert_frame intro!: rows_cong)
next
  case (on_task_log v a stream line)
  with assms show ?thesis
    by (auto simp: Let_def now_ms_def rows_def split: if_splits dest!: flush_ok)
next
  case (on_run_finished r)
  with assms show ?thesis
    by (auto simp: Let_def now_ms_def rows_def dest!: flush_ok)
qed (use assms in simp)

lemma persist_all_rows:
  "persist_all clk run ids p ns = (Inr u, p') \<Longrightarrow>
   rows (ps_db p') = map (\<lambda>(k, s). (k, foldl (told_row ids (fst k)) s ns)) (rows (ps_db p))"
proof (induction ns arbitrary: p)
  case (Cons n ns)
  then obtain p1 where 1: "persist clk run ids p n = (Inr (), p1)" "persist_all clk run ids p1 ns = (Inr u, p')"
    by (auto split: prod.splits sum.splits)
  from Cons.IH [OF 1(2)] persist_rows [OF 1(1)] show ?case
    by (simp add: case_prod_unfold)
qed (simp add: case_prod_unfold)

lemma told_row_last:
  assumes "\<And>w. map_of ids w = Some i \<longleftrightarrow> w = v"
  shows "foldl (told_row ids i) (to_string_TaskState x) ns = to_string_TaskState (foldl (told_one v) x ns)"
proof (induction ns arbitrary: x)
  case (Cons n ns)
  have "told_row ids i (to_string_TaskState x) n = to_string_TaskState (told_one v x n)"
    using assms by (cases n) auto
  with Cons.IH show ?case
    by simp
qed simp

section \<open>A finished run and its rows\<close>

lemma create_task_runs_spec:
  "create_task_runs run ts db = (Inr ids, db') \<Longrightarrow>
   map fst ids = ts \<and> rows db' = rows db @ map (\<lambda>(t, i). ((i, run, t), ''PENDING'')) ids \<and> db_runs db' = db_runs db \<and>
   (db_ok db \<longrightarrow> db_ok db')"
proof (induction ts arbitrary: db ids)
  case (Cons t ts)
  then obtain i db1 ids1 where 1: "task_runs_create run t ''PENDING'' db = (Inr i, db1)"
    "create_task_runs run ts db1 = (Inr ids1, db')" "ids = (t, i) # ids1"
    by (auto split: prod.splits sum.splits)
  have "rows db1 = rows db @ [((i, run, t), ''PENDING'')]" "db_runs db1 = db_runs db"
    using 1(1) by (auto simp: task_runs_create_def rows_def Let_def split: if_splits)
  moreover have "db_ok db \<longrightarrow> db_ok db1"
    using task_runs_create_ok [of db run t "''PENDING''"] 1(1) by simp
  ultimately show ?case
    using Cons.IH [OF 1(2)] by (simp add: 1(3))
qed simp

lemma created_ids_distinct:
  assumes "create_task_runs run ts db = (Inr ids, db')" "db_ok db" "distinct ts"
  shows "distinct (map fst ids)" "distinct (map snd ids)"
proof -
  note S = create_task_runs_spec [OF assms(1)]
  then show "distinct (map fst ids)"
    using assms(3) by simp
  have "map trun_id (db_task_runs db') = map (\<lambda>(k, s). fst k) (rows db')"
    by (simp add: rows_def case_prod_unfold)
  also have "\<dots> = map trun_id (db_task_runs db) @ map snd ids"
    using S by (simp add: rows_def case_prod_unfold comp_def)
  finally show "distinct (map snd ids)"
    using S assms(2) by (auto simp: db_ok_defs)
qed

lemma map_of_inverse:
  assumes "distinct (map fst ids)" "distinct (map snd ids)" "(v, i) \<in> set ids"
  shows "map_of ids w = Some i \<longleftrightarrow> w = v"
  using assms map_of_eq_Some_iff [OF assms(1)] by (auto simp: distinct_map inj_on_def) fastforce

lemma drain_log_told: "foldl (told_one v) x (s_notices (foldl (drain_log E) s evs)) = foldl (told_one v) x (s_notices s)"
proof (induction evs arbitrary: s)
  case (Cons ev evs)
  have "foldl (told_one v) x (s_notices (drain_log E s ev)) = foldl (told_one v) x (s_notices s)"
    by (cases ev) (simp_all add: notify_def log_notice_def)
  with Cons.IH show ?case
    by simp
qed simp

lemma run_end_told: "last_told v (s_notices (run_end E s)) = last_told v (s_notices s)"
  using drain_log_told [of v tsPending E "s\<lparr>s_events := []\<rparr>" "s_events s"]
  by (simp add: run_end_def Let_def now_def notify_def last_told_def)

lemma returned_told:
  assumes E: "env_ok E" and r: "reachable E cache (pcReturned, s)" and m: "(v, tr) \<in> set (run_task_runs (s_run s))"
  shows "last_told v (s_notices s) = tr_state tr \<and> v \<in> set (g_nodes (e_graph E))"
proof -
  obtain s0 where s0: "sched_inv E {} {} {} [] s0" "s = run_end E s0"
    using returned_state [OF E r] by metis
  have mir: "mirror_ok E (st_of s0) (run_task_runs (s_run s))"
    using inv_parts(12) [OF s0(1)] by (simp add: s0(2) run_end_sel)
  obtain i where i: "i < e_size E" "v = id_at (e_graph E) i" "tr_state tr = st_of s0 i"
    using mirror_entry [OF mir m] by metis
  have "last_told v (s_notices s0) = st_of s0 i"
    using inv_parts(13) [OF s0(1)] i by (simp add: trace_ok_def)
  then show ?thesis
    using i by (simp add: s0(2) run_end_told id_at_def e_size_def dag_size_def)
qed

lemma finish_run_rows:
  assumes "finish_run clk run ids issues (pc, s) p = (Returned rep, p')"
  obtains p1 where "persist_all clk run ids p (s_notices s) = (Inr (), p1)" "rows (ps_db p') = rows (ps_db p1)"
    "rr_run_id rep = run" "rr_run rep = Some (s_run s)" "rr_state rep = run_state (s_run s)"
    "\<exists>ts. db_runs (ps_db p') = db_runs (runs_mark_finished run (to_string_PipelineState (run_state (s_run s))) ts (ps_db p1))"
    "db_logs (ps_db p') = db_logs (ps_db p1)"
proof -
  obtain r p1 where p1: "persist_all clk run ids p (s_notices s) = (r, p1)"
    by fastforce
  have "r = Inr ()" "pc \<noteq> pcThrew"
    using assms p1 by (cases r; simp add: finish_run_def split: if_splits)+
  then have eq: "rep = \<lparr>rr_validation_failed = False, rr_validation = issues, rr_run_id = run,
        rr_state = run_state (s_run s), rr_run = Some (s_run s)\<rparr>"
    "ps_db p' = runs_mark_finished run (to_string_PipelineState (run_state (s_run s))) (to_unix_millis (clk (ps_tick p1)))
        ((ps_db p1)\<lparr>db_cache := cs_repo (s_cache s)\<rparr>)"
    using assms p1 by (auto simp: finish_run_def Let_def now_ms_def)
  have "rows (ps_db p') = rows (ps_db p1)" "db_logs (ps_db p') = db_logs (ps_db p1)"
    "db_runs (ps_db p') = db_runs (runs_mark_finished run (to_string_PipelineState (run_state (s_run s)))
        (to_unix_millis (clk (ps_tick p1))) (ps_db p1))"
    by (simp_all add: eq rows_def runs_mark_finished_def update_run_def)
  then show ?thesis
    using that p1 \<open>r = Inr ()\<close> eq(1) by auto
qed

text \<open>What has happened when the scheduler takes over.\<close>

definition run_cache :: "Config \<Rightarrow> RunRequest \<Rightarrow> Persistence \<Rightarrow> CacheStore" where
  "run_cache cfg req p =
     \<lparr>cs_repo = db_cache (ps_db p), cs_enabled = override (rq_cache_enabled req) (c_cache_enabled cfg)\<rparr>"

lemma setup_frame:
  "pipelines_upsert name js h ts db = (r1, db') \<Longrightarrow> db_cache db' = db_cache db \<and> db_logs db' = db_logs db"
  "runs_create pid name mc st ts db = (r2, db') \<Longrightarrow> db_cache db' = db_cache db \<and> db_logs db' = db_logs db"
  "create_task_runs run vs db = (r3, db') \<Longrightarrow> db_cache db' = db_cache db \<and> db_logs db' = db_logs db"
proof -
  show "pipelines_upsert name js h ts db = (r1, db') \<Longrightarrow> db_cache db' = db_cache db \<and> db_logs db' = db_logs db"
    by (auto simp: pipelines_upsert_def Let_def split: if_splits option.splits)
  show "runs_create pid name mc st ts db = (r2, db') \<Longrightarrow> db_cache db' = db_cache db \<and> db_logs db' = db_logs db"
    by (auto simp: runs_create_def Let_def split: if_splits)
  have t: "task_runs_create run t st db = (r, db') \<Longrightarrow> db_cache db' = db_cache db \<and> db_logs db' = db_logs db" for t r st db db'
    by (auto simp: task_runs_create_def Let_def split: if_splits)
  show "create_task_runs run vs db = (r3, db') \<Longrightarrow> db_cache db' = db_cache db \<and> db_logs db' = db_logs db"
    by (induction vs arbitrary: db r3) (fastforce split: prod.splits sum.splits dest: t)+
qed

lemma run_pipeline_started:
  assumes "run_pipeline clk m world sched cfg pl req p = (Returned rep, p')" "\<not> rr_validation_failed rep"
    and g: "br_dag (run_graph pl) = Some g"
  obtains run ids db2 db3 ts p4 where "report_ok (validate_pipeline m (run_validation_options cfg) pl)"
    "run \<in> set (map prun_id (db_runs db2))" "db_ok (ps_db p) \<longrightarrow> db_ok db2"
    "create_task_runs run (map td_id (pd_tasks pl)) db2 = (Inr ids, db3)" "ps_db p4 = runs_mark_started run ts db3"
    "ps_buffer p4 = []" "db_logs (ps_db p4) = db_logs (ps_db p)"
    "finish_run clk run ids (validate_pipeline m (run_validation_options cfg) pl)
       (sched (run_env world cfg req pl g) (run_cache cfg req p)) p4 = (Returned rep, p')"
proof -
  have v: "report_ok (validate_pipeline m (run_validation_options cfg) pl)"
    using assms by (auto simp: run_pipeline_def Let_def rejected_def split: if_splits)
  let ?js = "dump_pipeline (e_codec world) pl"
  obtain r1 db1 where u: "pipelines_upsert (pd_name pl) ?js (sha256_hex ?js) (to_unix_millis (clk (ps_tick p))) (ps_db p) = (r1, db1)"
    by fastforce
  obtain pid where pid: "r1 = Inr pid"
    using assms(1) v g u by (cases r1) (auto simp: run_pipeline_def Let_def now_ms_def)
  obtain r2 db2 where c: "runs_create pid (pd_name pl) (effective_concurrency cfg req pl) ''CREATED''
      (to_unix_millis (clk (Suc (ps_tick p)))) db1 = (r2, db2)"
    by fastforce
  obtain run where run: "r2 = Inr run"
    using assms(1) v g u pid c by (cases r2) (auto simp: run_pipeline_def Let_def now_ms_def)
  obtain r3 db3 where t: "create_task_runs run (map td_id (pd_tasks pl)) db2 = (r3, db3)"
    by fastforce
  obtain ids where ids: "r3 = Inr ids"
    using assms(1) v g u pid c run t by (cases r3) (auto simp: run_pipeline_def Let_def now_ms_def)
  have "run \<in> set (map prun_id (db_runs db2))"
    using c run by (auto simp: runs_create_def Let_def split: if_splits)
  moreover have "db_ok (ps_db p) \<longrightarrow> db_ok db2"
    using upsert_ok [of "ps_db p"] runs_create_ok [of db1] u c by (metis snd_conv)
  moreover let ?ts = "to_unix_millis (clk (Suc (Suc (ps_tick p))))"
  let ?p4 = "p\<lparr>ps_buffer := [], ps_tick := Suc (Suc (Suc (ps_tick p))), ps_db := runs_mark_started run ?ts db3\<rparr>"
  have same: "db_cache (runs_mark_started run ?ts db3) = db_cache (ps_db p)"
    "db_logs (runs_mark_started run ?ts db3) = db_logs (ps_db p)"
    using setup_frame(1) [OF u] setup_frame(2) [OF c] setup_frame(3) [OF t]
    by (simp_all add: runs_mark_started_def update_run_def)
  then have "finish_run clk run ids (validate_pipeline m (run_validation_options cfg) pl)
      (sched (run_env world cfg req pl g) (run_cache cfg req p)) ?p4 = (Returned rep, p')"
    using assms(1) v g u pid c run t ids by (simp add: run_pipeline_def Let_def now_ms_def run_cache_def)
  ultimately show ?thesis
    using that [OF v, of run db2 ids db3 ?p4 ?ts] t [unfolded ids] same(2) by simp
qed

lemma accepted_distinct:
  assumes "lists_all m" "report_ok (validate_pipeline m (run_validation_options cfg) pl)"
  shows "distinct (map td_id (pd_tasks pl))"
  using accepted_graph [OF assms] by (metis dag_wf_def)

text \<open>A task's row follows the last state that was announced, from the row's creation on.\<close>

lemma created_row_told:
  assumes c: "create_task_runs rid vs db2 = (Inr ids, db3)" "db_ok db2" "distinct vs" "v \<in> set vs"
    and p: "rows (ps_db p4) = rows db3" "persist_all clk rid ids p4 ns = (Inr u, p1)"
  shows "\<exists>i. ((i, rid, v), to_string_TaskState (last_told v ns)) \<in> set (rows (ps_db p1))"
proof -
  note C = create_task_runs_spec [OF c(1)]
  obtain i where i: "(v, i) \<in> set ids"
    using C c(4) by (metis (no_types, lifting) imageE list.set_map prod.collapse)
  have inv: "map_of ids w = Some i \<longleftrightarrow> w = v" for w
    using created_ids_distinct [OF c(1-3)] i by (intro map_of_inverse) simp_all
  have "((i, rid, v), ''PENDING'') \<in> set (rows (ps_db p4))"
    using C i p(1) by force
  then have "((i, rid, v), foldl (told_row ids i) ''PENDING'' ns) \<in> set (rows (ps_db p1))"
    using persist_all_rows [OF p(2)] by force
  moreover have "''PENDING'' = to_string_TaskState tsPending"
    by code_simp
  ultimately show ?thesis
    using told_row_last [OF inv, of tsPending ns] by (auto simp: last_told_def)
qed

lemma mark_finished_row:
  assumes "rid \<in> set (map prun_id (db_runs db))"
  shows "\<exists>r \<in> set (db_runs (runs_mark_finished rid st ts db)). prun_id r = rid \<and> prun_state r = st \<and> prun_finished_at r \<noteq> None"
proof -
  obtain x where x: "x \<in> set (db_runs db)" "prun_id x = rid"
    using assms by auto
  then have "x\<lparr>prun_state := st, prun_finished_at := Some ts\<rparr> \<in> set (db_runs (runs_mark_finished rid st ts db))"
    by (auto simp: runs_mark_finished_def update_run_def)
  with x(2) show ?thesis
    by (intro bexI [rotated]) (assumption, simp)
qed

lemma returned_last_notice:
  assumes "env_ok E" "reachable E cache (pcReturned, s)"
  obtains ns r where "s_notices s = ns @ [on_run_finished r]"
proof -
  obtain s0 where "s = run_end E s0"
    using returned_state [OF assms] by metis
  then show ?thesis
    using that by (simp add: run_end_def Let_def now_def notify_def)
qed

lemma run_recorded:
  assumes run: "run_pipeline clk m world sched cfg pl req p = (Returned rep, p')" "\<not> rr_validation_failed rep"
    and ok: "lists_all m" "db_ok (ps_db p)" "\<forall>k. e_launch world k \<noteq> kInvalidHandle"
    and g: "br_dag (run_graph pl) = Some g"
    and s: "sched (run_env world cfg req pl g) (run_cache cfg req p) = (pcReturned, s)"
      "reachable (run_env world cfg req pl g) (run_cache cfg req p) (pcReturned, s)"
  shows "rr_run rep = Some (s_run s)"
    and "(v, tr) \<in> set (run_task_runs (s_run s)) \<Longrightarrow>
      \<exists>i. ((i, rr_run_id rep, v), to_string_TaskState (tr_state tr)) \<in> set (rows (ps_db p'))"
    and "\<exists>r \<in> set (db_runs (ps_db p')). prun_id r = rr_run_id rep \<and>
           prun_state r = to_string_PipelineState (run_state (s_run s)) \<and> prun_finished_at r \<noteq> None"
    and "map untimed (db_logs (ps_db p')) =
           map untimed (db_logs (ps_db p)) @ concat (map (notice_log (rr_run_id rep)) (s_notices s))"
proof -
  obtain rid ids db2 db3 ts p4 where st: "report_ok (validate_pipeline m (run_validation_options cfg) pl)"
    "rid \<in> set (map prun_id (db_runs db2))" "db_ok (ps_db p) \<longrightarrow> db_ok db2"
    and c: "create_task_runs rid (map td_id (pd_tasks pl)) db2 = (Inr ids, db3)" "ps_db p4 = runs_mark_started rid ts db3"
    "ps_buffer p4 = []" "db_logs (ps_db p4) = db_logs (ps_db p)"
    and fin: "finish_run clk rid ids (validate_pipeline m (run_validation_options cfg) pl) (pcReturned, s) p4 = (Returned rep, p')"
    using run_pipeline_started [OF run g] unfolding s(1) by metis
  let ?E = "run_env world cfg req pl g"
  have E: "env_ok ?E"
    using accepted_env_ok(1) [OF ok(1) st(1) g ok(3)] .
  note C = create_task_runs_spec [OF c(1)]
  obtain p1 where f: "persist_all clk rid ids p4 (s_notices s) = (Inr (), p1)" "rows (ps_db p') = rows (ps_db p1)"
    "rr_run_id rep = rid" "rr_run rep = Some (s_run s)"
    "\<exists>ts. db_runs (ps_db p') = db_runs (runs_mark_finished rid (to_string_PipelineState (run_state (s_run s))) ts (ps_db p1))"
    "db_logs (ps_db p') = db_logs (ps_db p1)"
    using finish_run_rows [OF fin] by metis
  show "rr_run rep = Some (s_run s)"
    by (rule f(4))
  obtain ns r where "s_notices s = ns @ [on_run_finished r]"
    using returned_last_notice [OF E s(2)] .
  with f(1) have "ps_buffer p1 = []"
    using finished_flushes by metis
  then show "map untimed (db_logs (ps_db p')) =
      map untimed (db_logs (ps_db p)) @ concat (map (notice_log (rr_run_id rep)) (s_notices s))"
    using persist_all_logs [OF f(1)] f(3,6) c(3,4) by (simp add: kept_logs_def)
  have nodes: "g_nodes g = map td_id (pd_tasks pl)"
    using accepted_graph [OF ok(1) st(1)] g by (metis option.inject)
  have "rows (ps_db p4) = rows db3"
    by (simp add: c(2) rows_def runs_mark_started_def update_run_def)
  note told = created_row_told [OF c(1) _ accepted_distinct [OF ok(1) st(1)] _ this f(1)]
  show "\<exists>i. ((i, rr_run_id rep, v), to_string_TaskState (tr_state tr)) \<in> set (rows (ps_db p'))"
    if "(v, tr) \<in> set (run_task_runs (s_run s))"
    using told [of v] returned_told [OF E s(2) that] nodes st(3) ok(2) f(2,3) by (simp add: run_env_def)
  have "rid \<in> set (map prun_id (db_runs (ps_db p1)))"
    using persist_all_logs [OF f(1)] C st(2) by (auto simp: c(2) runs_mark_started_def update_run_def image_image)
  with f(3,5) show "\<exists>r \<in> set (db_runs (ps_db p')). prun_id r = rr_run_id rep \<and>
      prun_state r = to_string_PipelineState (run_state (s_run s)) \<and> prun_finished_at r \<noteq> None"
    using mark_finished_row by metis
qed

section \<open>Recovery\<close>

text \<open>The rows of runs and tasks, as far as recovery is concerned.\<close>

definition run_states :: "Database \<Rightarrow> (int \<times> string) list" where
  "run_states db = map (\<lambda>r. (prun_id r, prun_state r)) (db_runs db)"

definition open_task :: "string \<Rightarrow> bool" where
  "open_task st = (case parse_task_state st of Some x \<Rightarrow> \<not> is_terminal_task x | None \<Rightarrow> True)"

definition closed_task :: "string \<Rightarrow> string" where
  "closed_task st = (if open_task st then ''CANCELLED'' else st)"

lemma closed_task_closed [simp]: "\<not> open_task (closed_task st)"
proof -
  have "\<not> open_task ''CANCELLED''"
    by code_simp
  then show ?thesis
    by (simp add: closed_task_def)
qed

lemma recover_task_spec:
  "rows (ps_db (recover_task clk p tr)) =
     map (\<lambda>(k, s). (k, if fst k = trun_id tr \<and> open_task (trun_state tr) then ''CANCELLED'' else s)) (rows (ps_db p))"
  "db_runs (ps_db (recover_task clk p tr)) = db_runs (ps_db p)"
  by (auto simp: recover_task_def open_task_def Let_def now_ms_def rows_set_state task_runs_set_state_def
      task_runs_set_finished_at_def update_task_run_def intro!: map_idI [symmetric] split: option.splits)
     (simp_all add: rows_def update_task_run_def)

lemma recover_tasks_spec:
  "rows (ps_db (foldl (recover_task clk) p trs)) =
     map (\<lambda>(k, s). (k, if \<exists>tr \<in> set trs. fst k = trun_id tr \<and> open_task (trun_state tr) then ''CANCELLED'' else s)) (rows (ps_db p))
   \<and> db_runs (ps_db (foldl (recover_task clk) p trs)) = db_runs (ps_db p)"
proof (induction trs arbitrary: p)
  case (Cons tr trs)
  show ?case
    by (simp add: Cons.IH recover_task_spec case_prod_unfold) auto
qed (simp add: case_prod_unfold)

lemma closed_task_idem [simp]: "closed_task (closed_task st) = closed_task st"
  using closed_task_closed [of st] by (simp add: closed_task_def)

abbreviation run_keys :: "Database \<Rightarrow> int list" where "run_keys db \<equiv> map fst (run_states db)"
abbreviation row_keys :: "Database \<Rightarrow> int list" where "row_keys db \<equiv> map (\<lambda>x. fst (fst x)) (rows db)"

lemma keys_ok_recovery: "db_ok db \<Longrightarrow> distinct (run_keys db) \<and> distinct (row_keys db)"
  by (simp add: db_ok_defs run_states_def rows_def comp_def)

lemma recover_run_spec:
  assumes "distinct (row_keys (ps_db p))" "recover_run clk (n, p) run = (n', p')"
  shows "n' = n + 1"
    and "rows (ps_db p') = map (\<lambda>(k, s). (k, if fst (snd k) = prun_id run then closed_task s else s)) (rows (ps_db p))"
    and "run_states (ps_db p') = map (\<lambda>(i, s). (i, if i = prun_id run then ''INTERRUPTED'' else s)) (run_states (ps_db p))"
proof -
  let ?p3 = "p\<lparr>ps_tick := Suc (ps_tick p), ps_db := runs_mark_finished (prun_id run) ''INTERRUPTED'' (to_unix_millis (clk (ps_tick p)))
      (runs_set_state (prun_id run) ''INTERRUPTED'' (ps_db p))\<rparr>"
  let ?trs = "task_runs_list_for_run (prun_id run) (ps_db ?p3)"
  have p': "p' = foldl (recover_task clk) ?p3 ?trs" and n': "n' = n + 1"
    using assms(2) by (auto simp: recover_run_def Let_def now_ms_def)
  have t: "db_task_runs (ps_db ?p3) = db_task_runs (ps_db p)"
    by (simp add: runs_mark_finished_def runs_set_state_def update_run_def)
  have "(\<exists>tr \<in> set ?trs. fst k = trun_id tr \<and> open_task (trun_state tr)) \<longleftrightarrow> fst (snd k) = prun_id run \<and> open_task s"
    if ks: "(k, s) \<in> set (rows (ps_db p))" for k s
  proof -
    from ks [unfolded rows_def set_map]
    obtain r where r: "r \<in> set (db_task_runs (ps_db p))" "k = (trun_id r, trun_run_id r, trun_task_id r)" "s = trun_state r"
      by blast
    have "tr = r" if "tr \<in> set (db_task_runs (ps_db p))" "trun_id tr = trun_id r" for tr
      using assms(1) that r(1) by (auto simp: rows_def comp_def distinct_map inj_on_def)
    then show ?thesis
      using r unfolding task_runs_list_for_run_def t by auto
  qed
  then have "rows (ps_db p') = map (\<lambda>(k, s). (k, if fst (snd k) = prun_id run \<and> open_task s then ''CANCELLED'' else s)) (rows (ps_db ?p3))"
    using recover_tasks_spec [of clk ?p3 ?trs] rows_cong [OF t] unfolding p' by auto
  then show "rows (ps_db p') = map (\<lambda>(k, s). (k, if fst (snd k) = prun_id run then closed_task s else s)) (rows (ps_db p))"
    unfolding rows_cong [OF t] by (auto simp: closed_task_def)
  show "run_states (ps_db p') = map (\<lambda>(i, s). (i, if i = prun_id run then ''INTERRUPTED'' else s)) (run_states (ps_db p))"
    using recover_tasks_spec [of clk ?p3 ?trs] unfolding p'
    by (simp add: run_states_def runs_mark_finished_def runs_set_state_def update_run_def)
  show "n' = n + 1" by (rule n')
qed

lemma recover_runs_spec:
  assumes "distinct (row_keys (ps_db p))" "foldl (recover_run clk) (n, p) rs = (n', p')"
  shows "n' = n + int (length rs) \<and>
    rows (ps_db p') = map (\<lambda>(k, s). (k, if fst (snd k) \<in> prun_id ` set rs then closed_task s else s)) (rows (ps_db p)) \<and>
    run_states (ps_db p') = map (\<lambda>(i, s). (i, if i \<in> prun_id ` set rs then ''INTERRUPTED'' else s)) (run_states (ps_db p))"
  using assms
proof (induction rs arbitrary: n p)
  case Nil
  then show ?case by (simp add: case_prod_unfold)
next
  case (Cons r rs)
  obtain n1 p1 where 1: "recover_run clk (n, p) r = (n1, p1)"
    by fastforce
  note R = recover_run_spec [OF Cons.prems(1) 1]
  have "distinct (row_keys (ps_db p1))"
    unfolding R(2) using Cons.prems(1) by (simp add: comp_def case_prod_unfold)
  from Cons.IH [OF this, of n1] Cons.prems(2) 1 show ?case
    by (auto simp: R case_prod_unfold)
qed

lemma run_state_unique:
  "distinct (run_keys db) \<Longrightarrow> (i, s) \<in> set (run_states db) \<Longrightarrow> (i, s') \<in> set (run_states db) \<Longrightarrow> s = s'"
  by (rule eq_key_imp_eq_value)

lemma in_state_ids: "prun_id ` set (runs_list_in_state st db) = {i. (i, st) \<in> set (run_states db)}"
  by (auto simp: runs_list_in_state_def run_states_def)

lemma recover_state_spec:
  assumes "distinct (row_keys (ps_db p))" "distinct (run_keys (ps_db p))" "recover_state clk (n, p) st = (n', p')"
  shows "n' = n + int (length (filter (\<lambda>(i, s). s = st) (run_states (ps_db p))))"
    and "rows (ps_db p') = map (\<lambda>(k, s). (k, if (fst (snd k), st) \<in> set (run_states (ps_db p)) then closed_task s else s)) (rows (ps_db p))"
    and "run_states (ps_db p') = map (\<lambda>(i, s). (i, if s = st then ''INTERRUPTED'' else s)) (run_states (ps_db p))"
proof -
  note R = recover_runs_spec [OF assms(1) assms(3) [unfolded recover_state_def snd_conv], unfolded in_state_ids]
  have "length (runs_list_in_state st (ps_db p)) = length (filter (\<lambda>(i, s). s = st) (run_states (ps_db p)))"
    by (simp add: runs_list_in_state_def run_states_def filter_map comp_def)
  with R show "n' = n + int (length (filter (\<lambda>(i, s). s = st) (run_states (ps_db p))))" by simp
  show "rows (ps_db p') = map (\<lambda>(k, s). (k, if (fst (snd k), st) \<in> set (run_states (ps_db p)) then closed_task s else s)) (rows (ps_db p))"
    using R by simp
  have "(i, st) \<in> set (run_states (ps_db p)) \<longleftrightarrow> s = st" if "(i, s) \<in> set (run_states (ps_db p))" for i s
    using run_state_unique [OF assms(2) that] that by blast
  then show "run_states (ps_db p') = map (\<lambda>(i, s). (i, if s = st then ''INTERRUPTED'' else s)) (run_states (ps_db p))"
    using R by auto
qed

definition stale :: "string \<Rightarrow> bool" where
  "stale st \<longleftrightarrow> st = ''RUNNING'' \<or> st = ''CREATED''"

lemma recover_orphaned_spec:
  assumes "db_ok (ps_db p)" "recover_orphaned_runs clk p = (n, p')"
  shows "n = int (length (filter (\<lambda>(i, s). stale s) (run_states (ps_db p))))"
    and "run_states (ps_db p') = map (\<lambda>(i, s). (i, if stale s then ''INTERRUPTED'' else s)) (run_states (ps_db p))"
    and "rows (ps_db p') =
      map (\<lambda>(k, s). (k, if \<exists>st. stale st \<and> (fst (snd k), st) \<in> set (run_states (ps_db p)) then closed_task s else s)) (rows (ps_db p))"
proof -
  obtain n1 p1 where 1: "recover_state clk (0, p) ''RUNNING'' = (n1, p1)"
    by fastforce
  have 2: "recover_state clk (n1, p1) ''CREATED'' = (n, p')"
    using assms(2) 1 by (simp add: recover_orphaned_runs_def)
  have d: "distinct (row_keys (ps_db p))" "distinct (run_keys (ps_db p))"
    using keys_ok_recovery [OF assms(1)] by simp_all
  note R1 = recover_state_spec [OF d 1]
  have "distinct (row_keys (ps_db p1))" "distinct (run_keys (ps_db p1))"
    unfolding R1(2,3) using d by (simp_all add: comp_def case_prod_unfold)
  note R2 = recover_state_spec [OF this 2]
  show "run_states (ps_db p') = map (\<lambda>(i, s). (i, if stale s then ''INTERRUPTED'' else s)) (run_states (ps_db p))"
    unfolding R2(3) R1(3) by (auto simp: stale_def)
  have c: "(i, ''CREATED'') \<in> set (run_states (ps_db p1)) \<longleftrightarrow> (i, ''CREATED'') \<in> set (run_states (ps_db p))" for i
    unfolding R1(3) by (force simp: image_iff split: if_splits)
  show "rows (ps_db p') =
      map (\<lambda>(k, s). (k, if \<exists>st. stale st \<and> (fst (snd k), st) \<in> set (run_states (ps_db p)) then closed_task s else s)) (rows (ps_db p))"
    unfolding R2(2) R1(2) c by (auto simp: stale_def)
  have "length (filter (\<lambda>(i, s). s = ''CREATED'') (run_states (ps_db p1))) = length (filter (\<lambda>(i, s). s = ''CREATED'') (run_states (ps_db p)))"
  proof -
    have "((if s = ''RUNNING'' then ''INTERRUPTED'' else s) = ''CREATED'') = (s = ''CREATED'')" for s
      by auto
    then show ?thesis
      unfolding R1(3) by (simp add: filter_map comp_def case_prod_unfold)
  qed
  moreover have "length (filter (\<lambda>(i, s). stale s) xs) =
      length (filter (\<lambda>(i, s). s = ''RUNNING'') xs) + length (filter (\<lambda>(i, s). s = ''CREATED'') xs)" for xs :: "(int \<times> string) list"
    by (induction xs) (auto simp: stale_def)
  ultimately show "n = int (length (filter (\<lambda>(i, s). stale s) (run_states (ps_db p))))"
    using R2(1) R1(1) by simp
qed

end
