(* ===== verification/Sample_Engine.thy ===== *)
theory Sample_Engine
  imports Sample_Run Engine_Correct
begin

text \<open>
  A concrete engine for the instances of the theorems about it: the sample pipeline on a machine
  that has its two programs, an empty database, and a run whose first task fails because its
  input does not exist.
\<close>

section \<open>Configuration and machine\<close>

definition sample_config :: Config where
  "sample_config =
     \<lparr>c_state_dir = ''.flowforge'', c_max_concurrency = 4, c_python_interpreter = ''python3'', c_database_path = [],
      c_cache_enabled = True, c_compute_checksums = False, c_verify_outputs = True,
      c_resource_capacity = \<lparr>total_cpu_cores = 4, total_memory_mb = 1048576, total_gpu_count = 0\<rparr>, c_log_level = ''info''\<rparr>"

definition sample_machine :: Machine where
  "sample_machine =
     \<lparr>m_fs = (\<lambda>p. if p \<in> {''/bin/a'', ''/bin/b''} then Some \<lparr>fi_regular = True, fi_size = Some 3, fi_mtime = None, fi_content = None\<rparr> else None),
      m_is_directory = (\<lambda>_. True), m_may_execute = (\<lambda>_. True), m_path = None, m_current_path = ''/w'',
      m_bucket_order = id\<rparr>"

definition sample_request :: RunRequest where
  "sample_request = \<lparr>rq_max_concurrency = None, rq_cache_enabled = None, rq_compute_checksums = None\<rparr>"

definition sample_store :: Persistence where
  "sample_store = \<lparr>ps_db = empty_database, ps_buffer = [], ps_tick = 0\<rparr>"

lemma sample_lists_all: "lists_all sample_machine"
  by (simp add: lists_all_def sample_machine_def absent_input_def)

lemma sample_run_graph: "br_dag (run_graph (sample_pipeline ins)) = Some sample_graph"
  using sample_graph_built by (simp add: run_graph_def sample_pipeline_def edge_pairs_def sample_task_def)

lemma sample_accepted: "report_ok (validate_pipeline sample_machine (run_validation_options sample_config) (sample_pipeline absent_input))"
proof -
  have t: "task_valid sample_machine (run_validation_options sample_config) (sample_pipeline absent_input) (sample_task v ins)"
    if "v = ''a'' \<or> v = ''b''" "ins = absent_input \<or> ins = []" for v ins
    using that
    by (auto simp: task_valid_def sample_task_def RetryPolicy_none_def single_core_def run_validation_options_def
        can_ever_fit_def mk_ResourcePool_def sample_config_def fits_within_def program_found_def resolve_program_def
        is_absolute_def is_executable_file_def is_regular_file_def sample_machine_def absent_input_def)
  have "br_ok (build (map td_id (pd_tasks (sample_pipeline absent_input))) (edge_pairs (sample_pipeline absent_input)))"
    using sample_run_graph by (simp add: br_ok_def run_graph_def)
  with t show ?thesis
    unfolding validate_ok_iff [OF sample_lists_all] by (simp add: sample_pipeline_def) (simp add: sample_task_def)
qed

section \<open>The run\<close>

text \<open>A codec that knows one document.\<close>

definition sample_document :: JsonCodec where
  "sample_document =
     \<lparr>dump = (\<lambda>_. ''{}''), parse = (\<lambda>_. Some (JObj (pipeline_to_json (sample_pipeline absent_input))))\<rparr>"

definition sample_world :: RunEnv where
  "sample_world = (sample_env [])\<lparr>e_codec := sample_document\<rparr>"

definition engine_env :: RunEnv where
  "engine_env = run_env sample_world sample_config sample_request (sample_pipeline absent_input) sample_graph"

definition engine_cache :: CacheStore where
  "engine_cache = run_cache sample_config sample_request sample_store"

definition engine_new :: Sched where
  "engine_new = projr (Scheduler_new engine_env engine_cache)"

definition engine_begun :: Sched where
  "engine_begun = projr (run_begin engine_env engine_new)"

definition engine_settled :: Sched where
  "engine_settled = loop_top engine_env engine_begun"

definition engine_returned :: Sched where
  "engine_returned = run_end engine_env engine_settled"

definition sample_outcome :: "RunOutcome \<times> Persistence" where
  "sample_outcome = run_pipeline (\<lambda>k. int k) sample_machine sample_world (\<lambda>_ _. (pcReturned, engine_returned))
     sample_config (sample_pipeline absent_input) sample_request sample_store"

lemma engine_env_ok: "env_ok engine_env"
  unfolding engine_env_def
  by (rule accepted_env_ok(1) [OF sample_lists_all sample_accepted sample_run_graph])
     (simp add: sample_world_def sample_env_def kInvalidHandle_def)

lemma engine_eval:
  "(let s = engine_settled in (s_threw s, all_settled engine_env s, st_of s 0, st_of s 1)) = (False, True, tsFailed, tsSkipped)"
  by code_simp

lemma engine_reachable: "reachable engine_env engine_cache (pcReturned, engine_returned)"
proof -
  have n: "Scheduler_new engine_env engine_cache = Inr engine_new"
    by (simp add: engine_new_def Scheduler_new_def engine_env_def run_env_def sample_graph_eq sample_pipeline_def
        sample_task_def find_task_def sample_world_def sample_env_def)
  moreover have "run_begin engine_env engine_new = Inr engine_begun"
    using new_fresh(2) [OF engine_env_ok n] by (simp add: engine_begun_def run_begin_def Let_def now_def)
  ultimately have "reachable engine_env engine_cache (pcTop, engine_begun)"
    by (rule reach_init)
  then have "reachable engine_env engine_cache (pcSettled, engine_settled)"
    using engine_eval [unfolded Let_def prod.inject] unfolding engine_settled_def
    by (blast intro: reach_step step_settle)
  then show ?thesis
    unfolding engine_returned_def by (rule reach_step [OF _ step_return])
qed

text \<open>The database when the scheduler takes over; \<open>js\<close> and \<open>h\<close> are the stored document and its hash.\<close>

definition engine_store :: "string \<Rightarrow> string \<Rightarrow> Persistence" where
  "engine_store js h =
     \<lparr>ps_db = empty_database\<lparr>
        db_pipelines := [\<lparr>pl_id = 1, pl_name = ''sample'', pl_definition_json = js, pl_definition_hash = h, pl_created_at = 0\<rparr>],
        db_runs := [\<lparr>prun_id = 1, prun_pipeline_id = 1, prun_name = ''sample'', prun_state = ''RUNNING'',
          prun_max_concurrency = 2, prun_created_at = 0, prun_started_at = Some 0, prun_finished_at = None\<rparr>],
        db_task_runs := [
          \<lparr>trun_id = 1, trun_run_id = 1, trun_task_id = ''a'', trun_state = ''PENDING'', trun_ready_at = None,
            trun_started_at = None, trun_finished_at = None, trun_attempts = 0\<rparr>,
          \<lparr>trun_id = 2, trun_run_id = 1, trun_task_id = ''b'', trun_state = ''PENDING'', trun_ready_at = None,
            trun_started_at = None, trun_finished_at = None, trun_attempts = 0\<rparr>]\<rparr>,
      ps_buffer = [], ps_tick = 3\<rparr>"

lemma engine_persisted:
  "fst (persist_all (\<lambda>k. int k) 1 [(''a'', 1), (''b'', 2)] (engine_store js h) (s_notices engine_returned)) = Inr ()"
  by code_simp

lemma engine_report:
  "map (\<lambda>(v, tr). (v, tr_state tr)) (run_task_runs (s_run engine_returned)) = [(''a'', tsFailed), (''b'', tsSkipped)]"
  "run_state (s_run engine_returned) = psFailed"
  by code_simp+

lemma sample_outcome_started:
  "\<exists>js h. sample_outcome = finish_run (\<lambda>k. int k) 1 [(''a'', 1), (''b'', 2)]
     (validate_pipeline sample_machine (run_validation_options sample_config) (sample_pipeline absent_input))
     (pcReturned, engine_returned) (engine_store js h)"
proof -
  let ?pl = "sample_pipeline absent_input"
  let ?js = "dump_pipeline (e_codec sample_world) ?pl"
  have pl: "pd_name ?pl = ''sample''" "map td_id (pd_tasks ?pl) = [''a'', ''b'']" "pd_max_concurrency ?pl = 2"
    by (simp_all add: sample_pipeline_def sample_task_def)
  have "sample_outcome = finish_run (\<lambda>k. int k) 1 [(''a'', 1), (''b'', 2)]
      (validate_pipeline sample_machine (run_validation_options sample_config) ?pl)
      (pcReturned, engine_returned) (engine_store ?js (sha256_hex ?js))"
    using sample_accepted
    by (simp add: sample_outcome_def run_pipeline_def Let_def sample_run_graph now_ms_def pipelines_upsert_def
        sample_store_def empty_database_def fresh_id_def runs_create_def task_runs_create_def pl
        runs_mark_started_def update_run_def engine_store_def to_unix_millis_def effective_concurrency_def
        sample_request_def override_def ticks_per_ms_def trunc_div_def numeral_3_eq_3)
  then show ?thesis
    by blast
qed

lemma sample_outcome_returned:
  "\<exists>rep. fst sample_outcome = Returned rep \<and> \<not> rr_validation_failed rep \<and> rr_run_id rep = 1"
proof -
  obtain js h where o: "sample_outcome = finish_run (\<lambda>k. int k) 1 [(''a'', 1), (''b'', 2)]
     (validate_pipeline sample_machine (run_validation_options sample_config) (sample_pipeline absent_input))
     (pcReturned, engine_returned) (engine_store js h)"
    using sample_outcome_started by blast
  show ?thesis
    using engine_persisted [of js h] unfolding o
    by (auto simp: finish_run_def Let_def now_ms_def split: prod.splits sum.splits)
qed

end
