(* ===== verification/Args.thy ===== *)
theory Args
  imports Numerals
begin

text \<open>
  The option parser, \<^verbatim>\<open>src/src/cli/args.cpp\<close>. The table of options is an association list
  (a later option replaces an earlier one); the accessors record which names were asked for.
  The order in which the library walks over the table is an argument of \<open>unconsumed\<close>.
\<close>

record Args =
  positionals :: "string list"
  options :: "(string \<times> string) list"
  consumed :: "string list"

definition looks_like_option :: "string \<Rightarrow> bool" where
  "looks_like_option s \<longleftrightarrow> 2 \<le> length s \<and> s ! 0 = CHR ''-'' \<and> s ! 1 = CHR ''-''"

fun set_option :: "string \<Rightarrow> string \<Rightarrow> (string \<times> string) list \<Rightarrow> (string \<times> string) list" where
  "set_option k v [] = [(k, v)]"
| "set_option k v ((k', v') # kvs) = (if k' = k then (k, v) # kvs else (k', v') # set_option k v kvs)"

definition put_option :: "string \<Rightarrow> string \<Rightarrow> Args \<Rightarrow> Args" where
  "put_option k v a = a\<lparr>options := set_option k v (options a)\<rparr>"

text \<open>The loop of the constructor over the remaining tokens.\<close>

function args_loop :: "Args \<Rightarrow> string list \<Rightarrow> Args" where
  "args_loop a [] = a"
| "args_loop a (tok # rest) =
     (if \<not> looks_like_option tok then args_loop (a\<lparr>positionals := positionals a @ [tok]\<rparr>) rest
      else let name = drop 2 tok in
        case find_char (CHR ''='') name of
          Some eq \<Rightarrow> args_loop (put_option (take eq name) (drop (Suc eq) name) a) rest
        | None \<Rightarrow>
            (case rest of
               v # rest' \<Rightarrow> if \<not> looks_like_option v then args_loop (put_option name v a) rest'
                            else args_loop (put_option name ''true'' a) rest
             | [] \<Rightarrow> args_loop (put_option name ''true'' a) rest))"
  by pat_completeness auto
termination
  by (relation "measure (\<lambda>(a, toks). length toks)") auto

definition mk_Args :: "string list \<Rightarrow> nat \<Rightarrow> Args" where
  "mk_Args argv start = args_loop \<lparr>positionals = [], options = [], consumed = []\<rparr> (drop start argv)"

definition positional :: "Args \<Rightarrow> nat \<Rightarrow> string option" where
  "positional a i = (if length (positionals a) \<le> i then None else Some (positionals a ! i))"

definition arg_value :: "string \<Rightarrow> Args \<Rightarrow> string option \<times> Args" where
  "arg_value name a = (map_of (options a) name, a\<lparr>consumed := name # consumed a\<rparr>)"

definition arg_flag :: "string \<Rightarrow> Args \<Rightarrow> bool \<times> Args" where
  "arg_flag name a =
     (let a1 = a\<lparr>consumed := name # consumed a\<rparr> in
      case map_of (options a) name of
        None \<Rightarrow> (False, a1)
      | Some v \<Rightarrow> (v = ''true'' \<or> v = ''1'' \<or> v = ''yes'', a1))"

definition arg_int_value :: "string \<Rightarrow> Args \<Rightarrow> int option \<times> Args" where
  "arg_int_value name a =
     (case arg_value name a of
        (None, a1) \<Rightarrow> (None, a1)
      | (Some v, a1) \<Rightarrow> (strtol_exact v, a1))"

definition unconsumed :: "(string list \<Rightarrow> string list) \<Rightarrow> Args \<Rightarrow> string list" where
  "unconsumed bucket_order a = filter (\<lambda>k. k \<notin> set (consumed a)) (bucket_order (map fst (options a)))"

section \<open>Options that were written out are read back\<close>

definition option_token :: "string \<times> string \<Rightarrow> string" where
  "option_token kv = ''--'' @ fst kv @ ''='' @ snd kv"

lemma option_token_looks: "looks_like_option (option_token kv)"
  by (simp add: looks_like_option_def option_token_def)

lemma args_loop_option:
  "CHR ''='' \<notin> set k \<Longrightarrow> args_loop a (option_token (k, v) # rest) = args_loop (put_option k v a) rest"
proof -
  assume "CHR ''='' \<notin> set k"
  then have "find_char (CHR ''='') (drop 2 (option_token (k, v))) = Some (length k)"
    using find_char_append [of "CHR ''=''" k v] by (simp add: option_token_def)
  then show ?thesis
    using option_token_looks [of "(k, v)"] by (simp add: option_token_def)
qed

lemma args_loop_positional: "\<not> looks_like_option p \<Longrightarrow> args_loop a (p # rest) = args_loop (a\<lparr>positionals := positionals a @ [p]\<rparr>) rest"
  by simp

lemma args_loop_positionals:
  "list_all (\<lambda>p. \<not> looks_like_option p) ps \<Longrightarrow> args_loop a ps = a\<lparr>positionals := positionals a @ ps\<rparr>"
  by (induction ps arbitrary: a) (simp_all del: args_loop.simps(2) add: args_loop_positional)

lemma set_option_new: "k \<notin> fst ` set kvs \<Longrightarrow> set_option k v kvs = kvs @ [(k, v)]"
  by (induction kvs) auto

lemma args_loop_options:
  "list_all (\<lambda>(k, v). CHR ''='' \<notin> set k) kvs \<Longrightarrow> distinct (map fst (options a @ kvs)) \<Longrightarrow>
   args_loop a (map option_token kvs @ rest) = args_loop (a\<lparr>options := options a @ kvs\<rparr>) rest"
proof (induction kvs arbitrary: a)
  case (Cons kv kvs)
  obtain k v where kv: "kv = (k, v)"
    by (cases kv)
  have "put_option k v a = a\<lparr>options := options a @ [(k, v)]\<rparr>"
    using Cons.prems(2) by (auto simp: kv put_option_def set_option_new)
  with Cons show ?case
    by (simp add: kv args_loop_option del: args_loop.simps(2))
qed simp

lemma mk_Args_roundtrip:
  assumes "list_all (\<lambda>(k, v). CHR ''='' \<notin> set k) kvs" "distinct (map fst kvs)" "list_all (\<lambda>p. \<not> looks_like_option p) ps"
  shows "mk_Args (map option_token kvs @ ps) 0 = \<lparr>positionals = ps, options = kvs, consumed = []\<rparr>"
  using assms by (simp add: mk_Args_def args_loop_options args_loop_positionals del: args_loop.simps(2))

text \<open>A flag followed by a word takes the word as its value.\<close>

lemma flag_takes_word:
  "mk_Args [''flowforge'', ''validate'', ''--strict'', ''pipeline.json''] 2 =
     \<lparr>positionals = [], options = [(''strict'', ''pipeline.json'')], consumed = []\<rparr>"
  by code_simp

end
