(* ===== verification/Time_Text.thy ===== *)
theory Time_Text
  imports Domain
begin

text \<open>
  Numbers and times as text: what \<^verbatim>\<open>to_iso8601\<close> of \<^verbatim>\<open>src/src/core/util/time_utils.cpp\<close> and
  \<^verbatim>\<open>format_duration\<close> of \<^verbatim>\<open>src/src/core/util/string_utils.cpp\<close> print, with the conversions of
  \<^verbatim>\<open>printf\<close> and \<^verbatim>\<open>gmtime_r\<close> they use.
\<close>

section \<open>printf\<close>

definition line_end :: string where "line_end = [CHR 0x0A]"

definition quoted :: "string \<Rightarrow> string" where
  "quoted s = [CHR 0x27] @ s @ [CHR 0x27]"

definition text_lines :: "string list \<Rightarrow> string" where
  "text_lines ls = concat (map (\<lambda>l. l @ line_end) ls)"

definition pad_right :: "nat \<Rightarrow> string \<Rightarrow> string" where
  "pad_right n s = s @ replicate (n - length s) (CHR '' '')"

definition pad_left :: "char \<Rightarrow> nat \<Rightarrow> string \<Rightarrow> string" where
  "pad_left c n s = replicate (n - length s) c @ s"

text \<open>\<^verbatim>\<open>%0nd\<close>: zeros go between the sign and the digits.\<close>

definition zero_padded :: "nat \<Rightarrow> int \<Rightarrow> string" where
  "zero_padded n i =
     (if i < 0 then ''-'' @ pad_left (CHR ''0'') (n - 1) (to_string_int (- i)) else pad_left (CHR ''0'') n (to_string_int i))"

text \<open>\<^verbatim>\<open>%.kf\<close> of a number that is not negative: the nearest decimal, a tie to the even one.\<close>

definition round_half_even :: "rat \<Rightarrow> int" where
  "round_half_even x =
     (let f = \<lfloor>x\<rfloor>; d = x - of_int f
      in if d < 1 / 2 then f else if 1 / 2 < d then f + 1 else if even f then f else f + 1)"

definition fixed_point :: "nat \<Rightarrow> rat \<Rightarrow> string" where
  "fixed_point k x =
     (let n = round_half_even (x * 10 ^ k)
      in to_string_int (n div 10 ^ k) @ ''.'' @ zero_padded k (n mod 10 ^ k))"

section \<open>format_duration\<close>

definition format_duration :: "rat \<Rightarrow> string" where
  "format_duration seconds =
     (if seconds < 0 then ''0.00s''
      else if seconds < 60 then fixed_point 2 seconds @ ''s''
      else let minutes = \<lfloor>seconds / 60\<rfloor>;
               rem = seconds - of_int minutes * 60
           in to_string_int minutes @ ''m'' @ pad_left (CHR ''0'') 4 (fixed_point 1 rem) @ ''s'')"

section \<open>to_iso8601\<close>

text \<open>
  The proleptic Gregorian calendar as \<^verbatim>\<open>gmtime_r\<close> computes it from a day number counted from
  1970-01-01: eras of 400 years that start on the first of March.
\<close>

record CivilDate =
  cd_year :: int
  cd_month :: int
  cd_day :: int

definition civil_from_days :: "int \<Rightarrow> CivilDate" where
  "civil_from_days days =
     (let z = days + 719468;
          era = z div 146097;
          doe = z mod 146097;
          yoe = (doe - doe div 1460 + doe div 36524 - doe div 146096) div 365;
          doy = doe - (365 * yoe + yoe div 4 - yoe div 100);
          mp = (5 * doy + 2) div 153;
          m = (if mp < 10 then mp + 3 else mp - 9)
      in \<lparr>cd_year = yoe + era * 400 + (if m \<le> 2 then 1 else 0), cd_month = m, cd_day = doy - (153 * mp + 2) div 5 + 1\<rparr>)"

definition to_iso8601 :: "TimePoint \<Rightarrow> string" where
  "to_iso8601 tp =
     (let millis = to_unix_millis tp;
          secs = trunc_div millis 1000;
          ms = millis - secs * 1000;
          date = civil_from_days (secs div 86400);
          sod = secs mod 86400
      in zero_padded 4 (cd_year date) @ ''-'' @ zero_padded 2 (cd_month date) @ ''-'' @ zero_padded 2 (cd_day date) @
         ''T'' @ zero_padded 2 (sod div 3600) @ '':'' @ zero_padded 2 (sod div 60 mod 60) @ '':'' @ zero_padded 2 (sod mod 60) @
         ''.'' @ zero_padded 3 ms @ ''Z'')"

section \<open>Checks\<close>

text \<open>The first and the last day of a leap year's February, the turn of a century, and the epoch.\<close>

lemma civil_dates:
  "civil_from_days 0 = \<lparr>cd_year = 1970, cd_month = 1, cd_day = 1\<rparr>"
  "civil_from_days 11016 = \<lparr>cd_year = 2000, cd_month = 2, cd_day = 29\<rparr>"
  "civil_from_days 11017 = \<lparr>cd_year = 2000, cd_month = 3, cd_day = 1\<rparr>"
  "civil_from_days 47540 = \<lparr>cd_year = 2100, cd_month = 2, cd_day = 28\<rparr>"
  "civil_from_days 47541 = \<lparr>cd_year = 2100, cd_month = 3, cd_day = 1\<rparr>"
  "civil_from_days (-1) = \<lparr>cd_year = 1969, cd_month = 12, cd_day = 31\<rparr>"
  by code_simp+

text \<open>Rounding can carry into a full minute that is not carried on.\<close>

lemma duration_sixty_seconds: "format_duration (11996 / 100) = ''1m60.0s''"
proof -
  have m: "\<lfloor>11996 / 100 / 60 :: rat\<rfloor> = 1" "\<lfloor>2998 / 5 :: rat\<rfloor> = 599"
    by (rule floor_unique; simp)+
  have "fixed_point 1 (11996 / 100 - 60) = ''60.0''"
  proof -
    have "round_half_even ((11996 / 100 - 60) * 10 ^ 1) = 600"
      using m by (simp add: round_half_even_def Let_def)
    moreover have "to_string_int (600 div 10 ^ 1) @ ''.'' @ zero_padded 1 (600 mod 10 ^ 1) = ''60.0''"
      by code_simp
    ultimately show ?thesis
      by (simp add: fixed_point_def Let_def)
  qed
  moreover have "to_string_int 1 @ ''m'' @ pad_left (CHR ''0'') 4 ''60.0'' @ ''s'' = ''1m60.0s''"
    by code_simp
  ultimately show ?thesis
    using m(1) by (simp add: format_duration_def Let_def)
qed

end
