(* ===== verification/Ascii_Graph.thy ===== *)
theory Ascii_Graph
  imports Dag_Build Time_Text
begin

text \<open>
  The text rendering of a pipeline, \<^verbatim>\<open>src/src/core/engine/ascii_graph.cpp\<close>: the level of every task
  (the length of the longest chain of dependencies below it) and the tree of dependents, in
  which a subtree is written out only once.
\<close>

section \<open>Levels\<close>

definition raise_level :: "Dag \<Rightarrow> nat \<Rightarrow> int list \<Rightarrow> string \<Rightarrow> int list" where
  "raise_level g i level dep =
     (case index_of g dep of
        None \<Rightarrow> level
      | Some d \<Rightarrow> level[d := max (level ! d) (level ! i + 1)])"

definition level_step :: "Dag \<Rightarrow> int list \<Rightarrow> string \<Rightarrow> int list" where
  "level_step g level v =
     (case index_of g v of
        None \<Rightarrow> level
      | Some i \<Rightarrow> foldl (raise_level g i) level (dependents g v))"

definition compute_levels :: "Dag \<Rightarrow> int list" where
  "compute_levels g = foldl (level_step g) (replicate (dag_size g) 0) (g_topo_order g)"

section \<open>The tree\<close>

text \<open>
  A call of \<^verbatim>\<open>render_tree\<close> that is still to be made: the node, the prefix of its line, whether it
  is a root and whether it is the last child. The calls for the children of a node come before
  the calls that were pending already, as in the recursion.
\<close>

record Pending =
  pn_node :: string
  pn_prefix :: string
  pn_is_root :: bool
  pn_is_last :: bool

definition child_calls :: "Dag \<Rightarrow> Pending \<Rightarrow> Pending list" where
  "child_calls g c =
     (let children = dependents g (pn_node c);
          prefix = pn_prefix c @ (if pn_is_root c then [] else if pn_is_last c then ''    '' else ''|   '')
      in map (\<lambda>k. \<lparr>pn_node = children ! k, pn_prefix = prefix, pn_is_root = False,
                   pn_is_last = (Suc k = length children)\<rparr>) [0..<length children])"

definition tree_line :: "Pending \<Rightarrow> string" where
  "tree_line c =
     pn_prefix c @ (if pn_is_root c then [] else if pn_is_last c then ''`-- '' else ''|-- '') @ pn_node c"

function render_tree :: "Dag \<Rightarrow> Pending list \<Rightarrow> nat set \<Rightarrow> string" where
  "render_tree g [] expanded = []"
| "render_tree g (c # calls) expanded =
     (case index_of g (pn_node c) of
        None \<Rightarrow> render_tree g calls expanded
      | Some i \<Rightarrow>
          if i \<in> expanded then tree_line c @ '' *'' @ line_end @ render_tree g calls expanded
          else tree_line c @ line_end @ render_tree g (child_calls g c @ calls) (insert i expanded))"
  by pat_completeness auto
termination
proof (relation "measures [\<lambda>(g, calls, expanded). card (snd ` set (g_index g) - expanded), \<lambda>(g, calls, expanded). length calls]")
  fix g :: Dag and c :: Pending and calls expanded i
  assume "index_of g (pn_node c) = Some i" "i \<notin> expanded"
  moreover from this have "i \<in> snd ` set (g_index g)"
    by (force simp: index_of_def dest: map_of_SomeD)
  ultimately have "card (snd ` set (g_index g) - insert i expanded) < card (snd ` set (g_index g) - expanded)"
    by (intro psubset_card_mono) auto
  then show "((g, child_calls g c @ calls, insert i expanded), g, c # calls, expanded)
      \<in> measures [\<lambda>(g, calls, expanded). card (snd ` set (g_index g) - expanded), \<lambda>(g, calls, expanded). length calls]"
    by simp
qed auto

declare render_tree.simps(2) [simp del]

section \<open>The whole text\<close>

definition level_line :: "Dag \<Rightarrow> int list \<Rightarrow> int \<Rightarrow> string" where
  "level_line g levels lv =
     ''  '' @ to_string_int lv @ ''  '' @
     join (map (id_at g) (filter (\<lambda>i. levels ! i = lv) [0..<dag_size g])) '', '' @ line_end"

definition max_element :: "int list \<Rightarrow> int" where
  "max_element xs = foldl max (hd xs) xs"

definition render_ascii_graph :: "PipelineDefinition \<Rightarrow> Dag \<Rightarrow> string" where
  "render_ascii_graph p g =
     ''Pipeline: '' @ pd_name p @ ''  ('' @ to_string_int (int (dag_size g)) @ '' tasks, '' @
       to_string_int (int (length (pd_edges p))) @ '' dependencies)'' @ line_end @
     (if dag_size g = 0 then line_end @ ''(empty pipeline)'' @ line_end
      else let levels = compute_levels g
           in line_end @ ''Levels (tasks on the same level have no ordering constraint):'' @ line_end @
              concat (map (level_line g levels) [0..max_element levels]) @
              line_end @ ''Dependency tree (roots -> leaves, '' @ [CHR 0x27] @ ''*'' @ [CHR 0x27] @ '' = subtree shown above):'' @ line_end @
              render_tree g (map (\<lambda>root. \<lparr>pn_node = root, pn_prefix = [], pn_is_root = True, pn_is_last = True\<rparr>) (g_roots g)) {})"

section \<open>Levels are longest chains\<close>

definition relax_levels :: "nat list list \<Rightarrow> int list \<Rightarrow> nat \<Rightarrow> int list" where
  "relax_levels succ level i = foldl (\<lambda>l j. l[j := max (l ! j) (l ! i + 1)]) level (succ ! i)"

lemma compute_levels_idx:
  assumes wf: "dag_wf g"
  shows "compute_levels g = foldl (relax_levels (g_succ g)) (replicate (dag_size g) 0) (kahn (g_succ g) (g_in_degree g))"
proof -
  have ix: "index_of g (id_at g i) = Some i" if "i < dag_size g" for i
    using index_of_iff [OF wf] that by simp
  have step: "level_step g l (id_at g i) = relax_levels (g_succ g) l i" if i: "i < dag_size g" for l i
  proof -
    have "dependents g (id_at g i) = map (id_at g) (g_succ g ! i)"
      using i by (simp add: dependents_def ix dag_wfD(9) [OF wf])
    moreover have "foldl (raise_level g i) l (map (id_at g) js) = foldl (\<lambda>l j. l[j := max (l ! j) (l ! i + 1)]) l js"
      if "\<forall>j \<in> set js. j < dag_size g" for js
      using that by (induction js arbitrary: l) (simp_all add: raise_level_def ix)
    ultimately show ?thesis
      using i dag_wf_lists(3) [OF wf i] by (simp add: level_step_def relax_levels_def ix)
  qed
  have "foldl (level_step g) l (map (id_at g) is) = foldl (relax_levels (g_succ g)) l is" if "\<forall>i \<in> set is. i < dag_size g" for l "is"
    using that by (induction "is" arbitrary: l) (simp_all add: step)
  then show ?thesis
    using topo_idx(2) [OF wf] by (simp add: compute_levels_def dag_wfD(7) [OF wf])
qed

lemma relax_fold_length:
  "length (foldl (\<lambda>l j. l[j := max (l ! j) (l ! i + 1 :: int)]) l js) = length l"
  by (induction js arbitrary: l) auto

lemma relax_fold_nth:
  "i \<notin> set js \<Longrightarrow> k < length l \<Longrightarrow> foldl (\<lambda>l j. l[j := max (l ! j) (l ! i + 1)]) l js ! k =
     (if k \<in> set js then max (l ! k) (l ! i + 1 :: int) else l ! k)"
proof (induction js arbitrary: l)
  case (Cons j js)
  let ?l = "l[j := max (l ! j) (l ! i + 1)]"
  have "foldl (\<lambda>l j. l[j := max (l ! j) (l ! i + 1)]) ?l js ! k = (if k \<in> set js then max (?l ! k) (?l ! i + 1) else ?l ! k)"
    using Cons.prems by (intro Cons.IH) simp_all
  then show ?case
    using Cons.prems by (cases "k = j") simp_all
qed simp

definition levels_inv :: "nat list list \<Rightarrow> nat list \<Rightarrow> int list \<Rightarrow> bool" where
  "levels_inv succ out l \<longleftrightarrow>
     length l = length succ \<and> (\<forall>i \<in> set out. \<forall>j \<in> set (succ ! i). l ! i < l ! j) \<and>
     (\<forall>j < length succ. 0 \<le> l ! j \<and> (l ! j = 0 \<or> (\<exists>i \<in> set out. j \<in> set (succ ! i) \<and> l ! j = l ! i + 1)))"

lemma levels_inv_step:
  assumes inv: "levels_inv succ out l" and top: "topo_prefix succ (out @ i # post)"
    and n: "set (out @ [i]) \<subseteq> {..<length succ}" "i \<notin> set out" and r: "in_range succ" and a: "acyclic (dag_edges succ)"
  shows "levels_inv succ (out @ [i]) (relax_levels succ l i)"
proof -
  let ?l = "relax_levels succ l i"
  have i: "i < length succ"
    using n(1) by simp
  have e: "(u, v) \<in> dag_edges succ \<longleftrightarrow> v \<in> set (succ ! u)" if "u < length succ" for u v
    using that by (simp add: succ_at_def)
  have ni: "i \<notin> set (succ ! i)"
    using a e [OF i] i by (auto simp: acyclic_def simp del: dag_edges_iff)
  have len: "length l = length succ"
    using inv by (simp add: levels_inv_def)
  have L: "length ?l = length succ" "\<And>k. k < length succ \<Longrightarrow> ?l ! k = (if k \<in> set (succ ! i) then max (l ! k) (l ! i + 1) else l ! k)"
    using relax_fold_nth [OF ni, of _ l] relax_fold_length [of i l] len by (simp_all add: relax_levels_def)
  have old: "?l ! k = l ! k" if k: "k \<in> set (out @ [i])" for k
  proof -
    have "k \<notin> set (succ ! i)"
    proof (cases "k = i")
      case False
      then obtain pre mid where "out = pre @ k # mid"
        using k by (auto dest: split_list)
      then have "(i, k) \<in> dag_edges succ \<Longrightarrow> i \<in> set pre"
        using top unfolding topo_prefix_def by (metis append.assoc append_Cons)
      then show ?thesis
        using n(2) e [OF i] \<open>out = pre @ k # mid\<close> i by auto
    qed (use ni in simp)
    then show ?thesis
      using L(2) n(1) k by auto
  qed
  have rng: "j < length succ" if "u < length succ" "j \<in> set (succ ! u)" for u j
    using r that by (metis in_range_def nth_mem)
  have low: "?l ! u < ?l ! j" if u: "u \<in> set (out @ [i])" and j: "j \<in> set (succ ! u)" for u j
  proof -
    have "j < length succ"
      using rng n(1) u j by blast
    moreover have "l ! u < l ! j" if "u \<in> set out"
      using inv that j by (simp add: levels_inv_def)
    ultimately show ?thesis
      using old [OF u] L(2) [of j] u j by (auto simp: max_def)
  qed
  have "0 \<le> ?l ! j \<and> (?l ! j = 0 \<or> (\<exists>u \<in> set (out @ [i]). j \<in> set (succ ! u) \<and> ?l ! j = ?l ! u + 1))" if j: "j < length succ" for j
  proof -
    have 0: "0 \<le> l ! j" "l ! j = 0 \<or> (\<exists>u \<in> set out. j \<in> set (succ ! u) \<and> l ! j = l ! u + 1)"
      using inv j by (simp_all add: levels_inv_def)
    show ?thesis
    proof (cases "j \<in> set (succ ! i) \<and> l ! j < l ! i + 1")
      case True
      then show ?thesis using 0 L(2) [OF j] old [of i] by auto
    next
      case False
      then have "?l ! j = l ! j" using L(2) [OF j] by auto
      then show ?thesis using 0 old by auto
    qed
  qed
  then show ?thesis
    using low L(1) by (simp add: levels_inv_def)
qed

lemma levels_inv_all:
  assumes top: "topo_prefix succ (out @ order)" "distinct (out @ order)" "set (out @ order) \<subseteq> {..<length succ}"
    and r: "in_range succ" and a: "acyclic (dag_edges succ)" and inv: "levels_inv succ out l"
  shows "levels_inv succ (out @ order) (foldl (relax_levels succ) l order)"
  using assms
proof (induction order arbitrary: out l)
  case (Cons i order)
  have "levels_inv succ (out @ [i]) (relax_levels succ l i)"
    using Cons.prems by (intro levels_inv_step [OF Cons.prems(6), where post = order]) auto
  from Cons.IH [OF _ _ _ Cons.prems(4,5) this] Cons.prems(1-3) show ?case
    by simp
qed simp

lemma compute_levels_inv:
  assumes wf: "dag_wf g"
  shows "levels_inv (g_succ g) [0..<dag_size g] (compute_levels g)"
proof -
  let ?order = "kahn (g_succ g) (g_in_degree g)"
  have "levels_inv (g_succ g) [] (replicate (dag_size g) 0)"
    using dag_wfD(3) [OF wf] by (simp add: levels_inv_def)
  from levels_inv_all [OF _ _ _ dag_wf_range [OF wf] dag_wfD(5) [OF wf] this, of ?order]
  have "levels_inv (g_succ g) ?order (compute_levels g)"
    using topo_idx [OF wf] dag_wfD(3) [OF wf] by (simp add: compute_levels_idx [OF wf])
  then show ?thesis
    using topo_idx(2) [OF wf] by (simp add: levels_inv_def atLeast0LessThan)
qed

lemma compute_levels_exact:
  assumes wf: "dag_wf g" and j: "j < dag_size g"
  shows "compute_levels g ! j =
    (if g_pred g ! j = [] then 0 else 1 + Max (set (map (\<lambda>i. compute_levels g ! i) (g_pred g ! j))))"
proof -
  let ?l = "compute_levels g" and ?p = "set (g_pred g ! j)"
  note I = compute_levels_inv [OF wf, unfolded levels_inv_def dag_wfD(3) [OF wf]]
  have p: "i \<in> ?p \<longleftrightarrow> i < dag_size g \<and> j \<in> set (g_succ g ! i)" for i
    using succ_pred_iff [OF wf _ j] dag_wf_lists(4) [OF wf j] by blast
  have up: "?l ! i < ?l ! j" if "i \<in> ?p" for i
    using I that p by auto
  show ?thesis
  proof (cases "?p = {}")
    case True
    then have "?l ! j = 0" using I j p by auto
    with True show ?thesis by simp
  next
    case False
    then obtain i where i: "i \<in> ?p" by (meson all_not_in_conv)
    have "0 \<le> ?l ! i" using I p [of i] i by blast
    then have "?l ! j \<noteq> 0" using up [OF i] by linarith
    moreover have "?l ! j = 0 \<or> (\<exists>k \<in> set [0..<dag_size g]. j \<in> set (g_succ g ! k) \<and> ?l ! j = ?l ! k + 1)"
      using I j by blast
    ultimately obtain k where k: "k \<in> ?p" "?l ! j = ?l ! k + 1" using p by auto
    have "Max ((\<lambda>i. ?l ! i) ` ?p) = ?l ! k"
      using k up by (intro Max_eqI) force+
    with False k(2) show ?thesis by simp
  qed
qed

end
