(* ===== verification/Console.thy ===== *)
theory Console
  imports Time_Text Scheduler
begin

text \<open>
  The live output of a run, \<^verbatim>\<open>src/src/cli/console_reporter.cpp\<close>: what the observer prints for
  each notice of the scheduler. The readings of the clock it makes in plain mode are numbered
  by a tick of its own.
\<close>

record ReporterOptions =
  ro_plain :: bool
  ro_quiet :: bool
  ro_show_logs :: bool

definition status_line :: "string \<Rightarrow> string \<Rightarrow> string" where
  "status_line task_id extra = task_id @ (if extra = [] then [] else ''  '') @ extra @ line_end"

definition print_status ::
    "ReporterOptions \<Rightarrow> (nat \<Rightarrow> TimePoint) \<Rightarrow> nat \<Rightarrow> string \<Rightarrow> string \<Rightarrow> string \<Rightarrow> string \<times> nat" where
  "print_status opt clk k tag task_id extra =
     (if ro_plain opt
      then (to_iso8601 (clk k) @ ''  '' @ pad_right 8 tag @ '' '' @ status_line task_id extra, Suc k)
      else (''['' @ pad_right 8 tag @ ''] '' @ status_line task_id extra, k))"

text \<open>The tag and the remark printed for a change of state, if any.\<close>

definition status_of :: "TaskRun \<Rightarrow> TaskState \<Rightarrow> (string \<times> string) option" where
  "status_of task prev =
     (if prev = tr_state task then None
      else case tr_state task of
             tsRunning \<Rightarrow> Some (''RUNNING'', [])
           | tsSucceeded \<Rightarrow> Some (''SUCCESS'', format_duration (duration_seconds (tr_started_at task) (tr_finished_at task)))
           | tsFailed \<Rightarrow> Some (''FAILED'', if tr_attempts task \<noteq> [] then res_message (att_result (last (tr_attempts task))) else [])
           | tsCached \<Rightarrow> Some (''CACHED'', [])
           | tsSkipped \<Rightarrow> Some (''SKIPPED'', ''upstream failed'')
           | tsCancelled \<Rightarrow> Some (''CANCELLED'', [])
           | tsReady \<Rightarrow> (if tr_attempts task \<noteq> []
                          then Some (''RETRY'', ''attempt '' @ to_string_int (int (length (tr_attempts task)) + 1)) else None)
           | tsPending \<Rightarrow> None)"

definition count_text :: "nat \<Rightarrow> string" where
  "count_text n = to_string_int (int n)"

definition run_summary :: "PipelineRun \<Rightarrow> string" where
  "run_summary run =
     (let counts = run_counts run
      in line_end @ ''Pipeline '' @ to_string_PipelineState (run_state run) @ '' in '' @
         format_duration (duration_seconds (run_started_at run) (run_finished_at run)) @ line_end @
         ''  '' @ count_text (c_succeeded counts) @ '' succeeded, '' @ count_text (c_cached counts) @ '' cached, '' @
         count_text (c_failed counts) @ '' failed, '' @ count_text (c_skipped counts) @ '' skipped, '' @
         count_text (c_cancelled counts) @ '' cancelled  (of '' @ count_text (c_total counts) @ '')'' @ line_end)"

fun report_notice :: "ReporterOptions \<Rightarrow> (nat \<Rightarrow> TimePoint) \<Rightarrow> nat \<Rightarrow> Notice \<Rightarrow> string \<times> nat" where
  "report_notice opt clk k (on_run_started run) =
     (''Pipeline: '' @ run_pipeline_name run @ ''  ('' @ count_text (length (run_task_runs run)) @ '' tasks)'' @ line_end @ line_end, k)"
| "report_notice opt clk k (on_task_state_changed task prev) =
     (case status_of task prev of
        None \<Rightarrow> ([], k)
      | Some (tag, extra) \<Rightarrow> print_status opt clk k tag (tr_task_id task) extra)"
| "report_notice opt clk k (on_task_attempt_recorded task att) = ([], k)"
| "report_notice opt clk k (on_task_log task_id attempt stream line) =
     (if ro_quiet opt \<or> \<not> ro_show_logs opt then []
      else ''    '' @ task_id @ '' | '' @ stream @ '': '' @ line @ line_end, k)"
| "report_notice opt clk k (on_run_finished run) = (run_summary run, k)"

fun report_all :: "ReporterOptions \<Rightarrow> (nat \<Rightarrow> TimePoint) \<Rightarrow> nat \<Rightarrow> Notice list \<Rightarrow> string" where
  "report_all opt clk k [] = []"
| "report_all opt clk k (n # ns) = (case report_notice opt clk k n of (txt, k1) \<Rightarrow> txt @ report_all opt clk k1 ns)"

section \<open>What is printed\<close>

lemma report_all_append:
  "\<exists>k'. report_all opt clk k (ns @ ms) = report_all opt clk k ns @ report_all opt clk k' ms"
  by (induction ns arbitrary: k) (auto split: prod.split)

text \<open>Quiet mode drops exactly the lines of the tasks.\<close>

lemma report_quiet:
  assumes "ro_quiet opt"
  shows "report_all opt clk k ns =
    report_all opt clk k (filter (\<lambda>n. \<not> (\<exists>v a st l. n = on_task_log v a st l)) ns)"
proof (induction ns arbitrary: k)
  case (Cons n ns)
  then show ?case
    using assms by (cases n) (auto split: prod.split)
qed simp

end
