(* ===== verification/Cli.thy ===== *)
theory Cli
  imports Args Engine_Correct Ascii_Graph Console Pipeline_Document
begin

text \<open>
  The command line, \<^verbatim>\<open>src/src/cli/cli_app.cpp\<close>: every command with what it prints, what it does
  to the files and the database, and its exit code. What the process finds around it (the
  environment, the processors, the clock, the terminal, the runner and the scheduler's run) is
  an argument. The record of the options asked for is dropped: no command reads it.
\<close>

section \<open>The process and its surroundings\<close>

record Shell =
  sh_getenv :: getenv
  sh_processors :: nat
  sh_cwd :: string
  sh_machine :: Machine
  sh_clock :: clock
  sh_report_clock :: clock
  sh_world :: RunEnv
  sh_sched :: "RunEnv \<Rightarrow> CacheStore \<Rightarrow> Pc \<times> Sched"
  sh_stdout_is_tty :: bool
  sh_version :: "string \<times> string"

record Cli =
  cl_files :: "string \<Rightarrow> string option"
  cl_dirs :: "string list"
  cl_dbs :: "string \<Rightarrow> DatabaseFile"
  cl_tick :: nat
  cl_stdout :: string
  cl_stderr :: string

text \<open>A command returns its exit code, or an exception leaves \<^verbatim>\<open>main\<close>.\<close>

datatype CmdResult = ExitCode int | Aborted

definition say :: "string \<Rightarrow> Cli \<Rightarrow> Cli" where
  "say txt c = c\<lparr>cl_stdout := cl_stdout c @ txt\<rparr>"

definition complain :: "string \<Rightarrow> Cli \<Rightarrow> Cli" where
  "complain txt c = c\<lparr>cl_stderr := cl_stderr c @ txt\<rparr>"

section \<open>Shared helpers\<close>

definition opt_value :: "Args \<Rightarrow> string \<Rightarrow> string option" where
  "opt_value args name = fst (arg_value name args)"

definition opt_flag :: "Args \<Rightarrow> string \<Rightarrow> bool" where
  "opt_flag args name = fst (arg_flag name args)"

definition opt_int :: "Args \<Rightarrow> string \<Rightarrow> int option" where
  "opt_int args name = fst (arg_int_value name args)"

definition resolve_config :: "Shell \<Rightarrow> Args \<Rightarrow> Cli \<Rightarrow> Config" where
  "resolve_config sh args c =
     (let cfg = config_load (sh_processors sh) (sh_getenv sh) (e_codec (sh_world sh)) (cl_files c)
                  \<lparr>lo_working_dir = ''.'', lo_explicit_config_file = opt_value args ''config''\<rparr>
      in cfg\<lparr>c_state_dir := override (opt_value args ''state-dir'') (c_state_dir cfg),
             c_database_path := override (opt_value args ''db'') (c_database_path cfg)\<rparr>)"

definition ts_text :: "int \<Rightarrow> string" where
  "ts_text unix_ms = (if unix_ms \<le> 0 then ''-'' else to_iso8601 (from_unix_millis unix_ms))"

text \<open>The current time is read whenever there is a start, even if the end is known.\<close>

definition duration_str :: "Shell \<Rightarrow> int option \<Rightarrow> int option \<Rightarrow> nat \<Rightarrow> string \<times> nat" where
  "duration_str sh start end k =
     (case start of
        None \<Rightarrow> (''-'', k)
      | Some s \<Rightarrow>
          let e = override end (to_unix_millis (sh_clock sh k));
              secs = of_int (e - s) / 1000 :: rat
          in (format_duration (if secs < 0 then 0 else secs), Suc k))"

definition fail_usage :: "string \<Rightarrow> Cli \<Rightarrow> CmdResult \<times> Cli" where
  "fail_usage message c =
     (ExitCode 2, complain (text_lines [''flowforge: '' @ message, ''try '' @ quoted ''flowforge --help'']) c)"

definition load_pipeline_or_report :: "Shell \<Rightarrow> string \<Rightarrow> Cli \<Rightarrow> PipelineDefinition option \<times> Cli" where
  "load_pipeline_or_report sh path c =
     (let r = load_pipeline_from_file (e_codec (sh_world sh)) (cl_files c) (sh_cwd sh) path
      in if lr_ok r then (lr_pipeline r, c)
         else (None, complain (text_lines ((''failed to load pipeline '' @ quoted path @ '':'') #
                map (\<lambda>e. ''  '' @ LoadError_to_string e) (lr_errors r))) c))"

text \<open>
  The constructor and the destructor of \<^verbatim>\<open>Engine\<close>: the database file is opened and migrated, and
  keeps what the session wrote. A statement on missing tables fails like a failed migration.
\<close>

definition open_engine :: "Config \<Rightarrow> Cli \<Rightarrow> Persistence option \<times> Cli" where
  "open_engine cfg c =
     (let path = resolved_database_path cfg;
          c1 = (if parent_path path \<noteq> [] then c\<lparr>cl_dirs := cl_dirs c @ [parent_path path]\<rparr> else c)
      in case migrate_to_latest (cl_dbs c1 path) of
           (Inl e, f) \<Rightarrow> (None, c1\<lparr>cl_dbs := (cl_dbs c1)(path := f)\<rparr>)
         | (Inr _, f) \<Rightarrow>
             (case df_tables f of
                None \<Rightarrow> None
              | Some db \<Rightarrow> Some \<lparr>ps_db = db, ps_buffer = [], ps_tick = cl_tick c1\<rparr>, c1\<lparr>cl_dbs := (cl_dbs c1)(path := f)\<rparr>))"

definition close_engine :: "Config \<Rightarrow> Persistence \<Rightarrow> Cli \<Rightarrow> Cli" where
  "close_engine cfg p c =
     (let path = resolved_database_path cfg
      in c\<lparr>cl_tick := ps_tick p, cl_dbs := (cl_dbs c)(path := (cl_dbs c path)\<lparr>df_tables := Some (ps_db p)\<rparr>)\<rparr>)"

section \<open>Commands on pipeline files\<close>

definition cmd_version :: "Shell \<Rightarrow> Cli \<Rightarrow> CmdResult \<times> Cli" where
  "cmd_version sh c = (ExitCode 0, say (text_lines [fst (sh_version sh) @ '' '' @ snd (sh_version sh)]) c)"

definition exists_path :: "string \<Rightarrow> Cli \<Rightarrow> bool" where
  "exists_path p c \<longleftrightarrow> cl_files c p \<noteq> None \<or> p \<in> set (cl_dirs c)"

definition write_new :: "string \<Rightarrow> string \<Rightarrow> Cli \<Rightarrow> Cli" where
  "write_new p txt c =
     (if exists_path p c then c
      else say (text_lines [''created '' @ p]) (c\<lparr>cl_files := (cl_files c)(p \<mapsto> txt)\<rparr>))"

definition sample_config_text :: string where
  \<open>sample_config_text = text_lines
     [''{'',
      ''  "max_concurrency": 4,'',
      ''  "python_interpreter": "python3",'',
      ''  "cache_enabled": true,'',
      ''  "compute_checksums": false'',
      ''}'']\<close>

definition sample_pipeline_text :: string where
  \<open>sample_pipeline_text = text_lines
     [''{'',
      ''  "schema_version": 1,'',
      ''  "name": "sample",'',
      ''  "tasks": ['',
      ''    { "id": "hello", "type": "executable", "executable": "/bin/echo",'',
      ''      "arguments": ["hello", "from", "flowforge"] }'',
      ''  ],'',
      ''  "dependencies": []'',
      ''}'']\<close>

definition cmd_init :: "Shell \<Rightarrow> Args \<Rightarrow> Cli \<Rightarrow> CmdResult \<times> Cli" where
  "cmd_init sh args c =
     (let cfg = resolve_config sh args c;
          c1 = c\<lparr>cl_dirs := cl_dirs c @ [c_state_dir cfg, cancel_dir cfg]\<rparr>;
          c2 = write_new (path_append (c_state_dir cfg) ''config.json'') sample_config_text c1;
          c3 = write_new ''pipeline.json'' sample_pipeline_text c2
      in (ExitCode 0, say (text_lines [''state directory: '' @ c_state_dir cfg]) c3))"

definition validate_options :: "Config \<Rightarrow> Args \<Rightarrow> ValidationOptions" where
  "validate_options cfg args =
     \<lparr>vo_check_executables = True, vo_check_root_inputs_exist = opt_flag args ''strict'',
      vo_resource_pool = Some (mk_ResourcePool (c_resource_capacity cfg))\<rparr>"

definition print_issue :: "Cli \<Rightarrow> ValidationIssue \<Rightarrow> Cli" where
  "print_issue c i = (if vi_severity i = kError then complain else say) (text_lines [issue_to_string i]) c"

definition cmd_validate :: "Shell \<Rightarrow> Args \<Rightarrow> Cli \<Rightarrow> CmdResult \<times> Cli" where
  "cmd_validate sh args c =
     (case positional args 0 of
        None \<Rightarrow> fail_usage ''validate: expected a pipeline file'' c
      | Some path \<Rightarrow>
          (case load_pipeline_or_report sh path c of
             (None, c1) \<Rightarrow> (ExitCode 1, c1)
           | (Some pl, c1) \<Rightarrow>
               (let report = validate_pipeline (sh_machine sh) (validate_options (resolve_config sh args c1) args) pl;
                    c2 = foldl print_issue c1 report
                in if report_ok report \<and> \<not> (opt_flag args ''strict'' \<and> has_warnings report)
                   then (ExitCode 0, say (text_lines [''ok: '' @ quoted (pd_name pl) @ '' is valid ('' @
                          count_text (length (pd_tasks pl)) @ '' tasks, '' @ count_text (length (pd_edges pl)) @ '' dependencies)'']) c2)
                   else (ExitCode 1, complain (text_lines [''pipeline is invalid'']) c2))))"

definition cmd_graph :: "Shell \<Rightarrow> Args \<Rightarrow> Cli \<Rightarrow> CmdResult \<times> Cli" where
  "cmd_graph sh args c =
     (case positional args 0 of
        None \<Rightarrow> fail_usage ''graph: expected a pipeline file'' c
      | Some path \<Rightarrow>
          (case load_pipeline_or_report sh path c of
             (None, c1) \<Rightarrow> (ExitCode 1, c1)
           | (Some pl, c1) \<Rightarrow>
               (case br_dag (run_graph pl) of
                  None \<Rightarrow> (ExitCode 1, complain (text_lines (''cannot render graph:'' #
                            map (\<lambda>e. ''  '' @ de_message e) (br_errors (run_graph pl)))) c1)
                | Some g \<Rightarrow> (ExitCode 0, say (render_ascii_graph pl g) c1))))"

section \<open>Running\<close>

definition run_request :: "Args \<Rightarrow> RunRequest" where
  "run_request args =
     \<lparr>rq_max_concurrency = map_option to_int32 (opt_int args ''max-concurrency''),
      rq_cache_enabled = (if opt_flag args ''no-cache'' then Some False else None),
      rq_compute_checksums = (if opt_flag args ''checksums'' then Some True else None)\<rparr>"

definition reporter_options :: "Shell \<Rightarrow> Args \<Rightarrow> ReporterOptions" where
  "reporter_options sh args =
     \<lparr>ro_plain = (opt_flag args ''plain'' \<or> \<not> sh_stdout_is_tty sh), ro_quiet = opt_flag args ''quiet'', ro_show_logs = True\<rparr>"

text \<open>The notices of the scheduler's run, for the reporter, which hears each after the database has.\<close>

definition run_notices :: "Shell \<Rightarrow> Config \<Rightarrow> RunRequest \<Rightarrow> PipelineDefinition \<Rightarrow> Persistence \<Rightarrow> Notice list" where
  "run_notices sh cfg req pl p =
     (case br_dag (run_graph pl) of
        None \<Rightarrow> []
      | Some g \<Rightarrow> s_notices (snd (sh_sched sh (run_env (sh_world sh) cfg req pl g) (run_cache cfg req p))))"

definition run_text :: "Shell \<Rightarrow> Args \<Rightarrow> Notice list \<Rightarrow> int \<Rightarrow> string" where
  "run_text sh args ns run =
     report_all (reporter_options sh args) (sh_report_clock sh) 0 ns @ text_lines [''run id: '' @ to_string_int run]"

definition remove_file :: "string \<Rightarrow> Cli \<Rightarrow> Cli" where
  "remove_file p c = c\<lparr>cl_files := (cl_files c)(p := None)\<rparr>"

text \<open>What is printed before an exception ends the process is not recorded.\<close>

definition cmd_run :: "Shell \<Rightarrow> Args \<Rightarrow> Cli \<Rightarrow> CmdResult \<times> Cli" where
  "cmd_run sh args c =
     (case positional args 0 of
        None \<Rightarrow> fail_usage ''run: expected a pipeline file'' c
      | Some path \<Rightarrow>
          (case load_pipeline_or_report sh path c of
             (None, c1) \<Rightarrow> (ExitCode 1, c1)
           | (Some pl, c1) \<Rightarrow>
               (let cfg = resolve_config sh args c1 in
                case open_engine cfg c1 of
                  (None, c2) \<Rightarrow> (Aborted, c2)
                | (Some p, c2) \<Rightarrow>
                    (let (recovered, p1) = recover_orphaned_runs (sh_clock sh) p;
                         c3 = (if 0 < recovered
                               then complain (text_lines [''note: marked '' @ to_string_int recovered @
                                      '' interrupted run(s) from a previous session'']) c2 else c2);
                         req = run_request args;
                         (outcome, p2) = run_pipeline (sh_clock sh) (sh_machine sh) (sh_world sh) (sh_sched sh) cfg pl req p1;
                         c4 = close_engine cfg p2 c3
                     in case outcome of
                          Returned report \<Rightarrow>
                            (if rr_validation_failed report
                             then (ExitCode 1, complain (text_lines (''pipeline failed validation:'' #
                                    map (\<lambda>i. ''  '' @ issue_to_string i) (report_errors (rr_validation report)))) c4)
                             else (ExitCode (if rr_state report = psSucceeded then 0 else 1),
                                   say (run_text sh args (run_notices sh cfg req pl p1) (rr_run_id report))
                                     (remove_file (sentinel cfg (rr_run_id report)) c4)))
                        | _ \<Rightarrow> (Aborted, c4)))))"

section \<open>Queries\<close>

definition run_id_arg :: "Args \<Rightarrow> string \<Rightarrow> Cli \<Rightarrow> int option \<times> Cli" where
  "run_id_arg args command c =
     (case positional args 0 of
        None \<Rightarrow> (None, c)
      | Some p \<Rightarrow>
          (case strtol_exact p of
             Some v \<Rightarrow> if 0 \<le> v then (Some v, c)
                       else (None, complain (text_lines [''flowforge: '' @ command @ '': '' @ quoted p @ '' is not a valid run id'']) c)
           | None \<Rightarrow> (None, complain (text_lines [''flowforge: '' @ command @ '': '' @ quoted p @ '' is not a valid run id'']) c)))"

definition run_row :: "Shell \<Rightarrow> string \<times> nat \<Rightarrow> RunView \<Rightarrow> string \<times> nat" where
  "run_row sh acc r =
     (case acc of (txt, k) \<Rightarrow>
      case duration_str sh (rv_started_at r) (rv_finished_at r) k of (dur, k1) \<Rightarrow>
        (txt @ text_lines [pad_right 6 (to_string_int (rv_id r)) @ ''  '' @ pad_right 20 (take 20 (rv_pipeline_name r)) @ ''  '' @
           pad_right 11 (to_string_PipelineState (rv_state r)) @ ''  '' @
           pad_right 24 (ts_text (override (rv_started_at r) (rv_created_at r))) @ ''  '' @ dur], k1))"

definition cmd_runs :: "Shell \<Rightarrow> Args \<Rightarrow> Cli \<Rightarrow> CmdResult \<times> Cli" where
  "cmd_runs sh args c =
     (let cfg = resolve_config sh args c in
      case open_engine cfg c of
        (None, c1) \<Rightarrow> (Aborted, c1)
      | (Some p, c1) \<Rightarrow>
          (let (_, p1) = recover_orphaned_runs (sh_clock sh) p;
               runs = list_runs (to_int32 (override (opt_int args ''limit'') 20)) (ps_db p1)
           in if runs = [] then (ExitCode 0, say (text_lines [''no runs yet'']) (close_engine cfg p1 c1))
              else let head = pad_right 6 ''ID'' @ ''  '' @ pad_right 20 ''PIPELINE'' @ ''  '' @ pad_right 11 ''STATE'' @ ''  '' @
                         pad_right 24 ''STARTED'' @ ''  '' @ ''DURATION'';
                       (txt, k) = foldl (run_row sh) (text_lines [head], ps_tick p1) runs
                   in (ExitCode 0, say txt (close_engine cfg (p1\<lparr>ps_tick := k\<rparr>) c1))))"

definition task_row :: "Shell \<Rightarrow> string \<times> nat \<Rightarrow> TaskView \<Rightarrow> string \<times> nat" where
  "task_row sh acc t =
     (case acc of (txt, k) \<Rightarrow>
      case duration_str sh (tv_started_at t) (tv_finished_at t) k of (dur, k1) \<Rightarrow>
        (txt @ text_lines [pad_right 24 (take 24 (tv_task_id t)) @ ''  '' @ pad_right 10 (to_string_TaskState (tv_state t)) @ ''  '' @
           pad_right 8 (to_string_int (tv_attempts t)) @ ''  '' @
           pad_right 8 (case tv_last_exit_code t of Some x \<Rightarrow> to_string_int x | None \<Rightarrow> ''-'') @ ''  '' @ dur], k1))"

definition status_text :: "Shell \<Rightarrow> RunView \<Rightarrow> nat \<Rightarrow> string \<times> nat" where
  "status_text sh view k =
     (let (dur, k1) = duration_str sh (rv_started_at view) (rv_finished_at view) k;
          n = rv_counts view;
          head = text_lines
            [''run '' @ to_string_int (rv_id view) @ ''  pipeline '' @ quoted (rv_pipeline_name view),
             ''state      : '' @ to_string_PipelineState (rv_state view),
             ''created    : '' @ ts_text (rv_created_at view),
             ''started    : '' @ ts_text (override (rv_started_at view) 0),
             ''finished   : '' @ ts_text (override (rv_finished_at view) 0),
             ''duration   : '' @ dur,
             ''concurrency: '' @ to_string_int (rv_max_concurrency view),
             ''tasks      : '' @ count_text (c_total n) @ '' total | '' @ count_text (c_succeeded n) @ '' ok, '' @
               count_text (c_cached n) @ '' cached, '' @ count_text (c_failed n) @ '' failed, '' @
               count_text (c_skipped n) @ '' skipped, '' @ count_text (c_cancelled n) @ '' cancelled'',
             [],
             pad_right 24 ''TASK'' @ ''  '' @ pad_right 10 ''STATE'' @ ''  '' @ pad_right 8 ''ATTEMPTS'' @ ''  '' @
               pad_right 8 ''EXIT'' @ ''  '' @ ''DURATION'']
      in foldl (task_row sh) (head, k1) (rv_tasks view))"

definition cmd_status :: "Shell \<Rightarrow> Args \<Rightarrow> Cli \<Rightarrow> CmdResult \<times> Cli" where
  "cmd_status sh args c =
     (case run_id_arg args ''status'' c of
        (None, c1) \<Rightarrow> fail_usage ''status: expected a run id'' c1
      | (Some i, c1) \<Rightarrow>
          (let cfg = resolve_config sh args c1 in
           case open_engine cfg c1 of
             (None, c2) \<Rightarrow> (Aborted, c2)
           | (Some p, c2) \<Rightarrow>
               (case get_run i (ps_db p) of
                  None \<Rightarrow> (ExitCode 1, complain (text_lines [''no such run: '' @ to_string_int i]) (close_engine cfg p c2))
                | Some view \<Rightarrow>
                    (let (txt, k) = status_text sh view (ps_tick p)
                     in (ExitCode (if rv_state view = psSucceeded then 0 else 1),
                         say txt (close_engine cfg (p\<lparr>ps_tick := k\<rparr>) c2))))))"

definition log_line :: "LogRecord \<Rightarrow> string" where
  "log_line rec =
     ts_text (log_ts rec) @ ''  ['' @ pad_right 5 (log_severity rec) @ ''] '' @ override (log_task_id rec) ''-'' @
     (if log_stream rec = [] then [] else ''/'' @ log_stream rec) @ '': '' @ log_message rec"

definition cmd_logs :: "Shell \<Rightarrow> Args \<Rightarrow> Cli \<Rightarrow> CmdResult \<times> Cli" where
  "cmd_logs sh args c =
     (case run_id_arg args ''logs'' c of
        (None, c1) \<Rightarrow> fail_usage ''logs: expected a run id'' c1
      | (Some i, c1) \<Rightarrow>
          (let cfg = resolve_config sh args c1 in
           case open_engine cfg c1 of
             (None, c2) \<Rightarrow> (Aborted, c2)
           | (Some p, c2) \<Rightarrow>
               (let found = get_logs i (opt_value args ''task'') (to_int32 (override (opt_int args ''limit'') 200)) (ps_db p);
                    shown = filter (\<lambda>rec. case opt_value args ''stream'' of Some st \<Rightarrow> log_stream rec = st | None \<Rightarrow> True) found;
                    c3 = close_engine cfg p c2
                in if found = [] then (ExitCode 0, say (text_lines [''no logs for run '' @ to_string_int i]) c3)
                   else (ExitCode 0, say (text_lines (map log_line shown)) c3))))"

definition cmd_cancel :: "Shell \<Rightarrow> Args \<Rightarrow> Cli \<Rightarrow> CmdResult \<times> Cli" where
  "cmd_cancel sh args c =
     (case run_id_arg args ''cancel'' c of
        (None, c1) \<Rightarrow> fail_usage ''cancel: expected a run id'' c1
      | (Some i, c1) \<Rightarrow>
          (let cfg = resolve_config sh args c1 in
           case open_engine cfg c1 of
             (None, c2) \<Rightarrow> (Aborted, c2)
           | (Some p, c2) \<Rightarrow>
               (case request_cancel cfg i (ps_db p) of
                  (True, file) \<Rightarrow>
                    (ExitCode 0, say (text_lines [''cancellation requested for run '' @ to_string_int i])
                      ((close_engine cfg p c2)\<lparr>cl_dirs := cl_dirs c2 @ [cancel_dir cfg],
                         cl_files := (case file of Some f \<Rightarrow> (cl_files c2)(f \<mapsto> text_lines [''cancel'']) | None \<Rightarrow> cl_files c2)\<rparr>))
                | (False, _) \<Rightarrow>
                    (ExitCode 1, complain (text_lines [''run '' @ to_string_int i @ '' is unknown or already finished''])
                      (close_engine cfg p c2)))))"

definition entries_text :: "int \<Rightarrow> string" where
  "entries_text n = to_string_int n @ '' cache entr'' @ (if n = 1 then ''y'' else ''ies'')"

definition cmd_clean_cache :: "Shell \<Rightarrow> Args \<Rightarrow> Cli \<Rightarrow> CmdResult \<times> Cli" where
  "cmd_clean_cache sh args c =
     (let cfg = resolve_config sh args c in
      case open_engine cfg c of
        (None, c1) \<Rightarrow> (Aborted, c1)
      | (Some p, c1) \<Rightarrow>
          (case opt_int args ''older-than-days'' of
             Some days \<Rightarrow>
               (case prune_cache (sh_clock sh) (to_int32 days) p of (removed, p1) \<Rightarrow>
                (ExitCode 0, say (text_lines [''pruned '' @ entries_text removed @ '' older than '' @ to_string_int days @ '' day(s)''])
                   (close_engine cfg p1 c1)))
           | None \<Rightarrow>
               (case clear_cache p of (removed, p1) \<Rightarrow>
                (ExitCode 0, say (text_lines [''removed '' @ entries_text removed]) (close_engine cfg p1 c1)))))"

section \<open>main\<close>

definition kUsage :: string where
  \<open>kUsage = text_lines
     [''flowforge - local-first DAG pipeline orchestration engine'',
      [],
      ''usage: flowforge <command> [options]'',
      [],
      ''commands:'',
      ''  init                        scaffold .flowforge/ and a sample pipeline'',
      ''  validate <pipeline.json>    check a pipeline without running it'',
      ''  graph <pipeline.json>       print the DAG (levels + dependency tree)'',
      ''  run <pipeline.json>         execute a pipeline'',
      ''  runs                        list recent runs'',
      ''  status <run-id>             show one run in detail'',
      ''  logs <run-id>               show captured logs for a run'',
      ''  cancel <run-id>             request cancellation of a running run'',
      ''  clean-cache                 drop cached task results'',
      ''  version                     print the version'',
      [],
      ''global options:'',
      ''  --state-dir <dir>           override the FlowForge state directory'',
      ''  --db <file>                 override the SQLite database path'',
      ''  --config <file>             load settings from a specific JSON file'',
      [],
      ''run options:'',
      ''  --max-concurrency <n>       cap simultaneously running tasks'',
      ''  --no-cache                  ignore and do not write the result cache'',
      ''  --checksums                 hash all artifacts (slower, stronger cache keys)'',
      ''  --plain                     CI-friendly line output'',
      ''  --quiet                     suppress per-task log lines'',
      [],
      ''validate options:'',
      ''  --strict                    also require root inputs to exist; warnings fail'',
      [],
      ''logs options:'',
      ''  --task <id>                 only this task'',
      ''  --stream <stdout|stderr|engine>'',
      ''  --limit <n>                 maximum lines (default 200)'',
      [],
      ''runs / clean-cache options:'',
      ''  --limit <n>                 runs to list (default 20)'',
      ''  --older-than-days <n>       only prune cache entries older than n days'']\<close>

definition cli_main :: "Shell \<Rightarrow> string list \<Rightarrow> Cli \<Rightarrow> CmdResult \<times> Cli" where
  "cli_main sh argv c =
     (if length argv < 2 then (ExitCode 0, say kUsage c)
      else
        let command = argv ! 1; args = mk_Args argv 2 in
        if command = ''-h'' \<or> command = ''--help'' \<or> command = ''help'' then (ExitCode 0, say kUsage c)
        else if command = ''version'' \<or> command = ''--version'' \<or> command = ''-V'' then cmd_version sh c
        else if command = ''init'' then cmd_init sh args c
        else if command = ''validate'' then cmd_validate sh args c
        else if command = ''graph'' then cmd_graph sh args c
        else if command = ''run'' then cmd_run sh args c
        else if command = ''runs'' then cmd_runs sh args c
        else if command = ''clean-cache'' then cmd_clean_cache sh args c
        else if command = ''status'' then cmd_status sh args c
        else if command = ''logs'' then cmd_logs sh args c
        else if command = ''cancel'' then cmd_cancel sh args c
        else fail_usage (''unknown command '' @ quoted command) c)"

section \<open>Exit codes\<close>

text \<open>\<^verbatim>\<open>cli_app.hpp\<close>: 0 for success, 1 for a reported failure, 2 for a usage error.\<close>

definition documented :: "CmdResult \<Rightarrow> bool" where
  "documented r \<longleftrightarrow> (case r of ExitCode n \<Rightarrow> n \<in> {0, 1, 2} | Aborted \<Rightarrow> True)"

named_theorems command_defs

lemmas [command_defs] = cmd_version_def cmd_init_def cmd_validate_def cmd_graph_def cmd_run_def cmd_runs_def
  cmd_clean_cache_def cmd_status_def cmd_logs_def cmd_cancel_def fail_usage_def

lemma command_documented:
  "documented (fst (cmd_version sh c))" "documented (fst (cmd_init sh args c))" "documented (fst (cmd_validate sh args c))"
  "documented (fst (cmd_graph sh args c))" "documented (fst (cmd_run sh args c))" "documented (fst (cmd_runs sh args c))"
  "documented (fst (cmd_clean_cache sh args c))" "documented (fst (cmd_status sh args c))" "documented (fst (cmd_logs sh args c))"
  "documented (fst (cmd_cancel sh args c))" "documented (fst (fail_usage msg c))"
  by (simp_all add: documented_def command_defs Let_def case_prod_unfold split: option.split RunOutcome.split bool.split)

lemma cli_main_documented: "documented (fst (cli_main sh argv c))"
  by (simp add: cli_main_def Let_def command_documented) (simp add: documented_def)

text \<open>Recovery does not touch the cache.\<close>

lemma recover_cache: "db_cache (ps_db (snd (recover_orphaned_runs clk p))) = db_cache (ps_db p)"
proof -
  have t: "db_cache (ps_db (recover_task clk q tr)) = db_cache (ps_db q)" for q tr
    by (simp add: recover_task_def Let_def now_ms_def task_runs_set_state_def task_runs_set_finished_at_def update_task_run_def)
  have ts: "db_cache (ps_db (foldl (recover_task clk) q trs)) = db_cache (ps_db q)" for q trs
    by (induction trs arbitrary: q) (simp_all add: t)
  have r: "db_cache (ps_db (snd (recover_run clk np run))) = db_cache (ps_db (snd np))" for np run
    by (simp add: recover_run_def Let_def now_ms_def ts runs_set_state_def runs_mark_finished_def update_run_def split: prod.split)
  have rs: "db_cache (ps_db (snd (foldl (recover_run clk) np rs))) = db_cache (ps_db (snd np))" for np rs
    by (induction rs arbitrary: np) (simp_all add: r)
  show ?thesis
    by (simp add: recover_orphaned_runs_def recover_state_def rs)
qed

text \<open>\<^verbatim>\<open>flowforge run\<close> from the command line to the scheduler's result.\<close>

lemma cmd_run_exit:
  assumes cmd: "cmd_run sh args c = (ExitCode n, c')" "positional args 0 = Some path"
      "load_pipeline_or_report sh path c = (Some pl, c1)" "open_engine (resolve_config sh args c1) c1 = (Some p, c2)"
    and acc: "lists_all (sh_machine sh)"
      "report_ok (validate_pipeline (sh_machine sh) (run_validation_options (resolve_config sh args c1)) pl)"
      "\<forall>k. e_launch (sh_world sh) k \<noteq> kInvalidHandle" "br_dag (run_graph pl) = Some g"
    and s: "sh_sched sh (run_env (sh_world sh) (resolve_config sh args c1) (run_request args) pl g)
          (run_cache (resolve_config sh args c1) (run_request args) p) = (pcReturned, s)"
      "reachable (run_env (sh_world sh) (resolve_config sh args c1) (run_request args) pl g)
          (run_cache (resolve_config sh args c1) (run_request args) p) (pcReturned, s)"
  shows "n = (if \<not> (s_cancelling s \<or> s_cancel_requested s) \<and>
      (\<forall>tr \<in> snd ` set (run_task_runs (s_run s)). is_success_like (tr_state tr)) then 0 else 1)"
proof -
  let ?cfg = "resolve_config sh args c1" and ?req = "run_request args"
  let ?E = "run_env (sh_world sh) ?cfg ?req pl g"
  obtain k p1 where rec: "recover_orphaned_runs (sh_clock sh) p = (k, p1)"
    by fastforce
  have cache: "run_cache ?cfg ?req p1 = run_cache ?cfg ?req p"
    using recover_cache [of "sh_clock sh" p] rec by (simp add: run_cache_def)
  obtain rep p2 where run: "run_pipeline (sh_clock sh) (sh_machine sh) (sh_world sh) (sh_sched sh) ?cfg pl ?req p1 = (Returned rep, p2)"
    and n: "n = (if rr_validation_failed rep then 1 else if rr_state rep = psSucceeded then 0 else 1)"
    using cmd rec
    by (auto simp: cmd_run_def Let_def split: prod.splits RunOutcome.splits if_splits)
  have "\<not> rr_validation_failed rep"
    using run acc(2,4) by (auto simp: run_pipeline_def Let_def finish_run_def split: prod.splits sum.splits if_splits)
  note started = run_pipeline_started [OF run this acc(4)]
  have "rr_state rep = run_state (s_run s)"
    by (rule started, unfold cache s(1)) (auto elim: finish_run_rows)
  moreover have "env_ok ?E"
    using accepted_env_ok(1) [OF acc(1,2,4,3)] .
  ultimately show ?thesis
    using n \<open>\<not> rr_validation_failed rep\<close> returned_final_state [OF _ s(2)] by (simp split: if_splits)
qed

section \<open>The two observers of a run\<close>

text \<open>
  \<^verbatim>\<open>run_pipeline\<close> hands every notice to the database and then to the reporter; the two keep separate
  states, so each sees the whole sequence as if it were alone.
\<close>

definition persist_sink :: "clock \<Rightarrow> int \<Rightarrow> (string \<times> int) list \<Rightarrow> (Persistence \<times> string \<times> nat) sink" where
  "persist_sink clk run ids s n = (case persist clk run ids (fst s) n of (r, p) \<Rightarrow> (r, p, snd s))"

definition report_sink :: "ReporterOptions \<Rightarrow> clock \<Rightarrow> (Persistence \<times> string \<times> nat) sink" where
  "report_sink opt clk s n =
     (case s of (p, txt, k) \<Rightarrow> case report_notice opt clk k n of (new, k1) \<Rightarrow> (Inr (), p, txt @ new, k1))"

lemma fanout_separate:
  assumes "persist_all clk run ids p ns = (Inr (), p')"
  shows "\<exists>k'. fanout_all (fanout_add (Some (report_sink opt rclk)) (fanout_add (Some (persist_sink clk run ids)) []))
      (p, shown, k) ns = (Inr (), p', shown @ report_all opt rclk k ns, k')"
  using assms
proof (induction ns arbitrary: p shown k)
  case (Cons n ns)
  then obtain p1 where 1: "persist clk run ids p n = (Inr (), p1)" "persist_all clk run ids p1 ns = (Inr (), p')"
    by (auto split: prod.splits sum.splits)
  obtain new k1 where r: "report_notice opt rclk k n = (new, k1)"
    by fastforce
  from Cons.IH [OF 1(2), of "shown @ new" k1] 1(1) r show ?case
    by (simp add: fanout_add_def persist_sink_def report_sink_def)
qed (auto simp: fanout_add_def)

end
