(* ===== verification/Sample_Cli.thy ===== *)
theory Sample_Cli
  imports Sample_Engine Cli
begin

text \<open>
  The sample run started from the command line: \<^verbatim>\<open>flowforge run /w/p.json\<close> in an empty state
  directory, with no configuration file and an empty environment.
\<close>

definition sample_shell :: Shell where
  "sample_shell =
     \<lparr>sh_getenv = (\<lambda>_. None), sh_processors = 4, sh_cwd = ''/w'', sh_machine = sample_machine, sh_clock = (\<lambda>k. int k),
      sh_report_clock = (\<lambda>k. int k), sh_world = sample_world,
      sh_sched = (\<lambda>_ _. (pcReturned, engine_returned)), sh_stdout_is_tty = False, sh_version = (''flowforge'', ''1'')\<rparr>"

definition sample_args :: Args where
  "sample_args = mk_Args [''flowforge'', ''run'', ''/w/p.json''] 2"

definition sample_cli :: Cli where
  "sample_cli =
     \<lparr>cl_files = (\<lambda>p. if p = ''/w/p.json'' then Some ''{}'' else None), cl_dirs = [],
      cl_dbs = (\<lambda>_. \<lparr>df_user_version = 0, df_tables = None\<rparr>), cl_tick = 0, cl_stdout = [], cl_stderr = []\<rparr>"

lemma sample_args_eq: "sample_args = \<lparr>positionals = [''/w/p.json''], options = [], consumed = []\<rparr>"
  by code_simp

lemma sample_loaded: "load_pipeline_or_report sample_shell ''/w/p.json'' sample_cli = (Some (sample_pipeline absent_input), sample_cli)"
proof -
  have c: "canonical (sample_pipeline absent_input)"
    by code_simp
  have b: "absolute_path ''/w'' (parent_path ''/w/p.json'') = pd_base_directory (sample_pipeline absent_input)"
    "parent_path ''/w/p.json'' \<noteq> []"
    by code_simp+
  show ?thesis
    using load_document_back [OF c] b
    by (simp add: load_pipeline_or_report_def load_pipeline_from_file_def load_pipeline_from_json_def Let_def sample_shell_def
        sample_cli_def sample_world_def sample_document_def lr_ok_def) (simp add: sample_pipeline_def)
qed

lemma sample_resolved: "resolve_config sample_shell sample_args sample_cli = sample_config"
  by (simp add: resolve_config_def sample_args_eq opt_value_def arg_value_def sample_shell_def sample_cli_def config_load_def
      config_defaults_def config_candidates_def path_append_def is_absolute_def apply_env_def env_text_def env_int_def env_bool_def
      clamp_config_def override_def detect_cpu_count_def sample_config_def Let_def)

lemma sample_requested: "run_request sample_args = sample_request"
  by (simp add: run_request_def sample_args_eq opt_int_def opt_flag_def arg_int_value_def arg_value_def arg_flag_def
      sample_request_def Let_def)

lemma sample_opened:
  "\<exists>c2. open_engine sample_config sample_cli = (Some sample_store, c2)"
  by (simp add: open_engine_def sample_cli_def migrate_to_latest_def run_migrations_def kCurrentSchemaVersion_def Let_def
      sample_store_def)

lemma sample_cmd_run: "\<exists>n c'. cmd_run sample_shell sample_args sample_cli = (ExitCode n, c')"
proof -
  obtain c2 where o: "open_engine sample_config sample_cli = (Some sample_store, c2)"
    using sample_opened by blast
  have r: "recover_orphaned_runs (\<lambda>k. int k) sample_store = (0, sample_store)"
    by (simp add: recover_orphaned_runs_def recover_state_def runs_list_in_state_def sample_store_def empty_database_def)
  obtain rep where "fst sample_outcome = Returned rep"
    using sample_outcome_returned by blast
  then have "run_pipeline (sh_clock sample_shell) (sh_machine sample_shell) (sh_world sample_shell) (sh_sched sample_shell) sample_config
      (sample_pipeline absent_input) sample_request sample_store = (Returned rep, snd sample_outcome)"
    by (simp add: sample_shell_def sample_outcome_def prod_eq_iff)
  moreover have "positional sample_args 0 = Some ''/w/p.json''" "sh_clock sample_shell = (\<lambda>k. int k)"
    by (simp_all add: sample_args_eq positional_def sample_shell_def)
  ultimately show ?thesis
    by (simp add: cmd_run_def sample_loaded sample_resolved sample_requested o r Let_def)
qed

end
