(* ===== verification/Sqlite_Wrapper.thy ===== *)
theory Sqlite_Wrapper
  imports Storage "HOL-Library.Multiset"
begin

text \<open>
  The wrapper around the SQLite library, \<^verbatim>\<open>src/src/core/storage/database.cpp\<close>: which object owns
  which handle of the library through construction, moves, assignments and destruction, what
  a statement makes of the library's answers, and what a transaction leaves behind. The
  answers of the library (its return codes) are arguments.
\<close>

section \<open>Handles of the library\<close>

text \<open>
  The handles of one kind that are open, the next one to be given out, and whether one was
  released that was not open.
\<close>

record Pool =
  pool_live :: "nat list"
  pool_next :: nat
  pool_misused :: bool

definition empty_pool :: Pool where
  "empty_pool = \<lparr>pool_live = [], pool_next = 0, pool_misused = False\<rparr>"

definition alloc_handle :: "Pool \<Rightarrow> nat \<times> Pool" where
  "alloc_handle p = (pool_next p, p\<lparr>pool_live := pool_next p # pool_live p, pool_next := Suc (pool_next p)\<rparr>)"

definition free_handle :: "nat option \<Rightarrow> Pool \<Rightarrow> Pool" where
  "free_handle h p =
     (case h of
        None \<Rightarrow> p
      | Some x \<Rightarrow> if x \<in> set (pool_live p) then p\<lparr>pool_live := remove1 x (pool_live p)\<rparr> else p\<lparr>pool_misused := True\<rparr>)"

record SqliteError =
  sq_context :: string
  sq_detail :: string
  sq_code :: int

definition sq_what :: "SqliteError \<Rightarrow> string" where
  "sq_what e = sq_context e @ '': '' @ sq_detail e"

definition SQLITE_OK :: int where "SQLITE_OK = 0"
definition SQLITE_ROW :: int where "SQLITE_ROW = 100"
definition SQLITE_DONE :: int where "SQLITE_DONE = 101"

text \<open>A call of the library ended with a code; the text is the library's for that code.\<close>

definition check_rc :: "(int \<Rightarrow> string) \<Rightarrow> string \<Rightarrow> int \<Rightarrow> SqliteError + unit" where
  "check_rc errmsg what rc =
     (if rc \<noteq> SQLITE_OK then Inl \<lparr>sq_context = what, sq_detail = errmsg rc, sq_code = rc\<rparr> else Inr ())"

section \<open>Database\<close>

record DatabaseObj =
  dbo_handle :: "nat option"

text \<open>
  The library's answer to \<^verbatim>\<open>sqlite3_open_v2\<close>: a connection, or a code, in most cases with a handle
  that still has to be closed.
\<close>

datatype OpenAnswer = oaOpened | oaRefused bool int

definition Database_exec :: "(int \<Rightarrow> string) \<Rightarrow> int \<Rightarrow> SqliteError + unit" where
  "Database_exec errmsg rc = check_rc errmsg ''exec'' rc"

fun exec_all :: "(int \<Rightarrow> string) \<Rightarrow> int list \<Rightarrow> SqliteError + unit" where
  "exec_all errmsg [] = Inr ()"
| "exec_all errmsg (rc # rcs) =
     (case Database_exec errmsg rc of Inl e \<Rightarrow> Inl e | Inr _ \<Rightarrow> exec_all errmsg rcs)"

text \<open>
  The constructor. An exception of one of the three pragmas leaves it before the object exists,
  so its destructor does not run and the connection stays open.
\<close>

definition Database_new :: "(int \<Rightarrow> string) \<Rightarrow> OpenAnswer \<Rightarrow> int \<times> int \<times> int \<Rightarrow> Pool \<Rightarrow> (SqliteError + DatabaseObj) \<times> Pool" where
  "Database_new errmsg answer pragmas p =
     (case answer of
        oaRefused with_handle rc \<Rightarrow>
          (Inl \<lparr>sq_context = ''open database'', sq_detail = errmsg rc, sq_code = rc\<rparr>,
           if with_handle then case alloc_handle p of (h, p1) \<Rightarrow> free_handle (Some h) p1 else p)
      | oaOpened \<Rightarrow>
          (case alloc_handle p of (h, p1) \<Rightarrow>
           case pragmas of (foreign_keys, journal_mode, synchronous) \<Rightarrow>
           case exec_all errmsg [foreign_keys, journal_mode, synchronous] of
             Inl e \<Rightarrow> (Inl e, p1)
           | Inr _ \<Rightarrow> (Inr \<lparr>dbo_handle = Some h\<rparr>, p1)))"

definition Database_destroy :: "DatabaseObj \<Rightarrow> Pool \<Rightarrow> Pool" where
  "Database_destroy db p = (if dbo_handle db \<noteq> None then free_handle (dbo_handle db) p else p)"

text \<open>The new object and the one moved from.\<close>

definition Database_move :: "DatabaseObj \<Rightarrow> DatabaseObj \<times> DatabaseObj" where
  "Database_move other = (\<lparr>dbo_handle = dbo_handle other\<rparr>, other\<lparr>dbo_handle := None\<rparr>)"

text \<open>Assignment from another object; self-assignment is left alone by the caller of this part.\<close>

definition Database_assign :: "DatabaseObj \<Rightarrow> DatabaseObj \<Rightarrow> Pool \<Rightarrow> DatabaseObj \<times> DatabaseObj \<times> Pool" where
  "Database_assign self other p =
     (let p1 = (if dbo_handle self \<noteq> None then free_handle (dbo_handle self) p else p)
      in (self\<lparr>dbo_handle := dbo_handle other\<rparr>, other\<lparr>dbo_handle := None\<rparr>, p1))"

section \<open>Statement\<close>

record StatementObj =
  st_db :: "nat option"
  st_handle :: "nat option"

definition prepare :: "(int \<Rightarrow> string) \<Rightarrow> int \<Rightarrow> DatabaseObj \<Rightarrow> Pool \<Rightarrow> (SqliteError + StatementObj) \<times> Pool" where
  "prepare errmsg rc db p =
     (case check_rc errmsg ''prepare'' rc of
        Inl e \<Rightarrow> (Inl e, p)
      | Inr _ \<Rightarrow> (case alloc_handle p of (h, p1) \<Rightarrow> (Inr \<lparr>st_db = dbo_handle db, st_handle = Some h\<rparr>, p1)))"

definition Statement_destroy :: "StatementObj \<Rightarrow> Pool \<Rightarrow> Pool" where
  "Statement_destroy s p = (if st_handle s \<noteq> None then free_handle (st_handle s) p else p)"

definition Statement_move :: "StatementObj \<Rightarrow> StatementObj \<times> StatementObj" where
  "Statement_move other =
     (\<lparr>st_db = st_db other, st_handle = st_handle other\<rparr>, other\<lparr>st_db := None, st_handle := None\<rparr>)"

definition Statement_assign :: "StatementObj \<Rightarrow> StatementObj \<Rightarrow> Pool \<Rightarrow> StatementObj \<times> StatementObj \<times> Pool" where
  "Statement_assign self other p =
     (let p1 = (if st_handle self \<noteq> None then free_handle (st_handle self) p else p)
      in (self\<lparr>st_db := st_db other, st_handle := st_handle other\<rparr>, other\<lparr>st_db := None, st_handle := None\<rparr>, p1))"

text \<open>\<^verbatim>\<open>step\<close>: whether there is a row.\<close>

definition Statement_step :: "(int \<Rightarrow> string) \<Rightarrow> int \<Rightarrow> SqliteError + bool" where
  "Statement_step errmsg rc =
     (if rc = SQLITE_ROW then Inr True
      else if rc = SQLITE_DONE then Inr False
      else Inl \<lparr>sq_context = ''step'', sq_detail = errmsg rc, sq_code = rc\<rparr>)"

text \<open>\<^verbatim>\<open>PRAGMA user_version\<close> is prepared, stepped once and read; no row counts as version 0.\<close>

definition user_version :: "(int \<Rightarrow> string) \<Rightarrow> int \<Rightarrow> int \<Rightarrow> int \<Rightarrow> SqliteError + int" where
  "user_version errmsg prepare_rc step_rc v =
     (case check_rc errmsg ''prepare'' prepare_rc of
        Inl e \<Rightarrow> Inl e
      | Inr _ \<Rightarrow> (case Statement_step errmsg step_rc of Inl e \<Rightarrow> Inl e | Inr row \<Rightarrow> Inr (if row then v else 0)))"

text \<open>Values of a row. How the library converts between them is an argument.\<close>

datatype SqlValue = vNull | vInt int | vText string

definition bind_opt_int :: "int option \<Rightarrow> SqlValue" where
  "bind_opt_int v = (case v of Some i \<Rightarrow> vInt i | None \<Rightarrow> vNull)"

definition bind_opt_text :: "string option \<Rightarrow> SqlValue" where
  "bind_opt_text v = (case v of Some s \<Rightarrow> vText s | None \<Rightarrow> vNull)"

definition is_null :: "SqlValue \<Rightarrow> bool" where
  "is_null v \<longleftrightarrow> v = vNull"

definition column_int64 :: "(string \<Rightarrow> int) \<Rightarrow> SqlValue \<Rightarrow> int" where
  "column_int64 conv v = (case v of vInt i \<Rightarrow> i | vText s \<Rightarrow> conv s | vNull \<Rightarrow> 0)"

definition column_text :: "SqlValue \<Rightarrow> string" where
  "column_text v = (case v of vText s \<Rightarrow> s | vInt i \<Rightarrow> to_string_int i | vNull \<Rightarrow> [])"

definition column_opt_int64 :: "(string \<Rightarrow> int) \<Rightarrow> SqlValue \<Rightarrow> int option" where
  "column_opt_int64 conv v = (if is_null v then None else Some (column_int64 conv v))"

definition column_opt_text :: "SqlValue \<Rightarrow> string option" where
  "column_opt_text v = (if is_null v then None else Some (column_text v))"

lemma optional_columns [simp]:
  "column_opt_int64 conv (bind_opt_int i) = i" "column_opt_text (bind_opt_text s) = s"
  by (simp_all add: column_opt_int64_def column_opt_text_def bind_opt_int_def bind_opt_text_def is_null_def
      column_int64_def column_text_def split: option.split)

section \<open>Transaction\<close>

text \<open>Which of the three statements of a transaction fail, and how.\<close>

record 'e TxAnswers =
  tx_begin :: "'e option"
  tx_commit :: "'e option"
  tx_rollback :: "'e option"

text \<open>The destructor of a transaction that is still active; a failure of the rollback is swallowed.\<close>

definition Transaction_destroy :: "'e TxAnswers \<Rightarrow> 's \<Rightarrow> 's \<Rightarrow> 's" where
  "Transaction_destroy a before current = (case tx_rollback a of None \<Rightarrow> before | Some _ \<Rightarrow> current)"

definition with_transaction :: "'e TxAnswers \<Rightarrow> ('s \<Rightarrow> ('e + 'a) \<times> 's) \<Rightarrow> 's \<Rightarrow> ('e + 'a) \<times> 's" where
  "with_transaction a body db =
     (case tx_begin a of
        Some e \<Rightarrow> (Inl e, db)
      | None \<Rightarrow>
          (case body db of
             (Inl e, db1) \<Rightarrow> (Inl e, Transaction_destroy a db db1)
           | (Inr v, db1) \<Rightarrow>
               (case tx_commit a of
                  None \<Rightarrow> (Inr v, db1)
                | Some e \<Rightarrow> (Inl e, Transaction_destroy a db db1))))"

text \<open>All or nothing, unless the rollback itself fails.\<close>

lemma transaction_atomic:
  assumes "tx_rollback a = None" "with_transaction a body db = (r, db')"
  shows "(\<exists>v. r = Inr v \<and> body db = (Inr v, db')) \<or> (\<exists>e. r = Inl e \<and> db' = db)"
  using assms by (auto simp: with_transaction_def Transaction_destroy_def split: option.splits sum.splits prod.splits)

definition tx_fine :: "'e TxAnswers" where
  "tx_fine = \<lparr>tx_begin = None, tx_commit = None, tx_rollback = None\<rparr>"

text \<open>The repository that writes log lines in batches does so in a transaction.\<close>

lemma insert_batch_transaction:
  "logs_insert_batch recs db =
     (if recs = [] then (Inr (), db) else with_transaction tx_fine (logs_insert_all recs) db)"
  by (auto simp: logs_insert_batch_def with_transaction_def tx_fine_def Transaction_destroy_def split: prod.split sum.split)

section \<open>Sequences of operations on objects\<close>

text \<open>
  Both classes own one handle each and are used through the same operations. An object that has
  been destroyed leaves an empty place behind. \<open>opMake\<close> is a constructor or \<open>prepare\<close>, with the
  library's answers in its argument.
\<close>

record ('obj, 'ans) OwningClass =
  cls_make :: "'ans \<Rightarrow> Pool \<Rightarrow> (SqliteError + 'obj) \<times> Pool"
  cls_destroy :: "'obj \<Rightarrow> Pool \<Rightarrow> Pool"
  cls_move :: "'obj \<Rightarrow> 'obj \<times> 'obj"
  cls_assign :: "'obj \<Rightarrow> 'obj \<Rightarrow> Pool \<Rightarrow> 'obj \<times> 'obj \<times> Pool"

datatype 'ans Op = opMake 'ans | opDestroy nat | opMove nat | opAssign nat nat

definition object_at :: "'obj option list \<Rightarrow> nat \<Rightarrow> 'obj option" where
  "object_at objs i = (if i < length objs then objs ! i else None)"

fun exec_op :: "('obj, 'ans) OwningClass \<Rightarrow> 'ans Op \<Rightarrow> 'obj option list \<times> Pool \<Rightarrow> 'obj option list \<times> Pool" where
  "exec_op cls (opMake a) (objs, p) =
     (case cls_make cls a p of (Inl e, p1) \<Rightarrow> (objs, p1) | (Inr x, p1) \<Rightarrow> (objs @ [Some x], p1))"
| "exec_op cls (opDestroy i) (objs, p) =
     (case object_at objs i of None \<Rightarrow> (objs, p) | Some x \<Rightarrow> (objs[i := None], cls_destroy cls x p))"
| "exec_op cls (opMove i) (objs, p) =
     (case object_at objs i of
        None \<Rightarrow> (objs, p)
      | Some x \<Rightarrow> (case cls_move cls x of (new, old) \<Rightarrow> (objs[i := Some old] @ [Some new], p)))"
| "exec_op cls (opAssign i j) (objs, p) =
     (if i = j then (objs, p)
      else case (object_at objs i, object_at objs j) of
             (Some x, Some y) \<Rightarrow> (case cls_assign cls x y p of (x', y', p1) \<Rightarrow> (objs[i := Some x', j := Some y'], p1))
           | _ \<Rightarrow> (objs, p))"

definition exec_ops :: "('obj, 'ans) OwningClass \<Rightarrow> 'ans Op list \<Rightarrow> 'obj option list \<times> Pool \<Rightarrow> 'obj option list \<times> Pool" where
  "exec_ops cls ops st = foldl (\<lambda>st op. exec_op cls op st) st ops"

definition database_class :: "(int \<Rightarrow> string) \<Rightarrow> (DatabaseObj, OpenAnswer \<times> int \<times> int \<times> int) OwningClass" where
  "database_class errmsg =
     \<lparr>cls_make = (\<lambda>(answer, pragmas). Database_new errmsg answer pragmas), cls_destroy = Database_destroy,
      cls_move = Database_move, cls_assign = Database_assign\<rparr>"

definition statement_class :: "(int \<Rightarrow> string) \<Rightarrow> (StatementObj, int \<times> DatabaseObj) OwningClass" where
  "statement_class errmsg =
     \<lparr>cls_make = (\<lambda>(rc, db). prepare errmsg rc db), cls_destroy = Statement_destroy,
      cls_move = Statement_move, cls_assign = Statement_assign\<rparr>"

section \<open>Every handle has one owner\<close>

definition held :: "nat option \<Rightarrow> nat multiset" where
  "held h = (case h of None \<Rightarrow> {#} | Some x \<Rightarrow> {#x#})"

definition owned :: "('obj \<Rightarrow> nat option) \<Rightarrow> 'obj option list \<Rightarrow> nat multiset" where
  "owned handle objs = sum_list (map (\<lambda>ob. held (Option.bind ob handle)) objs)"

text \<open>The open handles are those the objects hold and \<open>lost\<close>, which nobody holds any more.\<close>

definition pool_inv :: "nat multiset \<Rightarrow> nat multiset \<Rightarrow> Pool \<Rightarrow> bool" where
  "pool_inv lost hs p \<longleftrightarrow>
     mset (pool_live p) = hs + lost \<and> distinct (pool_live p) \<and> list_all (\<lambda>h. h < pool_next p) (pool_live p) \<and> \<not> pool_misused p"

lemma held_simps [simp]: "held None = {#}" "held (Some x) = {#x#}"
  by (simp_all add: held_def)

lemma sum_list_swap:
  fixes xs :: "'a::comm_monoid_add list"
  shows "i < length xs \<Longrightarrow> sum_list (xs[i := v]) + xs ! i = sum_list xs + v"
  by (induction xs arbitrary: i) (auto simp: ac_simps split: nat.split)

lemma owned_append [simp]: "owned handle (objs @ [ob]) = owned handle objs + held (Option.bind ob handle)"
  by (simp add: owned_def)

lemma owned_update:
  assumes "object_at objs i = Some x"
  shows "owned handle (objs[i := ob]) + held (handle x) = owned handle objs + held (Option.bind ob handle)"
proof -
  have "i < length objs" "objs ! i = Some x"
    using assms by (auto simp: object_at_def split: if_splits)
  then show ?thesis
    using sum_list_swap [of i "map (\<lambda>ob. held (Option.bind ob handle)) objs"] by (simp add: owned_def map_update)
qed

lemma pool_inv_alloc: "pool_inv lost hs p \<Longrightarrow> alloc_handle p = (h, p1) \<Longrightarrow> pool_inv lost (hs + {#h#}) p1"
  by (auto simp: pool_inv_def alloc_handle_def list_all_iff less_Suc_eq)

lemma pool_inv_free: "pool_inv lost (hs + held h) p \<Longrightarrow> pool_inv lost hs (free_handle h p)"
proof (cases h)
  case (Some x)
  assume a: "pool_inv lost (hs + held h) p"
  then have m: "mset (pool_live p) = add_mset x (hs + lost)"
    by (simp add: pool_inv_def Some ac_simps)
  then have "x \<in> set (pool_live p)"
    by (metis set_mset_mset union_single_eq_member)
  with a m show ?thesis
    by (auto simp: pool_inv_def free_handle_def Some list_all_iff)
qed (simp add: free_handle_def)

text \<open>
  What the two classes have in common: \<open>loses\<close> tells the answers after which a constructor
  throws with the handle already open.
\<close>

locale owning_class =
  fixes cls :: "('obj, 'ans) OwningClass" and handle :: "'obj \<Rightarrow> nat option" and loses :: "'ans \<Rightarrow> bool"
  assumes make_ok: "cls_make cls a p = (Inr x, p1) \<Longrightarrow> \<exists>h. alloc_handle p = (h, p1) \<and> handle x = Some h"
    and make_failed: "cls_make cls a p = (Inl e, p1) \<Longrightarrow> \<not> loses a \<Longrightarrow> pool_inv lost hs p \<Longrightarrow> pool_inv lost hs p1"
    and make_lost: "cls_make cls a p = (Inl e, p1) \<Longrightarrow> loses a \<Longrightarrow> \<exists>h. alloc_handle p = (h, p1)"
    and destroy: "cls_destroy cls x p = free_handle (handle x) p"
    and move: "cls_move cls x = (new, old) \<Longrightarrow> handle new = handle x \<and> handle old = None"
    and assign: "cls_assign cls x y p = (x', y', p1) \<Longrightarrow>
      handle x' = handle y \<and> handle y' = None \<and> p1 = free_handle (handle x) p"
begin

lemma exec_make_inv:
  assumes inv: "pool_inv lost (owned handle objs) p" and ex: "exec_op cls (opMake a) (objs, p) = (objs', p')"
  shows "\<exists>lost'. pool_inv lost' (owned handle objs') p' \<and> (\<not> loses a \<longrightarrow> lost' = lost)"
proof (cases "cls_make cls a p")
  case (Pair r p1)
  show ?thesis
  proof (cases r)
    case (Inl e)
    with ex Pair have o: "objs' = objs" "p' = p1" and m: "cls_make cls a p = (Inl e, p1)"
      by simp_all
    show ?thesis
    proof (cases "loses a")
      case True
      then obtain h where "alloc_handle p = (h, p1)"
        using make_lost [OF m] by blast
      then have "pool_inv (lost + {#h#}) (owned handle objs) p1"
        using pool_inv_alloc [OF inv] by (simp add: pool_inv_def ac_simps)
      with True o show ?thesis
        by blast
    next
      case False
      with make_failed [OF m False inv] o show ?thesis
        by blast
    qed
  next
    case (Inr x)
    with ex Pair have "objs' = objs @ [Some x]" "p' = p1"
      by simp_all
    moreover obtain h where "alloc_handle p = (h, p1)" "handle x = Some h"
      using make_ok [of a p x p1] Pair Inr by blast
    ultimately show ?thesis
      using pool_inv_alloc [OF inv] by auto
  qed
qed

lemma exec_destroy_inv:
  assumes inv: "pool_inv lost (owned handle objs) p" and ex: "exec_op cls (opDestroy i) (objs, p) = (objs', p')"
  shows "pool_inv lost (owned handle objs') p'"
proof (cases "object_at objs i")
  case (Some x)
  then have "owned handle objs = owned handle (objs[i := None]) + held (handle x)"
    using owned_update [OF Some, of handle None] by simp
  with inv pool_inv_free have "pool_inv lost (owned handle (objs[i := None])) (free_handle (handle x) p)"
    by metis
  with Some ex show ?thesis
    by (auto simp: destroy)
qed (use inv ex in auto)

lemma exec_move_inv:
  assumes inv: "pool_inv lost (owned handle objs) p" and ex: "exec_op cls (opMove i) (objs, p) = (objs', p')"
  shows "pool_inv lost (owned handle objs') p'"
proof (cases "object_at objs i")
  case (Some x)
  obtain new old where m: "cls_move cls x = (new, old)"
    by fastforce
  have "owned handle (objs[i := Some old] @ [Some new]) = owned handle objs"
    using owned_update [OF Some, of handle "Some old"] move [OF m] by simp
  with inv Some ex m show ?thesis
    by auto
qed (use inv ex in auto)

lemma exec_assign_inv:
  assumes inv: "pool_inv lost (owned handle objs) p" and ex: "exec_op cls (opAssign i j) (objs, p) = (objs', p')"
  shows "pool_inv lost (owned handle objs') p'"
proof (cases "i \<noteq> j \<and> (\<exists>x y. object_at objs i = Some x \<and> object_at objs j = Some y)")
  case True
  then obtain x y where xy: "object_at objs i = Some x" "object_at objs j = Some y" "i \<noteq> j"
    by blast
  obtain x' y' p1 where m: "cls_assign cls x y p = (x', y', p1)"
    by (cases "cls_assign cls x y p") auto
  have "object_at (objs[i := Some x']) j = Some y"
    using xy(2,3) by (auto simp: object_at_def split: if_splits)
  from owned_update [OF this, of handle "Some y'"] owned_update [OF xy(1), of handle "Some x'"]
  have "owned handle objs + held (handle y) =
      (owned handle (objs[i := Some x', j := Some y']) + held (handle x)) + held (handle y)"
    using assign [OF m] by (simp add: ac_simps)
  then have "owned handle objs = owned handle (objs[i := Some x', j := Some y']) + held (handle x)"
    by simp
  with inv pool_inv_free have "pool_inv lost (owned handle (objs[i := Some x', j := Some y'])) p1"
    using assign [OF m] by metis
  with xy m ex show ?thesis
    by auto
next
  case False
  with ex have "objs' = objs" "p' = p"
    by (auto split: if_splits option.splits)
  with inv show ?thesis
    by blast
qed

lemma exec_op_inv:
  assumes "pool_inv lost (owned handle objs) p" "exec_op cls op (objs, p) = (objs', p')"
  shows "\<exists>lost'. pool_inv lost' (owned handle objs') p' \<and> ((\<forall>a. op = opMake a \<longrightarrow> \<not> loses a) \<longrightarrow> lost' = lost)"
proof (cases op)
  case (opMake a)
  then show ?thesis using exec_make_inv [of lost objs p a objs' p'] assms by auto
next
  case (opDestroy i)
  then show ?thesis using exec_destroy_inv [of lost objs p i objs' p'] assms by auto
next
  case (opMove i)
  then show ?thesis using exec_move_inv [of lost objs p i objs' p'] assms by auto
next
  case (opAssign i j)
  then show ?thesis using exec_assign_inv [of lost objs p i j objs' p'] assms by auto
qed

lemma exec_ops_inv:
  assumes "pool_inv lost (owned handle objs) p" "exec_ops cls ops (objs, p) = (objs', p')"
  shows "\<exists>lost'. pool_inv lost' (owned handle objs') p' \<and> ((\<forall>a. opMake a \<in> set ops \<longrightarrow> \<not> loses a) \<longrightarrow> lost' = lost)"
  using assms
proof (induction ops arbitrary: objs p lost)
  case (Cons op ops)
  obtain objs1 p1 where 1: "exec_op cls op (objs, p) = (objs1, p1)"
    by fastforce
  obtain lost1 where l: "pool_inv lost1 (owned handle objs1) p1" "(\<forall>a. op = opMake a \<longrightarrow> \<not> loses a) \<longrightarrow> lost1 = lost"
    using exec_op_inv [OF Cons.prems(1) 1] by blast
  have "exec_ops cls ops (objs1, p1) = (objs', p')"
    using Cons.prems(2) 1 by (simp add: exec_ops_def)
  from Cons.IH [OF l(1) this] l(2) show ?case
    by fastforce
qed (auto simp: exec_ops_def)

lemma released_once:
  assumes "exec_ops cls ops ([], empty_pool) = (objs, p)"
  shows "\<not> pool_misused p" "distinct (pool_live p)" "owned handle objs \<subseteq># mset (pool_live p)"
    "(\<forall>a. opMake a \<in> set ops \<longrightarrow> \<not> loses a) \<Longrightarrow> mset (pool_live p) = owned handle objs"
proof -
  have "pool_inv {#} (owned handle ([] :: 'obj option list)) empty_pool"
    by (simp add: pool_inv_def owned_def empty_pool_def)
  from exec_ops_inv [OF this assms] obtain lost where l: "pool_inv lost (owned handle objs) p"
    "(\<forall>a. opMake a \<in> set ops \<longrightarrow> \<not> loses a) \<longrightarrow> lost = {#}"
    by blast
  show "\<not> pool_misused p" "distinct (pool_live p)" "owned handle objs \<subseteq># mset (pool_live p)"
    using l(1) by (simp_all add: pool_inv_def)
  show "mset (pool_live p) = owned handle objs" if "\<forall>a. opMake a \<in> set ops \<longrightarrow> \<not> loses a"
    using l that by (simp add: pool_inv_def)
qed

end

text \<open>A connection is lost when it opens and one of the pragmas then fails.\<close>

definition pragma_failed :: "OpenAnswer \<times> int \<times> int \<times> int \<Rightarrow> bool" where
  "pragma_failed a = (case a of (answer, x, y, z) \<Rightarrow> answer = oaOpened \<and> (x \<noteq> SQLITE_OK \<or> y \<noteq> SQLITE_OK \<or> z \<noteq> SQLITE_OK))"

lemma free_just_allocated: "pool_inv lost hs p \<Longrightarrow> alloc_handle p = (h, p1) \<Longrightarrow> pool_inv lost hs (free_handle (Some h) p1)"
  using pool_inv_alloc [of lost hs p h p1] pool_inv_free [of lost hs "Some h" p1] by simp

interpretation database: owning_class "database_class errmsg" dbo_handle pragma_failed
proof
  show "pool_inv lost hs p1" if "cls_make (database_class errmsg) a p = (Inl e, p1)" "\<not> pragma_failed a" "pool_inv lost hs p"
    for a p e p1 lost hs
    using that free_just_allocated [OF that(3)]
    by (cases "fst a") (auto simp: database_class_def Database_new_def pragma_failed_def Database_exec_def check_rc_def case_prod_unfold
        split: prod.splits if_splits sum.splits)
qed (auto simp: database_class_def Database_new_def Database_destroy_def Database_move_def Database_assign_def
    pragma_failed_def Database_exec_def check_rc_def free_handle_def alloc_handle_def case_prod_unfold Let_def
    split: prod.splits if_splits sum.splits OpenAnswer.splits)

interpretation statement: owning_class "statement_class errmsg" st_handle "\<lambda>_. False"
  by unfold_locales
    (auto simp: statement_class_def prepare_def Statement_destroy_def Statement_move_def Statement_assign_def
      check_rc_def free_handle_def case_prod_unfold Let_def split: prod.splits if_splits sum.splits)

end
