(* ===== verification/Run_Blocking.thy ===== *)
theory Run_Blocking
  imports Runner_Contract
begin

text \<open>
  \<^verbatim>\<open>run_blocking\<close> of \<^verbatim>\<open>src/src/core/process/posix_process_runner.cpp\<close>: launch a child, collect its lines
  and wait for its end. The calls the runner has made so far are an argument; as long as the end
  has not been reported the call does not return.
\<close>

record Blocking =
  bl_out :: string
  bl_err :: string
  bl_done :: bool
  bl_result :: ProcessResult

definition Blocking_init :: Blocking where
  "Blocking_init = \<lparr>bl_out = [], bl_err = [], bl_done = False, bl_result = ProcessResult_default\<rparr>"

text \<open>The three callbacks; the runner calls the ones for lines only where a text was asked for.\<close>

fun blocking_call :: "ProcessHandle \<Rightarrow> Blocking \<Rightarrow> RunnerOut \<Rightarrow> Blocking" where
  "blocking_call h b (on_line h' is_stdout line) =
     (if h' \<noteq> h then b
      else if is_stdout then b\<lparr>bl_out := bl_out b @ line @ [newline]\<rparr>
      else b\<lparr>bl_err := bl_err b @ line @ [newline]\<rparr>)"
| "blocking_call h b (on_exit h' res) = (if h' \<noteq> h then b else b\<lparr>bl_result := res, bl_done := True\<rparr>)"
| "blocking_call h b _ = b"

definition blocking_launch :: "bool \<Rightarrow> bool \<Rightarrow> ProcessSpec \<Rightarrow> Runner \<Rightarrow> ProcessHandle \<times> Runner" where
  "blocking_launch want_out want_err spec r = launch spec \<lparr>cb_on_stdout = want_out, cb_on_stderr = want_err\<rparr> r"

definition run_blocking :: "ProcessHandle \<Rightarrow> RunnerOut list \<Rightarrow> Blocking option" where
  "run_blocking h calls =
     (if h = kInvalidHandle
      then Some (Blocking_init\<lparr>bl_result := ProcessResult_default\<lparr>pr_outcome := poSpawnFailed,
             pr_spawn_error := ''process runner rejected the launch (shutting down)''\<rparr>\<rparr>)
      else let b = foldl (blocking_call h) Blocking_init calls
           in if bl_done b then Some b else None)"

section \<open>When it returns, and with what\<close>

lemma blocking_done:
  "bl_done (foldl (blocking_call h) b calls) \<longleftrightarrow> bl_done b \<or> h \<in> set (List.map_filter exit_of calls)"
proof (induction calls arbitrary: b)
  case (Cons x calls)
  then show ?case
    by (cases x) (auto simp: map_filter_simps exit_of_def)
qed (simp add: map_filter_simps)

lemma blocking_result:
  "bl_done (foldl (blocking_call h) b calls) \<Longrightarrow>
   on_exit h (bl_result (foldl (blocking_call h) b calls)) \<in> set calls \<or>
   bl_done b \<and> bl_result (foldl (blocking_call h) b calls) = bl_result b"
proof (induction calls arbitrary: b)
  case (Cons x calls)
  then have "on_exit h (bl_result (foldl (blocking_call h) (blocking_call h b x) calls)) \<in> set calls \<or>
      bl_done (blocking_call h b x) \<and>
      bl_result (foldl (blocking_call h) (blocking_call h b x) calls) = bl_result (blocking_call h b x)"
    by simp
  then show ?case
    by (cases x) (auto split: if_splits)
qed simp

text \<open>The caller gets its answer exactly when the end of its child has been reported, and gets that report.\<close>

lemma run_blocking_returns:
  assumes "h \<noteq> kInvalidHandle"
  shows "run_blocking h (r_out r) \<noteq> None \<longleftrightarrow> h \<in> set (exits r)"
    and "run_blocking h (r_out r) = Some b \<Longrightarrow> on_exit h (bl_result b) \<in> set (r_out r)"
  using assms blocking_done [of h Blocking_init "r_out r"] blocking_result [of h Blocking_init "r_out r"]
  by (auto simp: run_blocking_def Let_def exits_def Blocking_init_def split: if_splits)

lemma run_blocking_ends:
  assumes "(rstep os)\<^sup>*\<^sup>* (runner_start grace) (cmds, True, r)" "h \<in> set (launches cmds)" "h \<noteq> kInvalidHandle"
  shows "\<exists>b. run_blocking h (r_out r) = Some b"
  using run_blocking_returns(1) [OF assms(3), of r] reactor.exits_complete [OF assms(1)] reach_stopped [OF assms(1)] assms(2)
  by auto

text \<open>The texts are the lines that were delivered, each with its line end.\<close>

definition lines_of :: "ProcessHandle \<Rightarrow> bool \<Rightarrow> RunnerOut list \<Rightarrow> string list" where
  "lines_of h is_stdout calls =
     List.map_filter (\<lambda>x. case x of on_line h' st l \<Rightarrow> if h' = h \<and> st = is_stdout then Some l else None | _ \<Rightarrow> None) calls"

lemma blocking_text:
  "bl_out (foldl (blocking_call h) b calls) = bl_out b @ concat (map (\<lambda>l. l @ [newline]) (lines_of h True calls))"
  "bl_err (foldl (blocking_call h) b calls) = bl_err b @ concat (map (\<lambda>l. l @ [newline]) (lines_of h False calls))"
proof (induction calls arbitrary: b)
  case (Cons x calls)
  { case 1 show ?case using Cons.IH by (cases x) (auto simp: lines_of_def map_filter_simps) }
  { case 2 show ?case using Cons.IH by (cases x) (auto simp: lines_of_def map_filter_simps) }
qed (simp_all add: lines_of_def map_filter_simps)

end
