(* ===== verification/Spec2Isabelle.thy ===== *)
theory Spec2Isabelle
  imports Sample_Systems Sample_Cli Sqlite_Wrapper Run_Blocking
begin

text \<open>
  \<^bold>\<open>FlowForge\<close> runs pipelines of programs on one machine: a document names tasks and dependencies,
  the scheduler starts each task as a child process once everything it depends on has succeeded,
  retries, caches and cancels, and a database keeps what happened. This library models the
  program's own C++ code under \<^verbatim>\<open>src/src\<close> and \<^verbatim>\<open>src/include\<close>, one theory per component, and
  proves what each component owes to the next. This theory holds the statements that matter to a
  user of the program, numbered C1 to C40; every other theory is the model of a component, its
  library of lemmas, or a concrete instance.

  \<^bold>\<open>How the parts work together.\<close> The command line (\<open>Cli\<close>, \<open>Args\<close>, \<open>Console\<close>) loads settings
  (\<open>Config\<close>) and a document (\<open>Pipeline_Document\<close>, over \<open>Json\<close>) and calls the engine (\<open>Engine\<close>).
  The engine has the pipeline validated (\<open>Validator\<close>), builds its graph (\<open>Dag\<close>), creates rows
  (\<open>Storage\<close>, through \<open>Sqlite_Wrapper\<close>) and runs the scheduler (\<open>Scheduler\<close>), which uses the ready
  queue (\<open>Ready_Queue\<close>), the resource arbiter (\<open>Resource_Pool\<close>), the artifact manager
  (\<open>Artifacts\<close>), the cache (\<open>Cache\<close>, keyed by \<open>Sha256\<close>) and the process runner
  (\<open>Process_Spec\<close>, \<open>Process_Runner\<close>). The scheduler's notices flow back through the
  observers of the engine into the database and onto the console.

  \<^bold>\<open>Theories and sources.\<close>
  \<^item> \<open>FF_Prelude\<close>: names of basic types, decimal printing, lemmas on lists, counts and relations.
  \<^item> \<open>Util\<close>, \<open>Time_Text\<close>, \<open>Numerals\<close>, \<open>Sha256\<close>: \<^verbatim>\<open>core/util\<close>, with the parts of \<^verbatim>\<open>printf\<close>,
    \<^verbatim>\<open>gmtime_r\<close>, \<^verbatim>\<open>strtol\<close> and \<^verbatim>\<open>std::stoi\<close> the program uses.
  \<^item> \<open>Domain\<close>: \<^verbatim>\<open>core/domain\<close>; structs are records, enums datatypes, with names and transitions.
  \<^item> \<open>Dag\<close>, \<open>Dag_Correct\<close>, \<open>Dag_Build\<close>: \<^verbatim>\<open>core/dag/dag.cpp\<close>; cycle search, Kahn's order, builder,
    queries. \<open>dag_wf\<close> is the invariant of every graph that is built.
  \<^item> \<open>Resource_Pool\<close>, \<open>Ready_Queue\<close>: \<^verbatim>\<open>core/resources\<close>, \<^verbatim>\<open>ready_queue.cpp\<close>,
    \<^verbatim>\<open>scheduling_policy.cpp\<close>; locales \<open>resource_arbiter\<close> and \<open>scheduling_policy\<close>.
  \<^item> \<open>Artifacts\<close>, \<open>Cache\<close>: \<^verbatim>\<open>core/artifacts\<close>, \<^verbatim>\<open>core/cache\<close>; locale \<open>keyed_table\<close>.
  \<^item> \<open>Scheduler\<close>: \<^verbatim>\<open>core/scheduler/scheduler.cpp\<close>. The record \<open>Sched\<close> has the class's members, one
    definition per member function; \<open>step\<close> is the concurrent system of the scheduler's thread and the
    threads that deliver exits, output lines and cancellation. \<open>Scheduler_Inv\<close> states the invariant in
    thirteen parts, \<open>Scheduler_Steps\<close> and \<open>Scheduler_Reach\<close> show that every operation and every step
    keeps it, \<open>Scheduler_Effects\<close> what each kind of completion does to all tasks.
  \<^item> \<open>Process_Spec\<close>, \<open>Process_Runner\<close>, \<open>Runner_Contract\<close>, \<open>Run_Blocking\<close>: \<^verbatim>\<open>core/process\<close>; the reactor with its command
    queue, children, deadlines and output lines, and the contract of \<^verbatim>\<open>process_runner.hpp\<close> as the locale
    \<open>process_runner\<close>, interpreted on the reactor.
  \<^item> \<open>Json\<close>, \<open>Pipeline_Document\<close>, \<open>Validator\<close>: \<^verbatim>\<open>core/serialization\<close>, \<^verbatim>\<open>core/validation\<close>.
  \<^item> \<open>Storage\<close>, \<open>Sqlite_Wrapper\<close>: \<^verbatim>\<open>core/storage\<close>; tables and statements, and the ownership of
    library handles (locale \<open>owning_class\<close>, interpreted on both classes) and transactions.
  \<^item> \<open>Config\<close>, \<open>Engine\<close>, \<open>Engine_Correct\<close>, \<open>Ascii_Graph\<close>: \<^verbatim>\<open>core/engine\<close>.
  \<^item> \<open>Args\<close>, \<open>Console\<close>, \<open>Cli\<close>: \<^verbatim>\<open>src/src/cli\<close>.
  \<^item> \<open>Sample_Run\<close>, \<open>Sample_Systems\<close>, \<open>Sample_Engine\<close>, \<open>Sample_Cli\<close>: concrete pipelines, machines,
    databases and runs, computed in the logic, on which the theorems below are instantiated.

  \<^bold>\<open>What is shown.\<close> C1 to C15: the scheduler, for every state its threads can reach (order of tasks,
  limits, resources, retries, skipping, cancellation, the final report). C16 to C20: graphs and
  the queue. C21 to C27: back-off, hashing, cache and child environments. C28, C37: handles of the
  database library and integrity of the tables. C29 to C32: the process runner. C33, C34:
  documents. C35, C36: what validation promises to the scheduler. C38 to C40: a run seen from
  the database, from the command line, and after a crash.

  \<^bold>\<open>Choices.\<close> Integers keep their width where the code narrows or wraps (\<open>to_int32\<close>, \<open>to_int64\<close>,
  words in \<open>Sha256\<close> and in the edge keys of \<open>Dag\<close>); counters that cannot get near their bounds are \<open>nat\<close>.
  \<^verbatim>\<open>double\<close> values are rationals. Errors are values of sum and option types, including those that end
  the process. There is no fuel: loops are structural or come with a measure, except the two loops
  of the hash (\<open>update_loop\<close>, \<open>pad_loop\<close>), which are partial functions shown to return (C23), and the
  event loops, which are step relations. Clock readings, answers of the operating system and of
  the file system are functions of a tick that every question advances.

  \<^bold>\<open>Assumed of code outside the sources\<close>, each time as a named argument or hypothesis: the JSON
  library parses back what it printed (\<open>prints_back\<close>); a hash table is walked over completely
  (\<open>lists_all\<close>); SQLite statements do to a table what its documentation says; the operating system's
  answers are arbitrary. A call of \<^verbatim>\<open>launch\<close> is one atomic action, and the scheduler's theorems are
  about runners that accept launches (\<open>env_ok\<close>).

  \<^bold>\<open>Not modelled\<close>: the text of SQL statements and the library that executes it; the child's side
  between \<^verbatim>\<open>fork\<close> and \<^verbatim>\<open>exec\<close>, which is one answer of the operating system; rounding of floating-point
  arithmetic; what a process prints before an exception ends it; tests, examples and build files.
\<close>

section \<open>The scheduler\<close>

text \<open>
  C1. Dependencies come first: in every reachable state, a task that is queued, running or
  has finished by itself (succeeded, failed or served from the cache) has only dependencies
  that succeeded or were served from the cache.
\<close>

theorem dependencies_first:
  assumes "env_ok E" "reachable E cache (pc, s)" "pc \<noteq> pcReturned" "i < e_size E"
    "ns_state (s_nodes s i) \<in> {tsReady, tsRunning, tsSucceeded, tsFailed, tsCached}"
    "p \<in> set (g_pred (e_graph E) ! i)"
  shows "is_success_like (ns_state (s_nodes s p))"
  using inv_parts(2) [OF reachable_inv [OF assms(1,2)]] assms(3-)
  by (auto simp: order_ok_def started_def st_of_def preds_def)

theorem dependencies_first_witness:
  "ns_state (s_nodes (sample_handled (exited 0)) 1) = tsReady \<and>
   is_success_like (ns_state (s_nodes (sample_handled (exited 0)) 0))"
proof -
  have "pr_outcome (exited 0) \<noteq> poCancelled" by (simp add: exited_def)
  note r = sample_handled_reachable [OF this]
  have "0 \<in> set (g_pred (e_graph (sample_env [])) ! 1)" using sample_graph_facts(2) [of "[]"] by (simp add: preds_def)
  with dependencies_first [OF sample_env_ok r, of 1 0] sample_success show ?thesis by (simp add: st_of_def)
qed

text \<open>
  C2. The concurrency limit holds in every reachable state, and the counter that enforces it
  is the number of tasks in state RUNNING.
\<close>

theorem concurrency_limit:
  assumes "env_ok E" "reachable E cache (pc, s)" "pc \<noteq> pcReturned"
  shows "s_running_count s = card {i. i < e_size E \<and> ns_state (s_nodes s i) = tsRunning} \<and>
    int (s_running_count s) \<le> max_concurrency E"
  using inv_parts(7) [OF reachable_inv [OF assms(1,2)]] assms(3) by (simp add: run_ok_def running_def st_of_def)

theorem concurrency_limit_witness:
  "s_running_count sample_running = card {i. i < 2 \<and> ns_state (s_nodes sample_running i) = tsRunning} \<and>
   int (s_running_count sample_running) \<le> 2"
proof -
  have "max_concurrency (sample_env []) = 2" by (simp add: max_concurrency_def sample_env_def)
  then show ?thesis using concurrency_limit [OF sample_env_ok sample_running_reachable] by simp
qed

text \<open>
  C3. The resource budget holds in every reachable state: for CPU cores, memory and GPUs
  alike, the pool has exactly the sum of the running tasks' requests in use, and that is
  within the configured capacity (or zero, if a capacity is negative).
\<close>

theorem resources_within_capacity:
  assumes "env_ok E" "reachable E cache (pc, s)" "pc \<noteq> pcReturned"
  shows "used (s_pool s) b =
           (\<Sum>i | i < e_size E \<and> ns_state (s_nodes s i) = tsRunning. need (td_resources (task_of E i)) b)
         \<and> used (s_pool s) b \<le> max 0 (cap (mk_ResourcePool (cfg_resource_capacity (e_config E))) b)"
proof -
  have p: "pool_ok E (st_of s) (hold_of s) (s_pool s)"
    using inv_parts(8) [OF reachable_inv [OF assms(1,2)]] assms(3) by simp
  then have "used (s_pool s) b = (\<Sum>r \<in># demand E (st_of s). need r b)"
    by (simp add: pool_ok_def rp.accounts_def)
  moreover have "\<dots> = (\<Sum>i \<in> running E (st_of s). need (td_resources (task_of E i)) b)"
    by (simp add: demand_def sum_unfold_sum_mset multiset.map_comp o_def)
  moreover have "cap (s_pool s) b = cap (mk_ResourcePool (cfg_resource_capacity (e_config E))) b"
    using p by (cases b) (simp_all add: pool_ok_def mk_ResourcePool_def)
  moreover have "used (s_pool s) b \<le> max 0 (cap (s_pool s) b)" using p by (simp add: pool_ok_def)
  ultimately show ?thesis by (simp only: running_def st_of_def)
qed

theorem resources_within_capacity_witness:
  "used (s_pool sample_running) Cpu \<le> 4"
  using resources_within_capacity [OF sample_env_ok sample_running_reachable, of Cpu]
  by (simp add: sample_env_def mk_ResourcePool_def)

text \<open>
  C4. When \<^verbatim>\<open>run()\<close> returns, nothing is left open: the result has one task run per node of
  the graph, and each of them is in a terminal state.
\<close>

theorem returned_all_terminal:
  assumes E: "env_ok E" and r: "reachable E cache (pcReturned, s)"
  shows "set (map fst (run_task_runs (s_run s))) = set (g_nodes (e_graph E)) \<and>
    list_all (\<lambda>(v, tr). is_terminal_task (tr_state tr)) (run_task_runs (s_run s))"
proof -
  obtain s0 where s0: "sched_inv E {} {} {} [] s0" "all_settled E s0" "s = run_end E s0"
    using returned_state [OF E r] .
  have m: "mirror_ok E (st_of s0) (run_task_runs (s_run s))" using inv_parts(12) [OF s0(1)] by (simp add: s0(3) run_end_sel)
  have "is_terminal_task (tr_state tr)" if "(v, tr) \<in> set (run_task_runs (s_run s))" for v tr
    using mirror_entry [OF m that] settled_terminal [OF E s0(1,2)] by metis
  with m show ?thesis by (auto simp: mirror_ok_def list_all_iff)
qed

theorem returned_all_terminal_witness:
  "set (map fst (run_task_runs (s_run (run_end (sample_env absent_input) sample_failed)))) = {''a'', ''b''} \<and>
   list_all (\<lambda>(v, tr). is_terminal_task (tr_state tr))
     (run_task_runs (s_run (run_end (sample_env absent_input) sample_failed)))"
  using returned_all_terminal [OF sample_env_ok sample_failed_returned] by (simp add: sample_env_def sample_graph_eq)

text \<open>
  C5. The reported pipeline state: CANCELLED if cancellation was requested, otherwise SUCCEEDED
  exactly if every task succeeded or was served from the cache, otherwise FAILED.
\<close>

theorem returned_pipeline_state:
  assumes E: "env_ok E" and r: "reachable E cache (pcReturned, s)"
  shows "run_state (s_run s) =
    (if s_cancelling s \<or> s_cancel_requested s then psCancelled
     else if \<forall>tr \<in> snd ` set (run_task_runs (s_run s)). is_success_like (tr_state tr) then psSucceeded else psFailed)"
  by (rule returned_final_state [OF E r])

theorem returned_pipeline_state_witness:
  "run_state (s_run (run_end (sample_env []) sample_cancelled)) = psCancelled"
  using returned_pipeline_state [OF sample_env_ok sample_cancelled_returned] sample_cancelled_requested
  by (simp add: run_end_flags)

text \<open>
  C6. A task is skipped only because of a failure: every skipped task lies downstream of a
  failed one, and everything downstream of a failed task is skipped.
\<close>

theorem skipped_iff_downstream_of_failure:
  assumes E: "env_ok E" and "reachable E cache (pc, s)" "pc \<noteq> pcReturned" and j: "j < e_size E"
  shows "ns_state (s_nodes s j) = tsSkipped \<longleftrightarrow>
    (\<exists>i < e_size E. ns_state (s_nodes s i) = tsFailed \<and> (i, j) \<in> (dag_edges (g_succ (e_graph E)))\<^sup>+)"
proof -
  have I: "sched_inv E {} {} {} [] s" using reachable_inv [OF assms(1,2)] assms(3) by simp
  then show ?thesis
    using descendants_skipped [OF E inv_parts(5) [OF I], of _ j] inv_parts(6) [OF I] j
    by (auto simp: cause_ok_def st_of_def edges_def)
qed

theorem skipped_iff_downstream_of_failure_witness:
  "\<exists>i < 2. ns_state (s_nodes sample_failed i) = tsFailed \<and>
     (i, 1) \<in> (dag_edges (g_succ (e_graph (sample_env absent_input))))\<^sup>+"
  using skipped_iff_downstream_of_failure [OF sample_env_ok sample_failed_reachable, of 1] sample_states(4)
  by (simp add: st_of_def)

text \<open>
  C7. Observers see only legal transitions: every reported change of a task's state is one of
  \<^verbatim>\<open>is_valid_transition\<close>, or the change from READY to FAILED of a task that fails without
  being started (which \<^verbatim>\<open>is_valid_transition\<close> does not list).
\<close>

theorem observed_transitions:
  assumes "env_ok E" "reachable E cache (pc, s)" "pc \<noteq> pcReturned"
    "on_task_state_changed tr prev \<in> set (s_notices s)"
  shows "is_valid_transition prev (tr_state tr) \<or> prev = tsReady \<and> tr_state tr = tsFailed"
  using inv_parts(13) [OF reachable_inv [OF assms(1,2)]] assms(3,4) by (auto simp: trace_ok_def allowed_def)

theorem observed_transitions_witness:
  "\<exists>tr. on_task_state_changed tr tsReady \<in> set (s_notices sample_failed) \<and>
     (is_valid_transition tsReady (tr_state tr) \<or> tr_state tr = tsFailed)"
proof -
  obtain tr where "on_task_state_changed tr tsReady \<in> set (s_notices sample_failed)" using sample_notice by blast
  with observed_transitions [OF sample_env_ok sample_failed_reachable _ this] show ?thesis by auto
qed



text \<open>
  C9. Every launched process is accounted for until its exit has been handled: the running
  tasks are exactly those for which the runner still holds an \<^verbatim>\<open>on_exit\<close> callback or a
  finished event is in the queue, one of the two and only once.
\<close>

theorem one_exit_per_running_task:
  assumes "env_ok E" "reachable E cache (pc, s)" "pc \<noteq> pcReturned"
  shows "mset (map (\<lambda>(h, i, a). i) (s_callbacks s) @ map ev_node (filter is_kProcessFinished (s_events s)))
    = mset_set {i. i < e_size E \<and> ns_state (s_nodes s i) = tsRunning}"
proof -
  have "List.map_filter finished_node evs = map ev_node (filter is_kProcessFinished evs)" for evs
    by (induction evs) (auto simp: List.map_filter_def finished_node_def split: Event.splits)
  then have "map (\<lambda>(h, i, a). i) (s_callbacks s) @ map ev_node (filter is_kProcessFinished (s_events s)) =
      owed (s_callbacks s) (s_events s)" by (simp add: owed_def)
  moreover have "owed_ok E (st_of s) (s_callbacks s) (s_events s) (s_cancelling s)"
    using inv_parts(11) [OF reachable_inv [OF assms(1,2)]] assms(3) by simp
  then have "mset (owed (s_callbacks s) (s_events s)) = mset_set (running E (st_of s))"
    by (metis owed_ok_def mset_set_set)
  ultimately show ?thesis by (simp only: running_def st_of_def)
qed

theorem one_exit_per_running_task_witness:
  "mset_set {i. i < 2 \<and> ns_state (s_nodes sample_running i) = tsRunning} = {#0#}"
  using one_exit_per_running_task [OF sample_env_ok sample_running_reachable] by (simp add: sample_facts)

text \<open>
  C10. The scheduler never waits for nothing: when it blocks on the event queue, a task is
  running (so an exit is owed or already queued, by the previous property) or a retry is
  waiting for its back-off to elapse.
\<close>

theorem never_waits_for_nothing:
  assumes "env_ok E" "reachable E cache (pcWait, s)"
  shows "0 < length (s_callbacks s) \<or> 0 < length (filter is_kProcessFinished (s_events s)) \<or>
    (\<exists>i < e_size E. ns_waiting_for_retry (s_nodes s i) \<and> ns_state (s_nodes s i) = tsReady)"
proof -
  have I: "sched_inv E {} {} {} [] s" using reachable_inv [OF assms] by simp
  note P = inv_parts [OF I]
  consider i where "i \<in> running E (st_of s)" | i where "i < e_size E" "wait_of s i"
    using waiting_has_cause [OF assms] by (auto simp: running_def)
  then show ?thesis
  proof cases
    case 1
    then have "i \<in> set (owed (s_callbacks s) (s_events s))" using P(11) by (simp add: owed_ok_def)
    then show ?thesis
      by (auto simp: owed_def List.map_filter_def finished_node_def filter_empty_conv split: Event.splits) force
  next
    case 2
    then show ?thesis using P(4) by (auto simp: queue_ok_def wait_of_def st_of_def)
  qed
qed

theorem never_waits_for_nothing_witness:
  "0 < length (s_callbacks sample_running) \<or> 0 < length (filter is_kProcessFinished (s_events sample_running)) \<or>
    (\<exists>i < 2. ns_waiting_for_retry (s_nodes sample_running i) \<and> ns_state (s_nodes sample_running i) = tsReady)"
  using never_waits_for_nothing [OF sample_env_ok sample_running_reachable] by simp

text \<open>
  C11. An attempt that succeeds: handling the exit makes the task SUCCEEDED, makes READY
  exactly the pending dependents whose other dependencies have all succeeded (none while
  cancelling), and changes no other task.
\<close>

theorem finished_success:
  assumes "env_ok E" "sched_inv E {} {} {} (kProcessFinished i pr a # evs) s" "attempt_ok E i pr (s_tick s)"
  shows "ns_state (s_nodes (handle_process_finished E i pr s) j) =
    (if j = i then tsSucceeded
     else if j \<in> set (g_succ (e_graph E) ! i) \<and> ns_state (s_nodes s j) = tsPending \<and> \<not> s_cancelling s \<and>
       (\<forall>p \<in> set (g_pred (e_graph E) ! j). p = i \<or> is_success_like (ns_state (s_nodes s p)))
     then tsReady else ns_state (s_nodes s j))"
  using fun_cong [OF success_effect [OF assms], of j]
  by (auto simp: st_of_def released_by_def succs_def preds_def)

theorem finished_success_witness:
  "ns_state (s_nodes (handle_process_finished (sample_env []) 0 (exited 0) (sample_taken (exited 0))) 0) = tsSucceeded"
proof -
  have sample_attempt_ok: "attempt_ok (sample_env []) 0 (exited 0) t" for t
    by (simp add: attempt_ok_def exited_def pr_succeeded_def missing_outputs_def missing_decls_def sample_graph_facts)
  have "sched_inv (sample_env []) {} {} {} [kProcessFinished 0 (exited 0) 1] (sample_taken (exited 0))"
    by (rule sample_taken_inv) (simp add: exited_def)
  from finished_success [OF sample_env_ok this, of 0] sample_attempt_ok show ?thesis by simp
qed

text \<open>
  C12. An attempt that fails for good (no retry left, or the process never started): the task
  becomes FAILED, every task downstream of it SKIPPED, and no other task changes.
\<close>

theorem finished_failure:
  assumes "env_ok E" "sched_inv E {} {} {} (kProcessFinished i pr a # evs) s" "\<not> attempt_ok E i pr (s_tick s)"
    "\<not> s_cancelling s" "\<not> attempt_again E i pr (ns_attempts_made (s_nodes s i))"
  shows "ns_state (s_nodes (handle_process_finished E i pr s) j) =
    (if j = i then tsFailed
     else if (i, j) \<in> (dag_edges (g_succ (e_graph E)))\<^sup>+ then tsSkipped else ns_state (s_nodes s j))"
  using fun_cong [OF failure_effect [OF assms(1-4)], of j] assms(5) by (simp add: st_of_def att_of_def edges_def)

theorem finished_failure_witness:
  "ns_state (s_nodes (handle_process_finished (sample_env []) 0 ProcessResult_default
     (sample_taken ProcessResult_default)) 0) = tsFailed"
proof -
  have I: "sched_inv (sample_env []) {} {} {} [kProcessFinished 0 ProcessResult_default 1] (sample_taken ProcessResult_default)"
    by (rule sample_taken_inv) (simp add: ProcessResult_default_def)
  show ?thesis
    using finished_failure [OF sample_env_ok I, of 0] sample_taken_nodes
    by (simp add: attempt_ok_def pr_succeeded_def attempt_again_def ProcessResult_default_def)
qed



text \<open>
  C14. The safety net of the launch phase fails only tasks that can never run: with no task
  running, a task the launch loop leaves in the queue asks for more than the machine has.
\<close>

theorem safety_net_only_unschedulable:
  assumes "env_ok E" "sched_inv E {} {} {} [] s" "\<not> s_cancelling s" "\<not> s_threw (launch_loop E s)"
    "s_running_count (launch_loop E s) = 0" "e \<in> set (s_ready (launch_loop E s))"
  shows "\<not> fits_within (td_resources (task_of E (re_node e))) (cfg_resource_capacity (e_config E))"
  using assms by (rule stuck_cannot_fit)

theorem safety_net_only_unschedulable_witness:
  "\<not> fits_within single_core (cfg_resource_capacity (e_config tiny_env))"
proof -
  have "s_ready (launch_loop tiny_env tiny_begun) \<noteq> []" using tiny_facts(4) by auto
  then have m: "hd (s_ready (launch_loop tiny_env tiny_begun)) \<in> set (s_ready (launch_loop tiny_env tiny_begun))" by simp
  have "re_node (hd (s_ready (launch_loop tiny_env tiny_begun))) = 0" using tiny_facts(4) by auto
  then show ?thesis
    using safety_net_only_unschedulable [OF tiny_env_ok tiny_inv tiny_facts(1,2,3) m] tiny_task by simp
qed

text \<open>
  C15. Cancellation: every task that has not started becomes CANCELLED, no other task changes,
  the ready queue is emptied and no retry stays pending.
\<close>

theorem cancel_effect:
  assumes "env_ok E" "sched_inv E {} {} {} evs s"
  shows "ns_state (s_nodes (begin_cancel E s) i) =
      (if i < e_size E \<and> ns_state (s_nodes s i) \<in> {tsPending, tsReady} then tsCancelled else ns_state (s_nodes s i))
    \<and> s_ready (begin_cancel E s) = [] \<and> s_cancelling (begin_cancel E s) \<and>
      list_all (\<lambda>k. \<not> ns_waiting_for_retry (s_nodes (begin_cancel E s) k)) [0..<e_size E]"
proof -
  note B = begin_cancel_spec [OF assms]
  show ?thesis using fun_cong [OF B(2), of i] B(3-5) by (auto simp: cancelled_st_def st_of_def wait_of_def list_all_iff)
qed

theorem cancel_effect_witness:
  "ns_state (s_nodes (begin_cancel (sample_env []) sample_running) 1) = tsCancelled"
proof -
  have "sched_inv (sample_env []) {} {} {} [] sample_running"
    using reachable_inv [OF sample_env_ok sample_running_reachable] by simp
  from cancel_effect [OF sample_env_ok this, of 1] sample_states(2) show ?thesis by (simp add: st_of_def)
qed

section \<open>The pipeline graph\<close>

text \<open>
  C16. \<^verbatim>\<open>Dag::build\<close> accepts exactly the well-formed pipelines: unique ids, both ends of every
  dependency known, no self-dependency and no cycle. The bound on the number of nodes is the
  range of the 32-bit halves of the key that de-duplicates edges.
\<close>

theorem dag_build_accepts:
  assumes "length nodes \<le> 2 ^ 32"
  shows "br_ok (build nodes deps) \<longleftrightarrow>
     distinct nodes \<and> (\<forall>(a, b) \<in> set deps. a \<in> set nodes \<and> b \<in> set nodes \<and> a \<noteq> b) \<and>
     acyclic (set deps)"
  using assms by (rule build_ok_iff)

theorem dag_build_accepts_witness:
  "br_ok (build [''a'', ''b''] [(''a'', ''b'')]) \<longleftrightarrow> acyclic {(''a'', ''b'')}"
  using dag_build_accepts [of "[''a'', ''b'']" "[(''a'', ''b'')]"] by simp

text \<open>
  C17. A reported cycle is a cycle: the names in the error start and end with the same task
  and each depends on the one before it.
\<close>

theorem cycle_report_real:
  assumes "err \<in> set (br_errors (build nodes deps))" "de_code err = kCycle"
  shows "2 \<le> length (de_cycle err) \<and> hd (de_cycle err) = last (de_cycle err) \<and>
    successively (\<lambda>a b. (a, b) \<in> set deps) (de_cycle err)"
  using assms by (rule build_cycle_real)

theorem cycle_report_real_witness:
  "2 \<le> length (de_cycle (hd (br_errors (build [''a'', ''b''] [(''a'', ''b''), (''b'', ''a'')]))))"
proof -
  let ?b = "build [''a'', ''b''] [(''a'', ''b''), (''b'', ''a'')]"
  have "br_errors ?b \<noteq> [] \<and> de_code (hd (br_errors ?b)) = kCycle"
    by (simp add: build_def add_edges_def add_edge_def edge_key_def find_cycle_def succ_at_def
        dfs_loop.simps(2) rebuild_cycle_def while_unfold cycle_error_def Let_def)
  then show ?thesis
    using cycle_report_real [of "hd (br_errors ?b)" "[''a'', ''b'']" "[(''a'', ''b''), (''b'', ''a'')]"]
    by (metis hd_in_set)
qed

text \<open>
  C18. The topological order lists every task once, each dependency before its dependents.
\<close>

theorem topological_order:
  assumes b: "br_dag (build nodes deps) = Some g" and n: "length nodes \<le> 2 ^ 32" and e: "(u, v) \<in> set deps"
  shows "distinct (g_topo_order g) \<and> set (g_topo_order g) = set nodes \<and>
    (\<exists>before between after. g_topo_order g = before @ u # between @ v # after)"
proof -
  note wf = build_wf [OF b]
  obtain i j where ij: "(i, j) \<in> dag_edges (g_succ g)" "u = id_at g i" "v = id_at g j"
    using e unfolding built_edges(1) [OF b n, symmetric] by (auto simp del: dag_edges_iff)
  show ?thesis using topo_order_perm [OF wf(1)] topo_order_edge [OF wf(1) ij(1)] wf(2) ij(2,3) by auto
qed

theorem topological_order_witness:
  "\<exists>before between after. g_topo_order sample_graph = before @ ''a'' # between @ ''b'' # after"
  using topological_order [OF sample_graph_built, of "''a''" "''b''"] by simp

text \<open>
  C19. \<^verbatim>\<open>transitive_dependents\<close> lists exactly the tasks reachable from the given one along
  dependencies, in declaration order and without repetition.
\<close>

theorem transitive_dependents_exact:
  assumes b: "br_dag (build nodes deps) = Some g" and n: "length nodes \<le> 2 ^ 32" and v: "v \<in> set nodes"
  shows "transitive_dependents g v = filter (\<lambda>w. (v, w) \<in> (set deps)\<^sup>+) nodes"
proof -
  note wf = build_wf [OF b] and B = built_edges [OF b n]
  have ix: "index_of g w = Some i \<longleftrightarrow> i < dag_size g \<and> id_at g i = w" for w i
    by (rule index_of_iff [OF wf(1)])
  have "(\<exists>i j. index_of g v = Some i \<and> index_of g w = Some j \<and> (i, j) \<in> (dag_edges (g_succ g))\<^sup>+)
      \<longleftrightarrow> (v, w) \<in> (set deps)\<^sup>+" if w: "w \<in> set nodes" for w
  proof -
    obtain i j where i: "i < dag_size g" "id_at g i = v" and j: "j < dag_size g" "id_at g j = w"
      using v w wf(2) by (auto simp: in_set_conv_nth id_at_def dag_size_def)
    have "(v, w) \<in> (set deps)\<^sup>+ \<longleftrightarrow> (i, j) \<in> (dag_edges (g_succ g))\<^sup>+"
      using trancl_rename [OF B(3,2), of i j] i j unfolding B(1) by auto
    moreover have "index_of g v = Some k \<longleftrightarrow> k = i" "index_of g w = Some k \<longleftrightarrow> k = j" for k
      using ix i j id_at_inj [OF wf(1)] by auto
    ultimately show ?thesis by auto
  qed
  then show ?thesis unfolding transitive_dependents_idx [OF wf(1)] wf(2) by (intro filter_cong) auto
qed

theorem transitive_dependents_exact_witness:
  "transitive_dependents sample_graph ''a'' = filter (\<lambda>w. (''a'', w) \<in> {(''a'', ''b'')}\<^sup>+) [''a'', ''b'']"
  using transitive_dependents_exact [OF sample_graph_built, of "''a''"] by simp

section \<open>Ready queue, resources and retry policy\<close>

text \<open>
  C20. The ready queue under the default policy: pushing keeps it ordered and places the new
  entry behind everything it is not preferred to and in front of everything it is, so the
  entry taken first is never worse than one left behind.
\<close>

theorem ready_queue_order:
  assumes q: "queue_sorted default_prefer q"
  shows "queue_sorted default_prefer (push default_prefer e q) \<and>
    (\<exists>before after. q = before @ after \<and> push default_prefer e q = before @ e # after \<and>
       list_all (\<lambda>x. \<not> default_prefer e x) before \<and> list_all (default_prefer e) after) \<and>
    (\<exists>best rest. pop_best (push default_prefer e q) = Some (best, rest) \<and>
       list_all (\<lambda>x. \<not> default_prefer x best) rest)"
proof -
  obtain before after where ba: "q = before @ after" "push default_prefer e q = before @ e # after"
    "\<forall>x \<in> set before. \<not> default_prefer e x" "\<forall>x \<in> set after. default_prefer e x"
    using dflt.push_position [OF q] by blast
  obtain best rest where pb: "pop_best (push default_prefer e q) = Some (best, rest)"
    by (cases "push default_prefer e q") auto
  have s: "queue_sorted default_prefer (push default_prefer e q)" by (rule dflt.push_sorted [OF q])
  from dflt.best_first [OF s pb] pb ba s show ?thesis by (auto simp: list_all_iff)
qed

theorem ready_queue_order_witness:
  "queue_sorted default_prefer (push default_prefer (mk_entry (sample_env []) 1 5) [mk_entry (sample_env []) 0 3])"
  using ready_queue_order [of "[mk_entry (sample_env []) 0 3]" "mk_entry (sample_env []) 1 5"]
  by (simp add: queue_sorted_def)



section \<open>Hashing, paths and the cache\<close>

text \<open>
  C22. The streaming SHA-256 computes the standard's function: however a file is cut into
  reads, the digest is that of the padded message of the whole contents, of 64 hex digits,
  and the in-memory digest of a string is the same function of its bytes.
\<close>

theorem sha256_streaming_correct:
  "sha256_file (Some (pieces, False)) = Some (sha256_spec (concat pieces)) \<and>
   sha256_hex txt = sha256_spec (bytes_of txt) \<and> length (sha256_hex txt) = 64"
  by (simp add: sha256_file_def digest_pieces_eq sha256_hex_eq sha256_spec_length)

text \<open>
  C23. The loops of the hash always end: from any state in which the bytes \<open>m\<close> have been taken
  in, taking in more bytes returns a state for the longer message, and padding returns a state
  with exactly 56 buffered bytes.
\<close>

theorem hash_loops_return:
  assumes "absorbed s m"
  shows "(\<exists>s'. update_loop s bs = Some s' \<and> absorbed s' (m @ bs) \<and> sha_bit_len s' = sha_bit_len s) \<and>
    (\<exists>s' k. pad_loop s = Some s' \<and> absorbed s' (m @ replicate k 0) \<and> k < 64 \<and> sha_buffer_len s' = 56)"
proof -
  let ?k = "(120 - length m mod 64) mod 64"
  have "length m mod 64 \<le> 120"
    using mod_less_divisor [of 64 "length m"] by simp
  moreover have "(length m + ?k) mod 64 = (length m mod 64 + (120 - length m mod 64)) mod 64"
    by (simp only: mod_add_left_eq mod_add_right_eq)
  ultimately have k: "(length m + ?k) mod 64 = 56"
    by simp
  then obtain s' where "pad_loop s = Some s'" "absorbed s' (m @ replicate ?k 0)"
    using pad_loop_absorbs [OF assms] by force
  moreover from this have "sha_buffer_len s' = 56"
    using k by (simp add: absorbed_def)
  moreover have "?k < 64"
    by simp
  ultimately show ?thesis
    using update_loop_absorbs [OF assms] by blast
qed

theorem hash_loops_return_witness:
  "\<exists>s'. update_loop Sha256_new (replicate 100 0x61) = Some s' \<and> absorbed s' (replicate 100 0x61)"
  using hash_loops_return [OF absorbed_new, of "replicate 100 0x61"] by auto

text \<open>
  C24. What is stored in the cache is found again: after a successful outcome has been
  stored, looking its key up returns it as long as its outputs are still as recorded, with
  a codec that parses back what it printed.
\<close>

theorem cache_finds_stored:
  assumes "cs_enabled cs" "co_exit_code oc = 0" "prints_back codec (outputs_doc (co_outputs oc))"
    "list_all (output_still_valid fs) (co_outputs oc)"
  shows "\<exists>cs'. cache_lookup codec fs (cache_store codec cs k tid oc t1) k t2 = Inr (Some oc, cs')"
  using lookup_after_store [OF assms(1-3)] assms(4) by (simp add: list_all_iff)

theorem cache_finds_stored_witness:
  "\<exists>cs'. cache_lookup \<lparr>dump = (\<lambda>_. ''[]''), parse = (\<lambda>_. Some (outputs_doc []))\<rparr> (\<lambda>_. None)
     (cache_store \<lparr>dump = (\<lambda>_. ''[]''), parse = (\<lambda>_. Some (outputs_doc []))\<rparr>
       \<lparr>cs_repo = [], cs_enabled = True\<rparr> ''k'' ''a'' \<lparr>co_exit_code = 0, co_outputs = []\<rparr> 5) ''k'' 6
     = Inr (Some \<lparr>co_exit_code = 0, co_outputs = []\<rparr>, cs')"
  by (rule cache_finds_stored) (simp_all add: prints_back_def)



text \<open>
  C26. What a cache key stands for: two tasks whose hashed texts agree agree in everything
  that is hashed, up to the order of environment variables and inputs, provided no hashed
  field contains a line break; and that order never matters for the key.
\<close>

theorem cache_key_determines:
  assumes "newline_free t i" "newline_free t' i'"
  shows "cache_blob t i = cache_blob t' i' \<longleftrightarrow>
    td_type t = td_type t' \<and> td_program t = td_program t' \<and> td_script t = td_script t' \<and>
    td_arguments t = td_arguments t' \<and> mset (env_lines t) = mset (env_lines t') \<and>
    td_working_directory t = td_working_directory t' \<and> mset (map identity i) = mset (map identity i')"
  using cache_blob_determines [OF _ assms] cache_blob_order_free [of t t' i i'] by blast

theorem cache_key_determines_witness:
  "cache_blob (sample_task ''a'' []) [] \<noteq> cache_blob (sample_task ''b'' []) []"
  using cache_key_determines [of "sample_task ''a'' []" "[]" "sample_task ''b'' []" "[]"]
  by (simp add: newline_free_def blob_fields_def sample_task_def kCacheKeyPrefix_def)

section \<open>Processes and text\<close>

text \<open>
  C27. The environment of a child: a variable the task sets (under a non-empty name without
  \<^verbatim>\<open>=\<close>) has exactly the value it was given last, whatever the parent's environment is.
\<close>

theorem environment_overrides_win:
  assumes "k \<noteq> []" "CHR ''='' \<notin> set k" "map_of (rev overrides) k = Some v"
  shows "k @ ''='' @ w \<in> set (build_environment_block environ overrides inherit) \<longleftrightarrow> w = v"
proof -
  have "snd (env_table environ overrides inherit) k = Some v"
    using assms by (simp add: env_table_def overrides_lookup well_formed_key_def)
  then show ?thesis using block_lookup [of k w environ overrides inherit] assms(2) by auto
qed

theorem environment_overrides_win_witness:
  "''A=2'' \<in> set (build_environment_block [''A=1''] [(''A'', ''2'')] True)"
  using environment_overrides_win [of "''A''" "[(''A'', ''2'')]" "''2''" "''2''" "[''A=1'']" True] by simp



section \<open>The process runner and pipeline documents\<close>



text \<open>
  C30. A child is reported as cancelled only if somebody asked for it: its cancellation or the
  shutdown of the runner was requested before.
\<close>

theorem cancelled_only_when_asked:
  assumes "(rstep os)\<^sup>*\<^sup>* (runner_start grace) (cmds, stopped, r)" "on_exit h res \<in> set (r_out r)"
    "pr_outcome res = poCancelled"
  shows "kTerminate h True \<in> set cmds \<or> kShutdown \<in> set cmds"
  using reach_justified [OF assms(1)] assms(2,3) by (auto simp: cancel_justified_def cancel_asked_def)

theorem cancelled_only_when_asked_witness:
  "kTerminate 1 True \<in> set [sample_launch, kTerminate 1 True] \<and> kShutdown \<notin> set [sample_launch]"
  using cancelled_only_when_asked [OF cancelled_reachable cancelled_exit(1)] by (simp add: sample_launch_def)







text \<open>
  C34. A document that loads gives a well-formed definition: no error is recorded, the schema
  version is the supported one, it has a name and one task per element of the document's
  array, every number is within its type, and only Python tasks have a script.
\<close>

theorem loaded_is_canonical:
  assumes "load_pipeline_from_json codec txt base = \<lparr>lr_pipeline = Some p, lr_errors = es\<rparr>"
    "parse codec txt = Some doc" "ordered_json doc"
  shows "es = [] \<and> canonical p \<and> pd_base_directory p = base \<and>
    (\<exists>vs. jfind doc ''tasks'' = Some (JArr vs) \<and> length (pd_tasks p) = length vs)"
proof -
  have "load_document doc base = ([], p) \<and> es = []"
    using assms(1,2) by (cases doc) (auto simp: load_pipeline_from_json_def split: prod.splits if_splits)
  then show ?thesis
    using load_document_canonical [of doc base p] assms(3) by blast
qed

theorem loaded_is_canonical_witness:
  "\<exists>vs. jfind (JObj (pipeline_to_json (sample_pipeline []))) ''tasks'' = Some (JArr vs) \<and> length vs = 2"
proof -
  have "load_pipeline_from_json sample_codec ''{}'' ''/w'' = \<lparr>lr_pipeline = Some (sample_pipeline []), lr_errors = []\<rparr>"
    using load_document_back [OF sample_canonical] 
    by (simp add: load_pipeline_from_json_def sample_codec_def sample_pipeline_def)
  from loaded_is_canonical [OF this, of "JObj (pipeline_to_json (sample_pipeline []))"] sample_ordered show ?thesis
    by (auto simp: sample_codec_def sample_pipeline_def)
qed

section \<open>The validator, the database and the engine\<close>

text \<open>
  C35. The validator accepts exactly the pipelines that can be run: a name, non-empty distinct
  ids, dependencies between known tasks without a cycle, and every task within its limits with
  its program, script, directories and declared files in place (\<open>task_valid\<close>).
\<close>

theorem validator_accepts:
  assumes "lists_all m" "length (pd_tasks p) \<le> 2 ^ 32"
  shows "report_ok (validate_pipeline m opt p) \<longleftrightarrow>
    pd_name p \<noteq> [] \<and> list_all (\<lambda>t. td_id t \<noteq> []) (pd_tasks p) \<and> distinct (map td_id (pd_tasks p)) \<and>
    list_all (\<lambda>(a, b). a \<in> td_id ` set (pd_tasks p) \<and> b \<in> td_id ` set (pd_tasks p) \<and> a \<noteq> b) (edge_pairs p) \<and>
    acyclic (set (edge_pairs p)) \<and> list_all (task_valid m opt p) (pd_tasks p)"
  using validate_ok_iff [OF assms(1)] build_ok_iff [of "map td_id (pd_tasks p)"] assms(2)
  by (simp add: list_all_iff)

theorem validator_accepts_witness:
  "\<not> report_ok (validate_pipeline sample_machine (run_validation_options sample_config)
     ((sample_pipeline [])\<lparr>pd_edges := [\<lparr>edge_from = ''a'', edge_to = ''z''\<rparr>]\<rparr>))"
  using validator_accepts [OF sample_lists_all, of "(sample_pipeline [])\<lparr>pd_edges := [\<lparr>edge_from = ''a'', edge_to = ''z''\<rparr>]\<rparr>"]
  by (simp add: sample_pipeline_def sample_task_def edge_pairs_def)

text \<open>
  C36. A pipeline the engine accepts can be scheduled: its graph is built, the environment the
  engine hands to the scheduler meets the scheduler's preconditions, and every task fits the
  configured machine, with a process runner that accepts launches.
\<close>

theorem accepted_can_run:
  assumes "lists_all m" "report_ok (validate_pipeline m (run_validation_options cfg) p)"
    "\<forall>k. e_launch world k \<noteq> kInvalidHandle"
  shows "\<exists>g. br_dag (run_graph p) = Some g \<and> env_ok (run_env world cfg req p g) \<and>
    list_all (\<lambda>t. fits_within (td_resources t) (c_resource_capacity cfg)) (pd_tasks p)"
  using accepted_graph [OF assms(1,2)] accepted_env_ok [OF assms(1,2) _ assms(3)]
  unfolding list_all_iff by metis

theorem accepted_can_run_witness:
  "\<exists>g. br_dag (run_graph (sample_pipeline absent_input)) = Some g \<and>
     env_ok (run_env (sample_env []) sample_config sample_request (sample_pipeline absent_input) g)"
  using accepted_can_run [OF sample_lists_all sample_accepted, of "sample_env []" sample_request]
  by (auto simp: sample_env_def kInvalidHandle_def)



text \<open>
  C38. A finished run is in the database as it was reported: when the engine's run returns, the
  report carries the scheduler's result, every task of it has a row with its final state, the run's row has
  the final pipeline state and an end time, and the log table has gained exactly the lines the
  scheduler announced, in order and up to time stamps. The scheduler's part is any run of the
  concurrent system that returned.
\<close>

theorem run_is_recorded:
  assumes "run_pipeline clk m world sched cfg pl req p = (Returned rep, p')" "\<not> rr_validation_failed rep"
    "lists_all m" "db_ok (ps_db p)" "\<forall>k. e_launch world k \<noteq> kInvalidHandle" "br_dag (run_graph pl) = Some g"
    "sched (run_env world cfg req pl g) (run_cache cfg req p) = (pcReturned, s)"
    "reachable (run_env world cfg req pl g) (run_cache cfg req p) (pcReturned, s)"
  shows "rr_run rep = Some (s_run s) \<and>
    list_all (\<lambda>(v, tr). \<exists>i. ((i, rr_run_id rep, v), to_string_TaskState (tr_state tr)) \<in> set (rows (ps_db p')))
      (run_task_runs (s_run s)) \<and>
    list_ex (\<lambda>r. prun_id r = rr_run_id rep \<and> prun_state r = to_string_PipelineState (run_state (s_run s)) \<and>
      prun_finished_at r \<noteq> None) (db_runs (ps_db p')) \<and>
    map untimed (db_logs (ps_db p')) =
      map untimed (db_logs (ps_db p)) @ concat (map (notice_log (rr_run_id rep)) (s_notices s))"
  using run_recorded [OF assms] by (auto simp: list_all_iff list_ex_iff)

theorem run_is_recorded_witness:
  "\<exists>i j. ((i, 1, ''a''), ''FAILED'') \<in> set (rows (ps_db (snd sample_outcome))) \<and>
     ((j, 1, ''b''), ''SKIPPED'') \<in> set (rows (ps_db (snd sample_outcome)))"
proof -
  obtain rep where rep: "fst sample_outcome = Returned rep" "\<not> rr_validation_failed rep" "rr_run_id rep = 1"
    using sample_outcome_returned by blast
  then have "run_pipeline (\<lambda>k. int k) sample_machine sample_world (\<lambda>_ _. (pcReturned, engine_returned)) sample_config
      (sample_pipeline absent_input) sample_request sample_store = (Returned rep, snd sample_outcome)"
    unfolding sample_outcome_def by (metis prod.collapse)
  note R = run_is_recorded [OF this rep(2) sample_lists_all _ _ sample_run_graph]
  have "list_all (\<lambda>(v, tr). \<exists>i. ((i, 1, v), to_string_TaskState (tr_state tr)) \<in> set (rows (ps_db (snd sample_outcome))))
      (run_task_runs (s_run engine_returned))"
    using R [of engine_returned] engine_reachable [unfolded engine_env_def engine_cache_def] db_ok_empty rep(3)
    by (simp add: sample_store_def sample_world_def sample_env_def kInvalidHandle_def)
  then have "list_all (\<lambda>(v, st). \<exists>i. ((i, 1, v), to_string_TaskState st) \<in> set (rows (ps_db (snd sample_outcome))))
      (map (\<lambda>(v, tr). (v, tr_state tr)) (run_task_runs (s_run engine_returned)))"
    by (simp add: list_all_iff case_prod_unfold)
  moreover have "to_string_TaskState tsFailed = ''FAILED''" "to_string_TaskState tsSkipped = ''SKIPPED''"
    by code_simp+
  ultimately show ?thesis
    by (simp add: engine_report(1))
qed

text \<open>
  C39. From the command line to the tasks: every command exits with a documented code (0, 1 or 2)
  or is ended by an exception, and \<^verbatim>\<open>flowforge run\<close> of an accepted pipeline exits with 0 exactly if
  the run was not cancelled and every task succeeded or was served from the cache. The
  scheduler's part is any run of the concurrent system that returned.
\<close>

theorem run_exit_code:
  assumes "cmd_run sh args c = (ExitCode n, c')" "positional args 0 = Some path"
    "load_pipeline_or_report sh path c = (Some pl, c1)" "open_engine (resolve_config sh args c1) c1 = (Some p, c2)"
    "lists_all (sh_machine sh)"
    "report_ok (validate_pipeline (sh_machine sh) (run_validation_options (resolve_config sh args c1)) pl)"
    "\<forall>k. e_launch (sh_world sh) k \<noteq> kInvalidHandle" "br_dag (run_graph pl) = Some g"
    "sh_sched sh (run_env (sh_world sh) (resolve_config sh args c1) (run_request args) pl g)
       (run_cache (resolve_config sh args c1) (run_request args) p) = (pcReturned, s)"
    "reachable (run_env (sh_world sh) (resolve_config sh args c1) (run_request args) pl g)
       (run_cache (resolve_config sh args c1) (run_request args) p) (pcReturned, s)"
  shows "documented (fst (cli_main sh argv c0)) \<and>
    n = (if \<not> (s_cancelling s \<or> s_cancel_requested s) \<and>
           list_all (\<lambda>(v, tr). is_success_like (tr_state tr)) (run_task_runs (s_run s)) then 0 else 1)"
  using cli_main_documented cmd_run_exit [OF assms] by (auto simp: list_all_iff)

theorem run_exit_code_witness:
  "\<exists>c'. cmd_run sample_shell sample_args sample_cli = (ExitCode 1, c')"
proof -
  obtain n c' where n: "cmd_run sample_shell sample_args sample_cli = (ExitCode n, c')"
    using sample_cmd_run by blast
  obtain c2 where o: "open_engine (resolve_config sample_shell sample_args sample_cli) sample_cli = (Some sample_store, c2)"
    using sample_opened unfolding sample_resolved by blast
  have p: "positional sample_args 0 = Some ''/w/p.json''"
    by (simp add: sample_args_eq positional_def)
  have "map tr_state (map snd (run_task_runs (s_run engine_returned))) = [tsFailed, tsSkipped]"
    using arg_cong [OF engine_report(1), of "map snd"] by (simp add: case_prod_unfold comp_def)
  then have "\<not> list_all (\<lambda>(v, tr). is_success_like (tr_state tr)) (run_task_runs (s_run engine_returned))"
    by (cases "run_task_runs (s_run engine_returned)") (auto simp: is_success_like_def)
  then have "n = 1"
    using run_exit_code [OF n p sample_loaded o, of sample_graph engine_returned] sample_lists_all sample_accepted
      sample_run_graph engine_reachable [unfolded engine_env_def engine_cache_def]
    unfolding sample_resolved sample_requested
    by (simp add: sample_shell_def sample_world_def sample_env_def kInvalidHandle_def)
  with n show ?thesis
    by blast
qed

text \<open>
  C40. Recovery closes every run that was left open, and only those: the runs in state RUNNING or
  CREATED become INTERRUPTED and are counted, their tasks that had not ended become CANCELLED, and
  every other run and task keeps its state.
\<close>

theorem recovery_closes:
  assumes "db_ok (ps_db p)" "recover_orphaned_runs clk p = (n, p')"
  shows "n = int (length (filter (\<lambda>(i, s). stale s) (run_states (ps_db p)))) \<and>
    run_states (ps_db p') = map (\<lambda>(i, s). (i, if stale s then ''INTERRUPTED'' else s)) (run_states (ps_db p)) \<and>
    rows (ps_db p') =
      map (\<lambda>((i, run, v), s). ((i, run, v),
        if list_ex (\<lambda>(i, st). i = run \<and> stale st) (run_states (ps_db p)) then closed_task s else s)) (rows (ps_db p))"
  using recover_orphaned_spec [OF assms] by (auto simp: list_ex_iff)

theorem recovery_closes_witness:
  "fst (recover_orphaned_runs (\<lambda>k. int k) (engine_store [] [])) = 1"
proof -
  have "db_ok (ps_db (engine_store [] []))"
    by (simp add: engine_store_def db_ok_defs empty_database_def table_ok_def)
  from recovery_closes [OF this surjective_pairing] show ?thesis
    by (simp add: engine_store_def run_states_def stale_def)
qed

end
